(* ===== verification/Go_Prelude.thy ===== *)
theory Go_Prelude
  imports
    Main
    "HOL-Library.AList"
    "HOL-Library.Multiset"
    "HOL-Library.Char_ord"
    "HOL-Library.List_Lexorder"
    "HOL-Library.Word"
begin

text \<open>
  The part of Go and of its standard library that the sources of the plugin use, shared by every
  component: byte strings and the functions of package \<open>strings\<close> and \<open>strconv\<close>, machine
  integers, maps and fallible results.

  \<^item> A Go string is a list of bytes, which is what \<^typ>\<open>string\<close> is. \<open>ToLower\<close>, \<open>TrimSpace\<close> and
    \<open>Fields\<close> treat the bytes as ASCII text: a byte above 127 is neither an upper-case letter nor
    white space.
  \<^item> A Go \<open>int\<close> is a 64-bit two's complement number. It is an \<^typ>\<open>int\<close> here, with \<open>wrap64\<close> written
    around the operations of the source that can leave the range.
  \<^item> A Go map is an association list with distinct keys, in the order in which a \<open>range\<close> loop visits
    it. Go leaves that order open, so a statement for every list is a statement for every order.
  \<^item> A run-time panic is the value \<open>Inl\<close> of a sum.
\<close>

named_theorems go_eval \<open>definitions to unfold when a concrete term is evaluated\<close>
named_theorems go_map \<open>facts on association lists used as Go maps\<close>

subsection \<open>Results and panics\<close>

datatype go_panic = IndexOutOfRange | NilDereference | InvalidWriteHeaderCode

type_synonym 'a go = "go_panic + 'a"

definition go_bind :: "'a go \<Rightarrow> ('a \<Rightarrow> 'b go) \<Rightarrow> 'b go" where
  "go_bind m f = (case m of Inl p \<Rightarrow> Inl p | Inr x \<Rightarrow> f x)"

lemma go_bind_simps [simp]:
  "go_bind (Inl p) f = Inl p"
  "go_bind (Inr x) f = f x"
  by (simp_all add: go_bind_def)

lemma go_bind_eq_Inr: "go_bind m f = Inr y \<longleftrightarrow> (\<exists>x. m = Inr x \<and> f x = Inr y)"
  by (cases m) simp_all

lemma go_bind_eq_Inl: "go_bind m f = Inl p \<longleftrightarrow> m = Inl p \<or> (\<exists>x. m = Inr x \<and> f x = Inl p)"
  by (cases m) simp_all

text \<open>Running a fallible function over a slice stops at the first panic.\<close>

fun go_mapM :: "('a \<Rightarrow> 'b go) \<Rightarrow> 'a list \<Rightarrow> 'b list go" where
  "go_mapM f [] = Inr []"
| "go_mapM f (x # xs) = go_bind (f x) (\<lambda>y. go_bind (go_mapM f xs) (\<lambda>ys. Inr (y # ys)))"

lemma go_mapM_Inr: "go_mapM f xs = Inr ys \<longleftrightarrow> list_all2 (\<lambda>x y. f x = Inr y) xs ys"
  by (induction xs arbitrary: ys)
    (auto simp: go_bind_eq_Inr list_all2_Cons1)

lemma go_mapM_panics: "(\<exists>p. go_mapM f xs = Inl p) \<longleftrightarrow> (\<exists>x \<in> set xs. \<exists>p. f x = Inl p)"
proof (induction xs)
  case Nil
  then show ?case by simp
next
  case (Cons x xs)
  then show ?case by (cases "f x"; cases "go_mapM f xs") auto
qed

lemma go_mapM_cong [fundef_cong]:
  "xs = ys \<Longrightarrow> (\<And>x. x \<in> set ys \<Longrightarrow> f x = g x) \<Longrightarrow> go_mapM f xs = go_mapM g ys"
  by (induction xs arbitrary: ys) auto

subsection \<open>Machine integers\<close>

definition wrap64 :: "int \<Rightarrow> int" where
  "wrap64 x = (x + 2 ^ 63) mod 2 ^ 64 - 2 ^ 63"

abbreviation is_int64 :: "int \<Rightarrow> bool" where
  "is_int64 x \<equiv> - (2 ^ 63) \<le> x \<and> x < 2 ^ 63"

lemma wrap64_range: "is_int64 (wrap64 x)"
  using pos_mod_bound [of "2 ^ 64" "x + 2 ^ 63"] pos_mod_sign [of "2 ^ 64" "x + 2 ^ 63"]
  by (simp add: wrap64_def)

lemma wrap64_id: "is_int64 x \<Longrightarrow> wrap64 x = x"
  by (simp add: wrap64_def)

text \<open>Division of Go truncates towards zero.\<close>

definition quot :: "int \<Rightarrow> int \<Rightarrow> int" where
  "quot a b = sgn a * sgn b * (\<bar>a\<bar> div \<bar>b\<bar>)"

lemma quot_nonneg: "0 \<le> a \<Longrightarrow> 0 < b \<Longrightarrow> quot a b = a div b"
  by (cases "a = 0") (simp_all add: quot_def)

subsection \<open>Characters\<close>

abbreviation byte :: "char \<Rightarrow> nat" where
  "byte c \<equiv> of_char c"

definition is_digit :: "char \<Rightarrow> bool" where
  "is_digit c \<longleftrightarrow> 48 \<le> byte c \<and> byte c \<le> 57"

definition is_space :: "char \<Rightarrow> bool" where
  "is_space c \<longleftrightarrow> byte c = 32 \<or> (9 \<le> byte c \<and> byte c \<le> 13)"

definition lower_char :: "char \<Rightarrow> char" where
  "lower_char c = (if 65 \<le> byte c \<and> byte c \<le> 90 then char_of (byte c + 32) else c)"

definition digit_char :: "nat \<Rightarrow> char" where
  "digit_char d = char_of (48 + d)"

lemma is_digit_digit_char: "d < 10 \<Longrightarrow> is_digit (digit_char d)"
  by (simp add: is_digit_def digit_char_def)

lemma byte_digit_char: "d < 10 \<Longrightarrow> byte (digit_char d) = 48 + d"
  by (simp add: digit_char_def)

lemma digit_chars [go_eval]:
  "digit_char 0 = CHR ''0''" "digit_char 1 = CHR ''1''" "digit_char (Suc 0) = CHR ''1''"
  "digit_char 2 = CHR ''2''" "digit_char 3 = CHR ''3''" "digit_char 4 = CHR ''4''"
  "digit_char 5 = CHR ''5''" "digit_char 6 = CHR ''6''" "digit_char 7 = CHR ''7''"
  "digit_char 8 = CHR ''8''" "digit_char 9 = CHR ''9''"
  by code_simp+

lemma lower_char_idem [simp]: "lower_char (lower_char c) = lower_char c"
  by (auto simp: lower_char_def)

subsection \<open>Package \<open>strings\<close>\<close>

definition HasPrefix :: "string \<Rightarrow> string \<Rightarrow> bool" where
  "HasPrefix s p \<longleftrightarrow> length p \<le> length s \<and> take (length p) s = p"

definition HasSuffix :: "string \<Rightarrow> string \<Rightarrow> bool" where
  "HasSuffix s p \<longleftrightarrow> length p \<le> length s \<and> drop (length s - length p) s = p"

definition TrimPrefix :: "string \<Rightarrow> string \<Rightarrow> string" where
  "TrimPrefix s p = (if HasPrefix s p then drop (length p) s else s)"

definition TrimSuffix :: "string \<Rightarrow> string \<Rightarrow> string" where
  "TrimSuffix s p = (if HasSuffix s p then take (length s - length p) s else s)"

definition ToLower :: "string \<Rightarrow> string" where
  "ToLower s = map lower_char s"

text \<open>\<open>IndexByte\<close> and \<open>LastIndex\<close> return \<open>-1\<close> when the byte is absent.\<close>

definition IndexByte :: "string \<Rightarrow> char \<Rightarrow> int" where
  "IndexByte s c = (if c \<in> set s then int (length (takeWhile (\<lambda>x. x \<noteq> c) s)) else - 1)"

definition LastIndex :: "string \<Rightarrow> char \<Rightarrow> int" where
  "LastIndex s c =
     (if c \<in> set s then int (length s) - 1 - int (length (takeWhile (\<lambda>x. x \<noteq> c) (rev s))) else - 1)"

text \<open>\<open>Cut\<close> around the first separator, as \<open>(before, after, found)\<close>.\<close>

definition Cut :: "string \<Rightarrow> char \<Rightarrow> string \<times> string \<times> bool" where
  "Cut s c =
     (if c \<in> set s
      then (takeWhile (\<lambda>x. x \<noteq> c) s, tl (dropWhile (\<lambda>x. x \<noteq> c) s), True)
      else (s, [], False))"

text \<open>\<open>SplitN\<close> with the limit 2.\<close>

definition SplitN2 :: "string \<Rightarrow> char \<Rightarrow> string list" where
  "SplitN2 s c = (case Cut s c of (b, a, ok) \<Rightarrow> if ok then [b, a] else [s])"

fun split_by :: "(char \<Rightarrow> bool) \<Rightarrow> string \<Rightarrow> string list" where
  "split_by P [] = [[]]"
| "split_by P (x # xs) =
     (if P x then [] # split_by P xs
      else (case split_by P xs of [] \<Rightarrow> [[x]] | w # ws \<Rightarrow> (x # w) # ws))"

definition Split :: "string \<Rightarrow> char \<Rightarrow> string list" where
  "Split s c = split_by (\<lambda>x. x = c) s"

definition Fields :: "string \<Rightarrow> string list" where
  "Fields s = filter (\<lambda>w. w \<noteq> []) (split_by is_space s)"

definition TrimSpace :: "string \<Rightarrow> string" where
  "TrimSpace s = rev (dropWhile is_space (rev (dropWhile is_space s)))"

text \<open>\<open>ReplaceAll\<close> for a non-empty pattern: leftmost occurrences, not overlapping.\<close>

function ReplaceAll :: "string \<Rightarrow> string \<Rightarrow> string \<Rightarrow> string" where
  "ReplaceAll s old new =
     (if old = [] \<or> s = [] then s
      else if HasPrefix s old then new @ ReplaceAll (drop (length old) s) old new
      else hd s # ReplaceAll (tl s) old new)"
  by pat_completeness auto
termination
  by (relation "measure (\<lambda>(s, old, new). length s)") auto

declare ReplaceAll.simps [simp del]

definition Contains :: "string \<Rightarrow> string \<Rightarrow> bool" where
  "Contains s p \<longleftrightarrow> list_ex (\<lambda>i. HasPrefix (drop i s) p) [0..<Suc (length s)]"

lemmas [go_eval] =
  HasPrefix_def HasSuffix_def TrimPrefix_def TrimSuffix_def ToLower_def IndexByte_def
  LastIndex_def Cut_def SplitN2_def Split_def Fields_def TrimSpace_def is_digit_def
  is_space_def lower_char_def

lemma HasPrefix_iff: "HasPrefix s p \<longleftrightarrow> (\<exists>r. s = p @ r)"
  by (auto simp: HasPrefix_def) (metis append_take_drop_id)

lemma HasSuffix_iff: "HasSuffix s p \<longleftrightarrow> (\<exists>l. s = l @ p)"
  by (auto simp: HasSuffix_def) (metis append_take_drop_id)

lemma HasPrefix_Nil [simp]: "HasPrefix s []"
  by (simp add: HasPrefix_def)

lemma HasPrefix_append [simp]: "HasPrefix (p @ s) p"
  by (simp add: HasPrefix_def)

lemma TrimPrefix_append [simp]: "TrimPrefix (p @ s) p = s"
  by (simp add: TrimPrefix_def)

lemma TrimSuffix_append [simp]: "TrimSuffix (s @ p) p = s"
  by (auto simp: TrimSuffix_def HasSuffix_iff)

lemma HasPrefix_length: "HasPrefix s p \<Longrightarrow> length p \<le> length s"
  by (simp add: HasPrefix_def)

lemma ToLower_idem [simp]: "ToLower (ToLower s) = ToLower s"
  by (simp add: ToLower_def)

lemma length_ToLower [simp]: "length (ToLower s) = length s"
  by (simp add: ToLower_def)

lemma ToLower_append: "ToLower (s @ t) = ToLower s @ ToLower t"
  by (simp add: ToLower_def)

lemma ToLower_Nil [simp]: "ToLower [] = []" "ToLower s = [] \<longleftrightarrow> s = []"
  by (simp_all add: ToLower_def)

lemma takeWhile_append_delim: "c \<notin> set b \<Longrightarrow> takeWhile (\<lambda>x. x \<noteq> c) (b @ c # a) = b"
  by (induction b) auto

lemma dropWhile_append_delim: "c \<notin> set b \<Longrightarrow> dropWhile (\<lambda>x. x \<noteq> c) (b @ c # a) = c # a"
  by (induction b) auto

lemma Cut_append: "c \<notin> set b \<Longrightarrow> Cut (b @ c # a) c = (b, a, True)"
  by (simp add: Cut_def takeWhile_append_delim dropWhile_append_delim)

lemma Cut_absent: "c \<notin> set s \<Longrightarrow> Cut s c = (s, [], False)"
  by (simp add: Cut_def)

lemma Cut_found: "Cut s c = (b, a, True) \<Longrightarrow> s = b @ c # a \<and> c \<notin> set b"
proof -
  assume cut: "Cut s c = (b, a, True)"
  then have "c \<in> set s" by (simp add: Cut_def split: if_splits)
  then obtain b' a' where s: "s = b' @ c # a'" "c \<notin> set b'"
    using split_list_first by fastforce
  with cut show ?thesis by (simp add: Cut_append)
qed

lemma SplitN2_append: "c \<notin> set b \<Longrightarrow> SplitN2 (b @ c # a) c = [b, a]"
  by (simp add: SplitN2_def Cut_append)

lemma IndexByte_append: "c \<notin> set b \<Longrightarrow> IndexByte (b @ c # a) c = int (length b)"
  by (simp add: IndexByte_def takeWhile_append_delim)

lemma IndexByte_absent [simp]: "c \<notin> set s \<Longrightarrow> IndexByte s c = - 1"
  by (simp add: IndexByte_def)

lemma LastIndex_append: "c \<notin> set a \<Longrightarrow> LastIndex (b @ c # a) c = int (length b)"
  by (simp add: LastIndex_def takeWhile_append_delim)

lemma LastIndex_absent [simp]: "c \<notin> set s \<Longrightarrow> LastIndex s c = - 1"
  by (simp add: LastIndex_def)

lemma LastIndex_cases:
  obtains (absent) "c \<notin> set s" "LastIndex s c = - 1"
  | (found) b a where "s = b @ c # a" "c \<notin> set a" "LastIndex s c = int (length b)"
proof (cases "c \<in> set s")
  case True
  then obtain b a where "s = b @ c # a" "c \<notin> set a"
    using split_list_last by fastforce
  with found show ?thesis by (simp add: LastIndex_append)
next
  case False
  with absent show ?thesis by simp
qed

lemma split_by_not_Nil [simp]: "split_by P s \<noteq> []"
  by (induction s) (auto split: list.splits)

lemma split_by_none: "\<forall>x \<in> set s. \<not> P x \<Longrightarrow> split_by P s = [s]"
  by (induction s) simp_all

lemma split_by_append:
  "\<forall>x \<in> set b. \<not> P x \<Longrightarrow> P c \<Longrightarrow> split_by P (b @ c # a) = b # split_by P a"
  by (induction b) simp_all

lemma split_by_all: "\<forall>x \<in> set s. P x \<Longrightarrow> split_by P s = replicate (Suc (length s)) []"
  by (induction s) simp_all

lemma split_by_word: "w \<in> set (split_by P s) \<Longrightarrow> x \<in> set w \<Longrightarrow> x \<in> set s \<and> \<not> P x"
proof (induction s arbitrary: w)
  case (Cons y s)
  obtain v vs where "split_by P s = v # vs" by (meson neq_Nil_conv split_by_not_Nil)
  with Cons show ?case by (fastforce split: if_splits)
qed simp

lemma split_by_exists: "x \<in> set s \<Longrightarrow> \<not> P x \<Longrightarrow> \<exists>w \<in> set (split_by P s). x \<in> set w"
proof (induction s)
  case (Cons y s)
  obtain v vs where "split_by P s = v # vs" by (meson neq_Nil_conv split_by_not_Nil)
  with Cons show ?case by auto
qed simp

lemma Fields_eq_Nil: "Fields s = [] \<longleftrightarrow> (\<forall>x \<in> set s. is_space x)"
proof
  assume "Fields s = []"
  then have "\<forall>w \<in> set (split_by is_space s). w = []"
    by (simp add: Fields_def filter_empty_conv)
  then show "\<forall>x \<in> set s. is_space x"
    using split_by_exists [of _ s is_space] by fastforce
next
  assume "\<forall>x \<in> set s. is_space x"
  then show "Fields s = []" by (simp add: Fields_def split_by_all)
qed

lemma Fields_single: "s \<noteq> [] \<Longrightarrow> \<forall>x \<in> set s. \<not> is_space x \<Longrightarrow> Fields s = [s]"
  by (simp add: Fields_def split_by_none)

subsection \<open>Package \<open>net\<close>\<close>

text \<open>\<open>SplitHostPort\<close> as \<open>(host, port)\<close>, None for its errors: a missing port, a missing or stray bracket, too many colons.\<close>

definition SplitHostPort :: "string \<Rightarrow> (string \<times> string) option" where
  "SplitHostPort hostport =
     (let i = LastIndex hostport (CHR '':'') in
      if i < 0 then None
      else let port = drop (nat i + 1) hostport in
           if hd hostport = CHR ''['' then
             (let end = IndexByte hostport (CHR '']'') in
              if end < 0 \<or> end + 1 \<noteq> i then None
              else if CHR ''['' \<in> set (drop 1 hostport) \<or> CHR '']'' \<in> set (drop (nat end + 1) hostport) then None
              else Some (drop 1 (take (nat end) hostport), port))
           else let host = take (nat i) hostport in
                if CHR '':'' \<in> set host \<or> CHR ''['' \<in> set hostport \<or> CHR '']'' \<in> set hostport then None
                else Some (host, port))"

lemmas [go_eval] = SplitHostPort_def

lemma SplitHostPort_plain:
  "set host \<inter> {CHR '':'', CHR ''['', CHR '']''} = {} \<Longrightarrow> set port \<inter> {CHR '':'', CHR ''['', CHR '']''} = {} \<Longrightarrow>
   SplitHostPort (host @ '':'' @ port) = Some (host, port)"
proof -
  assume h: "set host \<inter> {CHR '':'', CHR ''['', CHR '']''} = {}" and p: "set port \<inter> {CHR '':'', CHR ''['', CHR '']''} = {}"
  have i: "LastIndex (host @ CHR '':'' # port) (CHR '':'') = int (length host)" using p by (intro LastIndex_append) simp
  have "hd (host @ CHR '':'' # port) \<noteq> CHR ''[''" using h by (cases host) auto
  with i h p show ?thesis by (auto simp: SplitHostPort_def Let_def)
qed

subsection \<open>Package \<open>strconv\<close>\<close>

definition digits_value :: "string \<Rightarrow> nat" where
  "digits_value s = foldl (\<lambda>a c. 10 * a + (byte c - 48)) 0 s"

text \<open>
  \<open>Atoi\<close> reads an optional sign and decimal digits; a value outside the 64-bit range is an error, as
  is an empty or malformed number.
\<close>

definition Atoi :: "string \<Rightarrow> int option" where
  "Atoi s =
     (let neg = (s \<noteq> [] \<and> hd s = CHR ''-'');
          ds = (if s \<noteq> [] \<and> (hd s = CHR ''-'' \<or> hd s = CHR ''+'') then tl s else s)
      in if ds = [] \<or> \<not> list_all is_digit ds then None
         else let v = (if neg then - int (digits_value ds) else int (digits_value ds))
              in if is_int64 v then Some v else None)"

text \<open>\<open>Itoa\<close> is the decimal output of \<open>%d\<close>.\<close>

fun nat_digits :: "nat \<Rightarrow> string" where
  "nat_digits n = (if n < 10 then [digit_char n] else nat_digits (n div 10) @ [digit_char (n mod 10)])"

declare nat_digits.simps [simp del]

definition Itoa :: "int \<Rightarrow> string" where
  "Itoa i = (if i < 0 then CHR ''-'' # nat_digits (nat (- i)) else nat_digits (nat i))"

lemmas [go_eval] = Atoi_def digits_value_def Itoa_def nat_digits.simps

lemma nat_digits_not_Nil [simp]: "nat_digits n \<noteq> []"
  by (subst nat_digits.simps) simp

lemma nat_digits_digits: "list_all is_digit (nat_digits n)"
proof (induction n rule: nat_digits.induct)
  case (1 n)
  then show ?case by (subst nat_digits.simps) (simp add: is_digit_digit_char)
qed

lemma nat_digits_is_digit: "c \<in> set (nat_digits n) \<Longrightarrow> is_digit c"
  using nat_digits_digits [of n] by (simp add: list_all_iff)

lemma digits_value_snoc: "digits_value (s @ [c]) = 10 * digits_value s + (byte c - 48)"
  by (simp add: digits_value_def)

lemma digits_value_nat_digits: "digits_value (nat_digits n) = n"
proof (induction n rule: nat_digits.induct)
  case (1 n)
  show ?case
  proof (cases "n < 10")
    case True
    then show ?thesis
      by (subst nat_digits.simps) (simp add: digits_value_def byte_digit_char)
  next
    case False
    with 1 have "digits_value (nat_digits (n div 10)) = n div 10" by simp
    with False show ?thesis
      by (subst nat_digits.simps) (simp add: digits_value_snoc byte_digit_char)
  qed
qed

lemma nat_digits_inj [simp]: "nat_digits m = nat_digits n \<longleftrightarrow> m = n"
  by (metis digits_value_nat_digits)

lemma hd_nat_digits: "is_digit (hd (nat_digits n))"
  by (rule nat_digits_is_digit [of _ n]) simp

lemma not_digit_sign: "\<not> is_digit (CHR ''-'')" "\<not> is_digit (CHR ''+'')"
  "\<not> is_digit (CHR ''/'')" "\<not> is_digit (CHR '':'')"
  by (simp_all add: is_digit_def)

lemma Atoi_Itoa: "is_int64 i \<Longrightarrow> Atoi (Itoa i) = Some i"
proof -
  have "hd (nat_digits n) \<noteq> CHR ''-''" "hd (nat_digits n) \<noteq> CHR ''+''" for n
    using hd_nat_digits [of n] not_digit_sign by metis+
  then show "is_int64 i \<Longrightarrow> Atoi (Itoa i) = Some i"
    by (simp add: Atoi_def Itoa_def nat_digits_digits digits_value_nat_digits)
qed

lemma Itoa_inj [simp]: "Itoa i = Itoa j \<longleftrightarrow> i = j"
proof
  have neq: "CHR ''-'' # nat_digits m \<noteq> nat_digits n" for m n
    using hd_nat_digits [of n] not_digit_sign by (metis list.sel(1))
  assume "Itoa i = Itoa j"
  then show "i = j"
    using neq neq [symmetric] by (auto simp: Itoa_def split: if_splits)
qed simp

lemma Itoa_chars: "c \<in> set (Itoa i) \<Longrightarrow> is_digit c \<or> c = CHR ''-''"
  by (auto simp: Itoa_def nat_digits_is_digit split: if_splits)

lemma Atoi_range: "Atoi s = Some v \<Longrightarrow> is_int64 v"
  by (auto simp: Atoi_def Let_def split: if_splits)

subsection \<open>Go maps\<close>

type_synonym ('k, 'v) gomap = "('k \<times> 'v) list"

abbreviation gomap_ok :: "('k, 'v) gomap \<Rightarrow> bool" where
  "gomap_ok m \<equiv> distinct (map fst m)"

abbreviation keys :: "('k, 'v) gomap \<Rightarrow> 'k set" where
  "keys m \<equiv> set (map fst m)"

text \<open>The value type of a missing key is its zero value: a nil map entry reads as \<open>dflt\<close>.\<close>

definition get_or :: "'v \<Rightarrow> ('k, 'v) gomap \<Rightarrow> 'k \<Rightarrow> 'v" where
  "get_or dflt m k = (case map_of m k of None \<Rightarrow> dflt | Some v \<Rightarrow> v)"

lemmas [go_map] =
  update_conv' delete_conv' dom_map_of_conv_image_fst

lemma keys_update [go_map]: "keys (AList.update k v m) = insert k (keys m)"
  by (simp add: dom_update)

lemma keys_delete [go_map]: "keys (AList.delete k m) = keys m - {k}"
  by (auto simp: delete_keys simp flip: set_map)

lemma gomap_ok_update [go_map, simp]: "gomap_ok m \<Longrightarrow> gomap_ok (AList.update k v m)"
  by (simp add: distinct_update)

lemma gomap_ok_delete [go_map, simp]: "gomap_ok m \<Longrightarrow> gomap_ok (AList.delete k m)"
  by (simp add: distinct_delete)

lemma map_of_filter_keys: "map_of (filter (\<lambda>(k, v). P k) m) k = (if P k then map_of m k else None)"
  by (induction m) auto

lemma gomap_in_set: "gomap_ok m \<Longrightarrow> map_of m k = Some v \<longleftrightarrow> (k, v) \<in> set m"
  by (simp add: map_of_eq_Some_iff)

text \<open>Two lists of the same map, in different orders, have the same look-ups.\<close>

lemma map_of_perm: "gomap_ok m \<Longrightarrow> mset m = mset m' \<Longrightarrow> map_of m = map_of m'"
proof -
  assume ok: "gomap_ok m" and eq: "mset m = mset m'"
  from eq have "mset (map fst m) = mset (map fst m')" by simp
  with ok have "gomap_ok m'" using mset_eq_imp_distinct_iff by blast
  moreover from eq have "set m = set m'" by (rule mset_eq_setD)
  ultimately show "map_of m = map_of m'" using ok by (simp add: map_of_inject_set)
qed

subsection \<open>First best element of a list\<close>

text \<open>
  Both route tables scan their routes for the best one. The contract of such a scan: the result is a
  candidate, every earlier candidate ranks lower, and no later one ranks higher; without a
  candidate there is no result.
\<close>

definition first_best :: "('a \<Rightarrow> bool) \<Rightarrow> ('a \<Rightarrow> 'r::linorder) \<Rightarrow> 'a list \<Rightarrow> 'a option \<Rightarrow> bool" where
  "first_best cand rank xs res \<longleftrightarrow>
     (case res of
        None \<Rightarrow> (\<forall>x \<in> set xs. \<not> cand x)
      | Some r \<Rightarrow> (\<exists>us vs. xs = us @ r # vs \<and> cand r \<and>
                    (\<forall>u \<in> set us. cand u \<longrightarrow> rank u < rank r) \<and>
                    (\<forall>v \<in> set vs. cand v \<longrightarrow> rank v \<le> rank r)))"

definition keep_best :: "('a \<Rightarrow> bool) \<Rightarrow> ('a \<Rightarrow> 'r::linorder) \<Rightarrow> 'a option \<Rightarrow> 'a \<Rightarrow> 'a option" where
  "keep_best cand rank acc x =
     (if cand x \<and> (case acc of None \<Rightarrow> True | Some b \<Rightarrow> rank b < rank x) then Some x else acc)"

lemma first_best_Nil [simp]: "first_best cand rank [] res \<longleftrightarrow> res = None"
  by (auto simp: first_best_def split: option.splits)

lemma first_bestI:
  "xs = us @ r # vs \<Longrightarrow> cand r \<Longrightarrow> \<forall>u \<in> set us. cand u \<longrightarrow> rank u < rank r \<Longrightarrow>
   \<forall>v \<in> set vs. cand v \<longrightarrow> rank v \<le> rank r \<Longrightarrow> first_best cand rank xs (Some r)"
  by (auto simp: first_best_def)

lemma first_best_snoc:
  assumes "first_best cand rank xs acc"
  shows "first_best cand rank (xs @ [x]) (keep_best cand rank acc x)"
proof (cases acc)
  case None
  with assms show ?thesis
    by (cases "cand x") (force simp: first_best_def keep_best_def)+
next
  case (Some b)
  with assms obtain us vs where xs: "xs = us @ b # vs" "cand b"
    "\<forall>u \<in> set us. cand u \<longrightarrow> rank u < rank b" "\<forall>v \<in> set vs. cand v \<longrightarrow> rank v \<le> rank b"
    by (auto simp: first_best_def)
  show ?thesis
  proof (cases "cand x \<and> rank b < rank x")
    case True
    then have "\<forall>u \<in> set xs. cand u \<longrightarrow> rank u < rank x"
      using xs by auto
    with True Some show ?thesis
      by (simp add: keep_best_def first_bestI [of _ xs x "[]"])
  next
    case False
    then have "first_best cand rank (xs @ [x]) (Some b)"
      using xs by (intro first_bestI [of _ us b "vs @ [x]"]) auto
    moreover have "keep_best cand rank acc x = Some b"
      using False Some by (auto simp: keep_best_def)
    ultimately show ?thesis by simp
  qed
qed

lemma first_best_foldl: "first_best cand rank xs (foldl (keep_best cand rank) None xs)"
  by (induction xs rule: rev_induct) (simp_all add: first_best_snoc)

lemma first_best_in_set: "first_best cand rank xs (Some r) \<Longrightarrow> r \<in> set xs \<and> cand r"
  by (auto simp: first_best_def)

lemma first_best_max: "first_best cand rank xs (Some r) \<Longrightarrow> x \<in> set xs \<Longrightarrow> cand x \<Longrightarrow> rank x \<le> rank r"
  by (fastforce simp: first_best_def dest: less_imp_le)

text \<open>The contract determines the result.\<close>

lemma first_best_unique:
  assumes "first_best cand rank xs a" and "first_best cand rank xs b"
  shows "a = b"
proof (cases "\<exists>x \<in> set xs. cand x")
  case False
  with assms show ?thesis
    by (cases a; cases b) (auto simp: first_best_def)
next
  case True
  with assms obtain r s where rs: "a = Some r" "b = Some s"
    by (cases a; cases b) (auto simp: first_best_def)
  from assms(1) rs obtain us vs where r: "xs = us @ r # vs" "cand r"
    "\<forall>u \<in> set us. cand u \<longrightarrow> rank u < rank r" by (auto simp: first_best_def)
  from assms(2) rs obtain us' vs' where s: "xs = us' @ s # vs'" "cand s"
    "\<forall>u \<in> set us'. cand u \<longrightarrow> rank u < rank s" by (auto simp: first_best_def)
  have "r \<in> set xs" "s \<in> set xs" using r(1) s(1) by (metis in_set_conv_decomp)+
  then have eq: "rank r = rank s"
    using first_best_max [OF assms(1) [unfolded rs]] first_best_max [OF assms(2) [unfolded rs]] r(2) s(2)
    by (intro antisym) auto
  from r(1) s(1) have "us @ r # vs = us' @ s # vs'" by simp
  then have "r = s \<or> r \<in> set us' \<or> s \<in> set us"
    by (auto simp: append_eq_append_conv2 Cons_eq_append_conv append_eq_Cons_conv)
  moreover have "r \<notin> set us'" using s(3) r(2) eq by force
  moreover have "s \<notin> set us" using r(3) s(2) eq by force
  ultimately show ?thesis using rs by simp
qed

subsection \<open>Step relations that settle\<close>

text \<open>
  The interface of a loop or of a group of goroutines: as long as it is not settled some step is possible, and every step
  lowers a rank, in the states of an invariant.
\<close>

locale settling =
  fixes step :: "'s \<Rightarrow> 's \<Rightarrow> bool" and settled :: "'s \<Rightarrow> bool" and rank :: "'s \<Rightarrow> nat" and inv :: "'s \<Rightarrow> bool"
  assumes inv_step: "inv s \<Longrightarrow> step s s' \<Longrightarrow> inv s'"
    and rank_step: "inv s \<Longrightarrow> step s s' \<Longrightarrow> rank s' < rank s"
    and progress: "inv s \<Longrightarrow> \<not> settled s \<Longrightarrow> \<exists>s'. step s s'"
begin

lemma inv_run: "step\<^sup>*\<^sup>* s s' \<Longrightarrow> inv s \<Longrightarrow> inv s'"
  by (induction rule: rtranclp_induct) (auto intro: inv_step)

text \<open>A run from a state has at most as many steps as its rank.\<close>

lemma bounded: "(step ^^ n) s s' \<Longrightarrow> inv s \<Longrightarrow> inv s' \<and> n + rank s' \<le> rank s"
proof (induction n arbitrary: s')
  case (Suc n)
  from Suc.prems(1) obtain t where t: "(step ^^ n) s t" "step t s'" by auto
  from Suc.IH [OF t(1) Suc.prems(2)] inv_step [OF _ t(2)] rank_step [OF _ t(2)] show ?case by fastforce
qed simp

lemma settles: "inv s \<Longrightarrow> \<exists>s'. step\<^sup>*\<^sup>* s s' \<and> settled s'"
proof (induction "rank s" arbitrary: s rule: less_induct)
  case less
  show ?case
  proof (cases "settled s")
    case False
    then obtain t where t: "step s t" using progress less.prems by blast
    from less.hyps [OF rank_step [OF less.prems t] inv_step [OF less.prems t]] t show ?thesis
      by (meson converse_rtranclp_into_rtranclp)
  qed blast
qed

text \<open>Whatever the order of the steps, a run that cannot go on has settled.\<close>

lemma ends_settled: "step\<^sup>*\<^sup>* s s' \<Longrightarrow> inv s \<Longrightarrow> \<nexists>t. step s' t \<Longrightarrow> settled s'"
  using inv_run progress by blast

lemma terminates: "wfp (\<lambda>s' s. inv s \<and> step s s')"
proof -
  have "wf {(s', s). inv s \<and> step s s'}"
    by (rule wf_subset [OF wf_measure [of rank]]) (auto dest: rank_step)
  then show ?thesis by (simp add: wfp_def)
qed

end

end
