(* ===== verification/Status_Match.thy ===== *)
theory Status_Match
  imports Go_Prelude
begin

text \<open>
  \<open>status_match.go\<close>: the comma separated specifications of HTTP status codes (\<open>3xx,404\<close>) that
  \<open>no_cache_status\<close> and \<open>caddy-no-cache-status\<close> carry. The parser is related to a declarative
  reading of each token: what the compiled matcher accepts is exactly what some token names.
\<close>

subsection \<open>Model\<close>

record StatusMatcher =
  sm_classes :: "bool list"
  sm_codes :: "(int, bool) gomap"

datatype status_error =
    InvalidStatusClass string
  | InvalidStatusCode string
  | StatusCodeOutOfRange int

definition empty_matcher :: StatusMatcher where
  "empty_matcher = \<lparr>sm_classes = replicate 6 False, sm_codes = []\<rparr>"

text \<open>The class digit \<open>lower[0] - '0'\<close> is a byte subtraction, so it wraps modulo 256.\<close>

definition class_digit :: "char \<Rightarrow> nat" where
  "class_digit c = (byte c + 256 - 48) mod 256"

text \<open>One round of the token loop.\<close>

definition status_token :: "StatusMatcher \<Rightarrow> string \<Rightarrow> status_error + StatusMatcher" where
  "status_token sm tok =
     (let token = TrimSpace tok; lower = ToLower token in
      if token = [] then Inr sm
      else if length lower = 3 \<and> lower ! 1 = CHR ''x'' \<and> lower ! 2 = CHR ''x'' then
        (let digit = class_digit (lower ! 0) in
         if digit < 1 \<or> digit > 5 then Inl (InvalidStatusClass token)
         else Inr (sm\<lparr>sm_classes := (sm_classes sm)[digit := True]\<rparr>))
      else (case Atoi token of
              None \<Rightarrow> Inl (InvalidStatusCode token)
            | Some code \<Rightarrow>
                if code < 100 \<or> code > 599 then Inl (StatusCodeOutOfRange code)
                else Inr (sm\<lparr>sm_codes := AList.update code True (sm_codes sm)\<rparr>)))"

fun status_tokens :: "StatusMatcher \<Rightarrow> string list \<Rightarrow> status_error + StatusMatcher" where
  "status_tokens sm [] = Inr sm"
| "status_tokens sm (t # ts) =
     (case status_token sm t of Inl e \<Rightarrow> Inl e | Inr sm' \<Rightarrow> status_tokens sm' ts)"

definition ParseStatusMatcher :: "string \<Rightarrow> status_error + StatusMatcher option" where
  "ParseStatusMatcher spec =
     (let s = TrimSpace spec in
      if s = [] then Inr None
      else (case status_tokens empty_matcher (Split s (CHR '','')) of
              Inl e \<Rightarrow> Inl e
            | Inr sm \<Rightarrow> Inr (Some sm)))"

definition Matches :: "StatusMatcher option \<Rightarrow> int \<Rightarrow> bool" where
  "Matches m statusCode =
     (case m of
        None \<Rightarrow> False
      | Some sm \<Rightarrow>
          (let cls = quot statusCode 100 in
           if 1 \<le> cls \<and> cls \<le> 5 \<and> sm_classes sm ! nat cls then True
           else get_or False (sm_codes sm) statusCode))"

lemmas [go_eval] = class_digit_def empty_matcher_def status_token_def ParseStatusMatcher_def Matches_def

subsection \<open>Declarative reading of a token\<close>

definition class_token :: "string \<Rightarrow> nat \<Rightarrow> bool" where
  "class_token t d \<longleftrightarrow> 1 \<le> d \<and> d \<le> 5 \<and> ToLower t = [digit_char d, CHR ''x'', CHR ''x'']"

definition token_names :: "string \<Rightarrow> int \<Rightarrow> bool" where
  "token_names t c \<longleftrightarrow>
     (\<exists>d. class_token t d \<and> c div 100 = int d) \<or> (Atoi t = Some c \<and> 100 \<le> c \<and> c \<le> 599)"

definition token_valid :: "string \<Rightarrow> bool" where
  "token_valid t \<longleftrightarrow> t = [] \<or> (\<exists>c. token_names t c)"

definition matcher_ok :: "StatusMatcher \<Rightarrow> bool" where
  "matcher_ok sm \<longleftrightarrow>
     length (sm_classes sm) = 6 \<and> (\<forall>e \<in> set (sm_codes sm). snd e \<and> 100 \<le> fst e \<and> fst e \<le> 599)"

subsection \<open>The parser implements the reading\<close>

lemma matcher_ok_empty: "matcher_ok empty_matcher"
  by (simp add: matcher_ok_def empty_matcher_def)

lemma matcher_ok_class: "matcher_ok sm \<Longrightarrow> matcher_ok (sm\<lparr>sm_classes := (sm_classes sm)[d := True]\<rparr>)"
  by (simp add: matcher_ok_def)

lemma class_shape: "length l = 3 \<and> l ! 1 = a \<and> l ! 2 = b \<longleftrightarrow> (\<exists>x. l = [x, a, b])"
  by (cases l; cases "tl l"; cases "tl (tl l)") (auto simp: numeral_eq_Suc)

lemma class_digit_value [simp]: "d \<le> 5 \<Longrightarrow> class_digit (digit_char d) = d"
  by (simp add: class_digit_def byte_digit_char)

lemma class_digit_iff:
  "1 \<le> class_digit x \<and> class_digit x \<le> 5 \<longleftrightarrow> (\<exists>d. 1 \<le> d \<and> d \<le> 5 \<and> x = digit_char d)"
proof
  assume d: "1 \<le> class_digit x \<and> class_digit x \<le> 5"
  have b: "byte x < 256" by simp
  have hi: "48 \<le> byte x"
  proof (rule ccontr)
    assume "\<not> 48 \<le> byte x"
    then have "class_digit x = byte x + 208" by (simp add: class_digit_def)
    with d show False by simp
  qed
  then have "class_digit x = (byte x - 48 + 256) mod 256" by (simp add: class_digit_def)
  also have "\<dots> = byte x - 48" using b by (simp only: mod_add_self2 mod_less less_imp_diff_less)
  finally have "class_digit x = byte x - 48" .
  with hi have "byte x = 48 + class_digit x" by simp
  then have "x = digit_char (class_digit x)"
    by (metis char_of_char digit_char_def)
  with d show "\<exists>d. 1 \<le> d \<and> d \<le> 5 \<and> x = digit_char d" by blast
qed auto

lemma x_not_atoi: "ToLower t = [x, CHR ''x'', CHR ''x''] \<Longrightarrow> Atoi t = None"
proof -
  assume t: "ToLower t = [x, CHR ''x'', CHR ''x'']"
  then obtain a b c where abc: "t = [a, b, c]" and "lower_char c = CHR ''x''"
    by (auto simp: ToLower_def)
  then have "\<not> is_digit c" by (auto simp: is_digit_def lower_char_def)
  with abc show ?thesis by (simp add: Atoi_def)
qed

lemma update_entry: "e \<in> set (AList.update k' v' m) \<Longrightarrow> e = (k', v') \<or> e \<in> set m"
  by (induction m) (auto split: if_splits)

lemma matcher_ok_code:
  "matcher_ok sm \<Longrightarrow> 100 \<le> c \<Longrightarrow> c \<le> 599 \<Longrightarrow>
   matcher_ok (sm\<lparr>sm_codes := AList.update c True (sm_codes sm)\<rparr>)"
  by (fastforce simp: matcher_ok_def dest!: update_entry)

lemma quot_class: "1 \<le> k \<Longrightarrow> quot c 100 = k \<longleftrightarrow> c div 100 = k"
proof (cases "0 \<le> c")
  case True
  then show ?thesis by (simp add: quot_nonneg)
next
  case False
  then have "quot c 100 \<le> 0" "c div 100 < 0" by (simp_all add: quot_def div_neg_pos_less0)
  then show "1 \<le> k \<Longrightarrow> ?thesis" by linarith
qed

lemma Matches_iff:
  "Matches (Some sm) c \<longleftrightarrow>
     (\<exists>d. 1 \<le> d \<and> d \<le> 5 \<and> sm_classes sm ! d \<and> c div 100 = int d) \<or> map_of (sm_codes sm) c = Some True"
proof -
  have "(1 \<le> quot c 100 \<and> quot c 100 \<le> 5 \<and> sm_classes sm ! nat (quot c 100)) \<longleftrightarrow>
        (\<exists>d. 1 \<le> d \<and> d \<le> 5 \<and> sm_classes sm ! d \<and> c div 100 = int d)" (is "?l = ?r")
  proof
    assume l: ?l
    then have "c div 100 = quot c 100" using quot_class [of "quot c 100" c] by simp
    with l show ?r by (intro exI [of _ "nat (quot c 100)"]) auto
  next
    assume ?r
    then obtain d where d: "1 \<le> d" "d \<le> 5" "sm_classes sm ! d" "c div 100 = int d" by blast
    then have "quot c 100 = int d" using quot_class [of "int d" c] by simp
    with d show ?l by simp
  qed
  then show ?thesis
    by (auto simp: Matches_def Let_def get_or_def split: option.splits)
qed

lemma token_class_iff:
  "ToLower t = [x, CHR ''x'', CHR ''x''] \<Longrightarrow>
   token_names t c \<longleftrightarrow> (\<exists>d. 1 \<le> d \<and> d \<le> 5 \<and> x = digit_char d \<and> c div 100 = int d)"
  by (auto simp: token_names_def class_token_def x_not_atoi)

lemma token_code_iff:
  "\<nexists>x. ToLower t = [x, CHR ''x'', CHR ''x''] \<Longrightarrow>
   token_names t c \<longleftrightarrow> Atoi t = Some c \<and> 100 \<le> c \<and> c \<le> 599"
  by (auto simp: token_names_def class_token_def)

lemma digit_char_inj: "d \<le> 5 \<Longrightarrow> e \<le> 5 \<Longrightarrow> digit_char d = digit_char e \<longleftrightarrow> d = e"
  by (metis class_digit_value)

lemma nth_update_class:
  "length cl = 6 \<Longrightarrow> d \<le> 5 \<Longrightarrow> e \<le> 5 \<Longrightarrow> cl[d := True] ! e \<longleftrightarrow> cl ! e \<or> d = e"
  by (auto simp: nth_list_update)

lemma status_token_class:
  assumes "matcher_ok sm" and "1 \<le> d" "d \<le> 5" and "ToLower (TrimSpace t) = [digit_char d, CHR ''x'', CHR ''x'']"
  shows "status_token sm t = Inr (sm\<lparr>sm_classes := (sm_classes sm)[d := True]\<rparr>)"
    and "Matches (Some (sm\<lparr>sm_classes := (sm_classes sm)[d := True]\<rparr>)) c \<longleftrightarrow>
         Matches (Some sm) c \<or> c div 100 = int d"
proof -
  have "TrimSpace t \<noteq> []" using assms(4) by auto
  then show "status_token sm t = Inr (sm\<lparr>sm_classes := (sm_classes sm)[d := True]\<rparr>)"
    using assms by (simp add: status_token_def Let_def)
  show "Matches (Some (sm\<lparr>sm_classes := (sm_classes sm)[d := True]\<rparr>)) c \<longleftrightarrow>
        Matches (Some sm) c \<or> c div 100 = int d"
    using assms(1-3) by (auto simp: Matches_iff matcher_ok_def nth_update_class)
qed

lemma status_token_not_class:
  assumes "TrimSpace t \<noteq> []" and "\<nexists>x. ToLower (TrimSpace t) = [x, CHR ''x'', CHR ''x'']"
  shows "status_token sm t =
    (case Atoi (TrimSpace t) of
       None \<Rightarrow> Inl (InvalidStatusCode (TrimSpace t))
     | Some code \<Rightarrow>
         if code < 100 \<or> code > 599 then Inl (StatusCodeOutOfRange code)
         else Inr (sm\<lparr>sm_codes := AList.update code True (sm_codes sm)\<rparr>))"
proof -
  let ?l = "ToLower (TrimSpace t)"
  have "\<not> (length ?l = 3 \<and> ?l ! 1 = CHR ''x'' \<and> ?l ! 2 = CHR ''x'')"
    unfolding class_shape by (rule assms(2))
  then show ?thesis
    unfolding status_token_def Let_def by (simp only: assms(1) if_False simp_thms)
qed

lemma status_token_bad_class:
  assumes "ToLower (TrimSpace t) = [x, CHR ''x'', CHR ''x'']" and "\<nexists>d. 1 \<le> d \<and> d \<le> 5 \<and> x = digit_char d"
  shows "status_token sm t = Inl (InvalidStatusClass (TrimSpace t))"
proof -
  have "TrimSpace t \<noteq> []" using assms(1) by auto
  moreover have "\<not> (1 \<le> class_digit x \<and> class_digit x \<le> 5)"
    using assms(2) by (simp only: class_digit_iff not_False_eq_True)
  ultimately show ?thesis
    using assms(1) by (auto simp: status_token_def Let_def)
qed

text \<open>One token: it is rejected exactly when it is not valid, and otherwise adds what it names.\<close>

lemma status_token_correct:
  assumes ok: "matcher_ok sm"
  shows "(\<exists>e. status_token sm t = Inl e) \<longleftrightarrow> \<not> token_valid (TrimSpace t)"
    and "status_token sm t = Inr sm' \<Longrightarrow>
         matcher_ok sm' \<and> (Matches (Some sm') c \<longleftrightarrow> Matches (Some sm) c \<or> token_names (TrimSpace t) c)"
proof -
  let ?t = "TrimSpace t"
  consider (empty) "?t = []"
    | (cls) d where "1 \<le> d" "d \<le> 5" "ToLower ?t = [digit_char d, CHR ''x'', CHR ''x'']"
    | (bad) x where "ToLower ?t = [x, CHR ''x'', CHR ''x'']" "\<nexists>d. 1 \<le> d \<and> d \<le> 5 \<and> x = digit_char d"
    | (code) "?t \<noteq> []" "\<nexists>x. ToLower ?t = [x, CHR ''x'', CHR ''x'']"
    by blast
  then have "((\<exists>e. status_token sm t = Inl e) \<longleftrightarrow> \<not> token_valid ?t) \<and>
    (status_token sm t = Inr sm' \<longrightarrow>
       matcher_ok sm' \<and> (Matches (Some sm') c \<longleftrightarrow> Matches (Some sm) c \<or> token_names ?t c))"
  proof cases
    case empty
    then have "status_token sm t = Inr sm" and "\<not> token_names ?t c"
      by (simp_all add: status_token_def token_names_def class_token_def Atoi_def)
    with empty ok show ?thesis by (auto simp: token_valid_def)
  next
    case (cls d)
    then have "token_names ?t x \<longleftrightarrow> x div 100 = int d" for x
      using digit_char_inj by (auto simp: token_class_iff [OF cls(3)])
    moreover from this [of "int d * 100"] have "token_valid ?t"
      by (auto simp: token_valid_def)
    ultimately show ?thesis
      using status_token_class [OF ok cls] matcher_ok_class [OF ok] by auto
  next
    case (bad x)
    then show ?thesis
      by (auto simp: status_token_bad_class token_valid_def token_class_iff)
  next
    case code
    show ?thesis
      using ok code status_token_not_class [OF code, of sm] token_code_iff [OF code(2)]
      by (auto simp: token_valid_def Matches_iff update_conv' intro: matcher_ok_code
          split: option.splits if_splits)
  qed
  then show "(\<exists>e. status_token sm t = Inl e) \<longleftrightarrow> \<not> token_valid ?t"
    and "status_token sm t = Inr sm' \<Longrightarrow>
         matcher_ok sm' \<and> (Matches (Some sm') c \<longleftrightarrow> Matches (Some sm) c \<or> token_names ?t c)"
    by blast+
qed

lemma status_tokens_correct:
  assumes "matcher_ok sm"
  shows "(\<exists>e. status_tokens sm ts = Inl e) \<longleftrightarrow> (\<exists>t \<in> set ts. \<not> token_valid (TrimSpace t))"
    and "status_tokens sm ts = Inr sm' \<Longrightarrow>
         matcher_ok sm' \<and>
         (Matches (Some sm') c \<longleftrightarrow> Matches (Some sm) c \<or> (\<exists>t \<in> set ts. token_names (TrimSpace t) c))"
  using assms
proof (induction ts arbitrary: sm)
  case (Cons t ts)
  {
    case 1
    show ?case
    proof (cases "status_token sm t")
      case (Inl e)
      with status_token_correct(1) [OF 1, of t] show ?thesis by auto
    next
      case (Inr sm1)
      with status_token_correct [OF 1, of t] have "matcher_ok sm1" "token_valid (TrimSpace t)" by auto
      with Inr Cons.IH(1) show ?thesis by auto
    qed
  next
    case 2
    then obtain sm1 where sm1: "status_token sm t = Inr sm1" "status_tokens sm1 ts = Inr sm'"
      by (auto split: sum.splits)
    with status_token_correct(2) [OF 2(2), of t sm1] have "matcher_ok sm1"
      and "Matches (Some sm1) c \<longleftrightarrow> Matches (Some sm) c \<or> token_names (TrimSpace t) c" by auto
    with Cons.IH(2) [OF sm1(2)] show ?case by auto
  }
qed simp_all

lemma Matches_None [simp]: "\<not> Matches None c"
  by (simp add: Matches_def)

lemma Matches_empty: "\<not> Matches (Some empty_matcher) c"
  by (auto simp: Matches_iff empty_matcher_def nth_Cons' numeral_eq_Suc)

definition spec_tokens :: "string \<Rightarrow> string list" where
  "spec_tokens spec = map TrimSpace (Split (TrimSpace spec) (CHR '',''))"

lemma ParseStatusMatcher_result:
  assumes "ParseStatusMatcher spec = Inr m"
  shows "(m = None \<longleftrightarrow> TrimSpace spec = []) \<and> (case m of None \<Rightarrow> True | Some sm \<Rightarrow> matcher_ok sm) \<and>
         (Matches m c \<longleftrightarrow> TrimSpace spec \<noteq> [] \<and> (\<exists>t \<in> set (spec_tokens spec). token_names t c))"
  using assms status_tokens_correct(2) [OF matcher_ok_empty, of "Split (TrimSpace spec) (CHR '','')" _ c]
  by (auto simp: ParseStatusMatcher_def Let_def spec_tokens_def Matches_empty split: if_splits sum.splits)

lemma ParseStatusMatcher_fails:
  "(\<exists>e. ParseStatusMatcher spec = Inl e) \<longleftrightarrow>
   TrimSpace spec \<noteq> [] \<and> (\<exists>t \<in> set (spec_tokens spec). \<not> token_valid t)"
  using status_tokens_correct(1) [OF matcher_ok_empty, of "Split (TrimSpace spec) (CHR '','')"]
  by (auto simp: ParseStatusMatcher_def Let_def spec_tokens_def split: if_splits sum.splits)

lemma Matches_range:
  assumes "ParseStatusMatcher spec = Inr m" and "Matches m c"
  shows "100 \<le> c \<and> c \<le> 599"
proof -
  from ParseStatusMatcher_result [OF assms(1), of c] assms(2)
  obtain t where "token_names t c" by blast
  then show ?thesis by (auto simp: token_names_def class_token_def)
qed

subsection \<open>Properties\<close>

text \<open>C32: A status specification is rejected exactly when it is not blank and one of its comma separated
  tokens is neither blank, nor a class \<open>1xx\<close> to \<open>5xx\<close>, nor a number from 100 to 599. When it is
  accepted, the resulting matcher accepts exactly the codes that some token names, the codes are all
  between 100 and 599, and the matcher is nil exactly for a blank specification.\<close>

theorem ParseStatusMatcher_correct:
  "((\<exists>e. ParseStatusMatcher spec = Inl e) \<longleftrightarrow>
      TrimSpace spec \<noteq> [] \<and> (\<exists>t \<in> set (spec_tokens spec). \<not> token_valid t)) \<and>
   (ParseStatusMatcher spec = Inr m \<longrightarrow>
      (m = None \<longleftrightarrow> TrimSpace spec = []) \<and>
      (Matches m c \<longleftrightarrow> TrimSpace spec \<noteq> [] \<and> (\<exists>t \<in> set (spec_tokens spec). token_names t c)) \<and>
      (Matches m c \<longrightarrow> 100 \<le> c \<and> c \<le> 599))"
  using ParseStatusMatcher_fails ParseStatusMatcher_result Matches_range by blast

theorem ParseStatusMatcher_correct_witness:
  "ParseStatusMatcher ''3XX, 404'' = Inr (Some \<lparr>sm_classes = [False, False, False, True, False, False], sm_codes = [(404, True)]\<rparr>) \<and>
   (\<exists>t \<in> set (spec_tokens ''3XX, 404''). token_names t 302) \<and> \<not> (\<exists>t \<in> set (spec_tokens ''3XX, 404''). token_names t 200)"
proof -
  let ?m = "\<lparr>sm_classes = [False, False, False, True, False, False], sm_codes = [(404, True)]\<rparr>"
  have p: "ParseStatusMatcher ''3XX, 404'' = Inr (Some ?m)" by code_simp
  have "Matches (Some ?m) 302" "\<not> Matches (Some ?m) 200" by code_simp+
  with p ParseStatusMatcher_correct [of _ "Some ?m" 302] ParseStatusMatcher_correct [of _ "Some ?m" 200]
  show ?thesis by blast
qed

end
