(* ===== verification/Route_Types.thy ===== *)
theory Route_Types
  imports Status_Match
begin

text \<open>
  \<open>types.go\<close>: the data the components exchange. A struct is a record whose fields keep the Go names
  behind a prefix, an iota or a closed set of constants is a datatype. \<open>Protocol\<close> and
  \<open>UpstreamMode\<close> stay strings, since \<open>Protocol(v)\<close> converts any metadata value. A nil slice or map
  is the empty list: no code distinguishes the two (the JSON tags say \<open>omitempty\<close>).
\<close>

type_synonym Protocol = string

definition ProtocolHTTP :: Protocol where "ProtocolHTTP = ''http''"
definition ProtocolHTTPS :: Protocol where "ProtocolHTTPS = ''https''"
definition ProtocolTCP :: Protocol where "ProtocolTCP = ''tcp''"
definition ProtocolTLSPassthrough :: Protocol where "ProtocolTLSPassthrough = ''tls-passthrough''"

lemmas protocol_defs [go_eval] =
  ProtocolHTTP_def ProtocolHTTPS_def ProtocolTCP_def ProtocolTLSPassthrough_def

lemma protocols_distinct [simp]:
  "ProtocolHTTP \<noteq> ProtocolHTTPS" "ProtocolHTTP \<noteq> ProtocolTCP" "ProtocolHTTP \<noteq> ProtocolTLSPassthrough"
  "ProtocolHTTPS \<noteq> ProtocolHTTP" "ProtocolHTTPS \<noteq> ProtocolTCP" "ProtocolHTTPS \<noteq> ProtocolTLSPassthrough"
  "ProtocolTCP \<noteq> ProtocolHTTP" "ProtocolTCP \<noteq> ProtocolHTTPS" "ProtocolTCP \<noteq> ProtocolTLSPassthrough"
  "ProtocolTLSPassthrough \<noteq> ProtocolHTTP" "ProtocolTLSPassthrough \<noteq> ProtocolHTTPS"
  "ProtocolTLSPassthrough \<noteq> ProtocolTCP"
  by (simp_all add: protocol_defs)

type_synonym UpstreamMode = string

definition UpstreamDirect :: UpstreamMode where "UpstreamDirect = ''direct''"
definition UpstreamConnectSidecar :: UpstreamMode where "UpstreamConnectSidecar = ''connect-sidecar''"

definition IsConnect :: "UpstreamMode \<Rightarrow> bool" where
  "IsConnect m \<longleftrightarrow> m = UpstreamConnectSidecar"

lemmas upstream_mode_defs [go_eval] = UpstreamDirect_def UpstreamConnectSidecar_def IsConnect_def

datatype HealthPolicy = HealthPolicyPassing | HealthPolicyWarning | HealthPolicyAny

datatype ChangeType = ChangeAdded | ChangeUpdated | ChangeRemoved

datatype ConflictType =
    ConflictDuplicateHostPath
  | ConflictDuplicatePortSNI
  | ConflictConflictingTLS
  | ConflictStaticWins

record ServiceInstance =
  si_ID :: string
  si_Address :: string
  si_Port :: int
  si_Tags :: "string list"
  si_Meta :: "(string, string) gomap"
  si_Healthy :: bool
  si_Weight :: int
  si_NodeName :: string

record ServiceState =
  ss_Name :: string
  ss_Tags :: "string list"
  ss_Meta :: "(string, string) gomap"
  ss_Instances :: "ServiceInstance list"
  ss_LastIndex :: "64 word"

record ServiceChange =
  sc_Type :: ChangeType
  sc_Service :: ServiceState

record Upstream =
  up_Address :: string
  up_Weight :: int
  up_Healthy :: bool
  up_NodeName :: string

record RouteDefinition =
  rd_ServiceName :: string
  rd_Protocol :: Protocol
  rd_Host :: string
  rd_Path :: string
  rd_Port :: int
  rd_UpstreamMode :: UpstreamMode
  rd_Priority :: int
  rd_Weight :: int
  rd_StripPrefix :: bool
  rd_Enabled :: bool
  rd_Upstreams :: "Upstream list"
  rd_Via :: string
  rd_RedirectCode :: int
  rd_RedirectURL :: string
  rd_RedirectNoCache :: bool
  rd_NoCacheStatusRaw :: string
  rd_HasNoCacheStatus :: bool
  rd_TagValues :: "(string, string) gomap"

text \<open>The zero value of a \<open>RouteDefinition\<close> literal.\<close>

definition zero_route :: RouteDefinition where
  "zero_route =
     \<lparr>rd_ServiceName = [], rd_Protocol = [], rd_Host = [], rd_Path = [], rd_Port = 0,
      rd_UpstreamMode = [], rd_Priority = 0, rd_Weight = 0, rd_StripPrefix = False,
      rd_Enabled = False, rd_Upstreams = [], rd_Via = [], rd_RedirectCode = 0,
      rd_RedirectURL = [], rd_RedirectNoCache = False, rd_NoCacheStatusRaw = [],
      rd_HasNoCacheStatus = False, rd_TagValues = []\<rparr>"

definition IsRedirect :: "RouteDefinition \<Rightarrow> bool" where
  "IsRedirect rd \<longleftrightarrow> rd_RedirectCode rd > 0 \<and> rd_RedirectURL rd \<noteq> []"

lemmas [go_eval] = zero_route_def IsRedirect_def

record Conflict =
  cf_Type :: ConflictType
  cf_Winner :: RouteDefinition
  cf_Loser :: RouteDefinition
  cf_Reason :: string

record CompiledHTTPRoute =
  ch_Host :: string
  ch_Path :: string
  ch_Upstreams :: "Upstream list"
  ch_StripPrefix :: bool
  ch_ServiceName :: string
  ch_Via :: string
  ch_RedirectCode :: int
  ch_RedirectURL :: string
  ch_RedirectNoCache :: bool
  ch_NoCacheMatcher :: "StatusMatcher option"
  ch_NoCacheOptOut :: bool
  ch_TagValues :: "(string, string) gomap"

record CompiledTCPRoute =
  ct_Port :: int
  ct_SNI :: string
  ct_Upstreams :: "Upstream list"
  ct_Passthrough :: bool
  ct_ServiceName :: string

record CompiledConfig =
  cc_HTTPRoutes :: "CompiledHTTPRoute list"
  cc_TCPRoutes :: "CompiledTCPRoute list"
  cc_Conflicts :: "Conflict list"
  cc_Warnings :: "string list"

end
