(* ===== verification/Metadata.thy ===== *)
theory Metadata
  imports Route_Types
begin

text \<open>
  \<open>metadata.go\<close>: from the metadata and tags of a service's instances to route definitions. An
  instance speaks through indexed keys (\<open>caddy-route-N-*\<close>), else non-indexed keys (\<open>caddy-*\<close>), else
  Fabio tags (\<open>urlprefix-*\<close>); instances with identical routes share one route. Log lines are left
  out. A panic of the parser is a value \<open>Inl\<close>.
\<close>

subsection \<open>Keys and eligibility\<close>

text \<open>The regular expression \<open>^caddy-route-(\d+)-(.+)$\<close> and its two groups.\<close>

definition indexedKey :: "string \<Rightarrow> (string \<times> string) option" where
  "indexedKey k =
     (if HasPrefix k ''caddy-route-''
      then let r = drop 12 k; ds = takeWhile is_digit r; rest = dropWhile is_digit r
           in if ds \<noteq> [] \<and> rest \<noteq> [] \<and> hd rest = CHR ''-'' \<and> tl rest \<noteq> [] \<and> char_of (10::nat) \<notin> set (tl rest)
              then Some (ds, tl rest) else None
      else None)"

definition instanceHasTag :: "ServiceInstance \<Rightarrow> string \<Rightarrow> bool" where
  "instanceHasTag inst tag = (if tag = [] then False else list_ex (\<lambda>t. t = tag) (si_Tags inst))"

definition hasAnyCaddyMeta :: "(string, string) gomap \<Rightarrow> bool" where
  "hasAnyCaddyMeta meta = list_ex (\<lambda>(k, v). HasPrefix k ''caddy-'') meta"

definition hasAnyFabioTag :: "string list \<Rightarrow> bool" where
  "hasAnyFabioTag tags = list_ex (\<lambda>t. HasPrefix t ''urlprefix-'') tags"

definition hasNonIndexedMeta :: "(string, string) gomap \<Rightarrow> bool" where
  "hasNonIndexedMeta meta = list_ex (\<lambda>(k, v). HasPrefix k ''caddy-'' \<and> indexedKey k = None) meta"

text \<open>\<open>key=value\<close> tags; the first occurrence of a key wins.\<close>

fun parseTagValues_loop :: "(string, string) gomap \<Rightarrow> string list \<Rightarrow> (string, string) gomap" where
  "parseTagValues_loop values [] = values"
| "parseTagValues_loop values (t # ts) =
     (case Cut t (CHR ''='') of (k, v, ok) \<Rightarrow>
        if \<not> ok \<or> k = [] then parseTagValues_loop values ts
        else if map_of values k = None then parseTagValues_loop (AList.update k v values) ts
        else parseTagValues_loop values ts)"

definition parseTagValues :: "string list \<Rightarrow> (string, string) gomap" where
  "parseTagValues tags = parseTagValues_loop [] tags"

subsection \<open>Metadata keys\<close>

text \<open>\<open>if v, ok := m[k]; ok { ... }\<close>, and the same around \<open>strconv.Atoi\<close>.\<close>

definition with_key :: "(string, string) gomap \<Rightarrow> string \<Rightarrow> (string \<Rightarrow> 'r \<Rightarrow> 'r) \<Rightarrow> 'r \<Rightarrow> 'r" where
  "with_key m k f rd = (case map_of m k of None \<Rightarrow> rd | Some v \<Rightarrow> f v rd)"

definition with_int :: "(int \<Rightarrow> 'r \<Rightarrow> 'r) \<Rightarrow> string \<Rightarrow> 'r \<Rightarrow> 'r" where
  "with_int f v rd = (case Atoi v of None \<Rightarrow> rd | Some n \<Rightarrow> f n rd)"

definition default_route :: RouteDefinition where
  "default_route = zero_route\<lparr>rd_Protocol := ProtocolHTTP, rd_Enabled := True\<rparr>"

definition parseNonIndexedMeta :: "(string, string) gomap \<Rightarrow> RouteDefinition" where
  "parseNonIndexedMeta meta =
     (let rd = default_route;
          rd = with_key meta ''caddy-protocol'' (\<lambda>v r. r\<lparr>rd_Protocol := v\<rparr>) rd;
          rd = with_key meta ''caddy-host'' (\<lambda>v r. r\<lparr>rd_Host := v\<rparr>) rd;
          rd = with_key meta ''caddy-path'' (\<lambda>v r. r\<lparr>rd_Path := v\<rparr>) rd;
          rd = with_key meta ''caddy-port'' (with_int (\<lambda>n r. r\<lparr>rd_Port := n\<rparr>)) rd;
          rd = with_key meta ''caddy-priority'' (with_int (\<lambda>n r. r\<lparr>rd_Priority := n\<rparr>)) rd;
          rd = with_key meta ''caddy-weight'' (with_int (\<lambda>n r. r\<lparr>rd_Weight := n\<rparr>)) rd;
          rd = with_key meta ''caddy-strip-prefix'' (\<lambda>v r. r\<lparr>rd_StripPrefix := v = ''true''\<rparr>) rd;
          rd = with_key meta ''caddy-redirect-code'' (with_int (\<lambda>n r. r\<lparr>rd_RedirectCode := n\<rparr>)) rd;
          rd = with_key meta ''caddy-redirect-url'' (\<lambda>v r. r\<lparr>rd_RedirectURL := v\<rparr>) rd;
          rd = with_key meta ''caddy-redirect-no-cache'' (\<lambda>v r. r\<lparr>rd_RedirectNoCache := v = ''true''\<rparr>) rd;
          rd = with_key meta ''caddy-enabled'' (\<lambda>v r. r\<lparr>rd_Enabled := v \<noteq> ''false''\<rparr>) rd;
          rd = with_key meta ''caddy-no-cache-status''
                 (\<lambda>v r. r\<lparr>rd_NoCacheStatusRaw := v, rd_HasNoCacheStatus := True\<rparr>) rd
      in rd)"

text \<open>The body of the loop of \<open>parseIndexedMeta\<close> over the sorted indices; \<open>sni\<close> overrides \<open>host\<close>.\<close>

definition parseIndexedFields :: "(string, string) gomap \<Rightarrow> RouteDefinition" where
  "parseIndexedFields flds =
     (let rd = default_route;
          rd = with_key flds ''protocol'' (\<lambda>v r. r\<lparr>rd_Protocol := v\<rparr>) rd;
          rd = with_key flds ''host'' (\<lambda>v r. r\<lparr>rd_Host := v\<rparr>) rd;
          rd = with_key flds ''path'' (\<lambda>v r. r\<lparr>rd_Path := v\<rparr>) rd;
          rd = with_key flds ''port'' (with_int (\<lambda>n r. r\<lparr>rd_Port := n\<rparr>)) rd;
          rd = with_key flds ''sni'' (\<lambda>v r. r\<lparr>rd_Host := v\<rparr>) rd;
          rd = with_key flds ''priority'' (with_int (\<lambda>n r. r\<lparr>rd_Priority := n\<rparr>)) rd;
          rd = with_key flds ''weight'' (with_int (\<lambda>n r. r\<lparr>rd_Weight := n\<rparr>)) rd;
          rd = with_key flds ''strip-prefix'' (\<lambda>v r. r\<lparr>rd_StripPrefix := v = ''true''\<rparr>) rd;
          rd = with_key flds ''redirect-code'' (with_int (\<lambda>n r. r\<lparr>rd_RedirectCode := n\<rparr>)) rd;
          rd = with_key flds ''redirect-url'' (\<lambda>v r. r\<lparr>rd_RedirectURL := v\<rparr>) rd;
          rd = with_key flds ''redirect-no-cache'' (\<lambda>v r. r\<lparr>rd_RedirectNoCache := v = ''true''\<rparr>) rd;
          rd = with_key flds ''enabled'' (\<lambda>v r. r\<lparr>rd_Enabled := v \<noteq> ''false''\<rparr>) rd;
          rd = with_key flds ''no-cache-status''
                 (\<lambda>v r. r\<lparr>rd_NoCacheStatusRaw := v, rd_HasNoCacheStatus := True\<rparr>) rd
      in rd)"

text \<open>One round of the grouping loop; an index beyond the 64-bit range is skipped.\<close>

definition index_add ::
  "(int, (string, string) gomap) gomap \<Rightarrow> string \<times> string \<Rightarrow> (int, (string, string) gomap) gomap" where
  "index_add indexed kv =
     (case indexedKey (fst kv) of
        None \<Rightarrow> indexed
      | Some (ds, field) \<Rightarrow>
          (case Atoi ds of
             None \<Rightarrow> indexed
           | Some idx \<Rightarrow>
               AList.update idx (AList.update field (snd kv) (get_or [] indexed idx)) indexed))"

definition parseIndexedMeta :: "(string, string) gomap \<Rightarrow> RouteDefinition list" where
  "parseIndexedMeta meta =
     (let indexed = foldl index_add [] meta in
      if indexed = [] then []
      else map (\<lambda>idx. parseIndexedFields (get_or [] indexed idx)) (sort (map fst indexed)))"

subsection \<open>Fabio tags\<close>

definition stripStandardPort :: "string \<Rightarrow> string" where
  "stripStandardPort host =
     (if HasSuffix host '':80'' then TrimSuffix host '':80''
      else if HasSuffix host '':443'' then TrimSuffix host '':443''
      else host)"

definition fabio_modifiers :: "string list \<Rightarrow> (string, string) gomap" where
  "fabio_modifiers parts =
     foldl (\<lambda>m part. case SplitN2 part (CHR ''='') of
              [k, v] \<Rightarrow> AList.update k v m
            | _ \<Rightarrow> m) [] parts"

definition fabio_protocol :: "(string, string) gomap \<Rightarrow> RouteDefinition \<Rightarrow> RouteDefinition" where
  "fabio_protocol modifiers rd =
     with_key modifiers ''proto''
       (\<lambda>proto r. r\<lparr>rd_Protocol := if proto = ''tcp'' then ProtocolTCP
                                 else if proto = ''https'' then ProtocolHTTPS
                                 else ProtocolHTTP\<rparr>) rd"

definition fabio_redirect :: "(string, string) gomap \<Rightarrow> RouteDefinition \<Rightarrow> RouteDefinition" where
  "fabio_redirect modifiers rd =
     with_key modifiers ''redirect''
       (\<lambda>redir r.
          case SplitN2 redir (CHR '','') of
            [c, u] \<Rightarrow>
              (case Atoi c of
                 None \<Rightarrow> r
               | Some code \<Rightarrow>
                   if 300 \<le> code \<and> code < 400
                   then r\<lparr>rd_RedirectCode := code,
                          rd_RedirectURL := ReplaceAll u ''$path'' ''{http.request.uri}''\<rparr>
                   else r)
          | _ \<Rightarrow> r) rd"

text \<open>The URL part of a tag, by protocol; the flag marks a redirect on a standard port.\<close>

definition fabio_url :: "string \<Rightarrow> RouteDefinition \<Rightarrow> RouteDefinition option \<times> bool" where
  "fabio_url urlPart rd =
     (if rd_Protocol rd = ProtocolTCP then
        (if HasPrefix urlPart '':'' then
           (case Atoi (TrimPrefix urlPart '':'') of
              None \<Rightarrow> (None, False)
            | Some port \<Rightarrow> if port \<le> 0 then (None, False) else (Some (rd\<lparr>rd_Port := port\<rparr>), False))
         else (None, False))
      else
        (let idx = IndexByte urlPart (CHR ''/'');
             rawHost = (if idx \<ge> 0 then take (nat idx) urlPart else urlPart);
             rd' = rd\<lparr>rd_Path := (if idx \<ge> 0 then drop (nat idx) urlPart else ''/''),
                     rd_Host := stripStandardPort rawHost\<rparr>;
             hadStandardPort = (HasSuffix rawHost '':80'' \<or> HasSuffix rawHost '':443'')
         in if hadStandardPort \<and> rd_RedirectCode rd' > 0 then (None, True) else (Some rd', False)))"

definition parseFabioTag :: "string \<Rightarrow> (RouteDefinition option \<times> bool) go" where
  "parseFabioTag tag =
     (let value = TrimPrefix tag ''urlprefix-'' in
      if value = [] then Inr (None, False)
      else
        (case Fields value of
           [] \<Rightarrow> Inl IndexOutOfRange
         | urlPart # rest \<Rightarrow>
             (let modifiers = fabio_modifiers rest;
                  rd = fabio_protocol modifiers default_route;
                  rd = with_key modifiers ''strip'' (\<lambda>v r. r\<lparr>rd_StripPrefix := True\<rparr>) rd;
                  rd = fabio_redirect modifiers rd
              in Inr (fabio_url urlPart rd))))"

fun parseFabioTags :: "string list \<Rightarrow> (RouteDefinition list \<times> nat) go" where
  "parseFabioTags [] = Inr ([], 0)"
| "parseFabioTags (tag # tags) =
     (if \<not> HasPrefix tag ''urlprefix-'' then parseFabioTags tags
      else go_bind (parseFabioTag tag) (\<lambda>(rd, portRedirect).
             go_bind (parseFabioTags tags) (\<lambda>(routes, skipped).
               Inr (if portRedirect then (routes, skipped + 1)
                    else (case rd of None \<Rightarrow> routes | Some r \<Rightarrow> r # routes, skipped)))))"

subsection \<open>Routes of a service\<close>

definition instance_upstream :: "ServiceInstance \<Rightarrow> Upstream" where
  "instance_upstream inst =
     \<lparr>up_Address = si_Address inst @ '':'' @ Itoa (si_Port inst), up_Weight = si_Weight inst,
      up_Healthy = True, up_NodeName = si_NodeName inst\<rparr>"

text \<open>The guards at the head of the instance loop.\<close>

definition instance_eligible :: "string \<Rightarrow> string \<Rightarrow> ServiceInstance \<Rightarrow> bool" where
  "instance_eligible serviceTag connectTag inst \<longleftrightarrow>
     si_Healthy inst \<and> si_Address inst \<noteq> [] \<and>
     (instanceHasTag inst serviceTag \<or> instanceHasTag inst connectTag \<or>
      hasAnyCaddyMeta (si_Meta inst) \<or> hasAnyFabioTag (si_Tags inst))"

text \<open>The body of the instance loop: the routes of one instance, each with the instance as upstream.\<close>

definition instance_routes ::
  "string \<Rightarrow> string \<Rightarrow> string \<Rightarrow> ServiceInstance \<Rightarrow> (RouteDefinition \<times> Upstream) list go" where
  "instance_routes svcName serviceTag connectTag inst =
     (if \<not> instance_eligible serviceTag connectTag inst then Inr []
      else
        go_bind (parseFabioTags (si_Tags inst)) (\<lambda>(fabioRoutes, skipped).
          let indexedRoutes = parseIndexedMeta (si_Meta inst);
              routes = (if indexedRoutes \<noteq> [] then indexedRoutes
                        else if hasNonIndexedMeta (si_Meta inst) then [parseNonIndexedMeta (si_Meta inst)]
                        else fabioRoutes);
              tagValues = parseTagValues (si_Tags inst)
          in Inr (map (\<lambda>r. (r\<lparr>rd_ServiceName := svcName, rd_UpstreamMode := UpstreamDirect,
                              rd_TagValues := tagValues\<rparr>, instance_upstream inst)) routes)))"

record routeSignature =
  sg_protocol :: Protocol
  sg_host :: string
  sg_path :: string
  sg_port :: int
  sg_priority :: int
  sg_weight :: int
  sg_stripPrefix :: bool
  sg_enabled :: bool
  sg_redirectCode :: int
  sg_redirectURL :: string
  sg_redirectNoCache :: bool
  sg_noCacheStatusRaw :: string
  sg_hasNoCacheStatus :: bool

definition signature :: "RouteDefinition \<Rightarrow> routeSignature" where
  "signature r =
     \<lparr>sg_protocol = rd_Protocol r, sg_host = rd_Host r, sg_path = rd_Path r, sg_port = rd_Port r,
      sg_priority = rd_Priority r, sg_weight = rd_Weight r, sg_stripPrefix = rd_StripPrefix r,
      sg_enabled = rd_Enabled r, sg_redirectCode = rd_RedirectCode r, sg_redirectURL = rd_RedirectURL r,
      sg_redirectNoCache = rd_RedirectNoCache r, sg_noCacheStatusRaw = rd_NoCacheStatusRaw r,
      sg_hasNoCacheStatus = rd_HasNoCacheStatus r\<rparr>"

text \<open>
  Phase 2. \<open>routeMap\<close> and \<open>routeOrder\<close> together are one association list in order of first
  appearance, with the first route and the upstreams so far of each signature.
\<close>

definition group_add ::
  "(routeSignature, RouteDefinition \<times> Upstream list) gomap \<Rightarrow> RouteDefinition \<times> Upstream \<Rightarrow>
   (routeSignature, RouteDefinition \<times> Upstream list) gomap" where
  "group_add m ir =
     (case ir of (r, u) \<Rightarrow>
        (case map_of m (signature r) of
           Some (r0, us) \<Rightarrow> AList.update (signature r) (r0, us @ [u]) m
         | None \<Rightarrow> m @ [(signature r, (r, [u]))]))"

definition group_routes ::
  "(RouteDefinition \<times> Upstream) list \<Rightarrow> (routeSignature, RouteDefinition \<times> Upstream list) gomap" where
  "group_routes irs = foldl group_add [] irs"

text \<open>Phase 3: the enabled groups, in order of first appearance.\<close>

definition assemble_routes ::
  "(routeSignature, RouteDefinition \<times> Upstream list) gomap \<Rightarrow> RouteDefinition list" where
  "assemble_routes m =
     map (\<lambda>(sig, (r, us)). r\<lparr>rd_Upstreams := us\<rparr>) (filter (\<lambda>(sig, (r, us)). rd_Enabled r) m)"

definition ParseServiceRoutes :: "ServiceState option \<Rightarrow> string \<Rightarrow> string \<Rightarrow> RouteDefinition list go" where
  "ParseServiceRoutes svc serviceTag connectTag =
     (case svc of
        None \<Rightarrow> Inr []
      | Some s \<Rightarrow>
          if ss_Instances s = [] then Inr []
          else go_bind (go_mapM (instance_routes (ss_Name s) serviceTag connectTag) (ss_Instances s))
                 (\<lambda>irss. Inr (assemble_routes (group_routes (concat irss)))))"

lemmas [go_eval] = indexedKey_def instanceHasTag_def hasAnyCaddyMeta_def hasAnyFabioTag_def
  hasNonIndexedMeta_def parseTagValues_def with_key_def with_int_def default_route_def
  parseNonIndexedMeta_def parseIndexedFields_def index_add_def parseIndexedMeta_def
  stripStandardPort_def fabio_modifiers_def fabio_protocol_def fabio_redirect_def fabio_url_def
  parseFabioTag_def instance_upstream_def instance_eligible_def instance_routes_def signature_def
  group_add_def group_routes_def assemble_routes_def ParseServiceRoutes_def

subsection \<open>Grouping\<close>

definition group_of ::
  "(RouteDefinition \<times> Upstream) list \<Rightarrow> routeSignature \<Rightarrow> (RouteDefinition \<times> Upstream list) option" where
  "group_of irs sig =
     (let fs = filter (\<lambda>ir. signature (fst ir) = sig) irs in
      if fs = [] then None else Some (fst (hd fs), map snd fs))"

lemma group_add_snd: "group_add m (r, u) =
  (case map_of m (signature r) of
     Some g \<Rightarrow> AList.update (signature r) (fst g, snd g @ [u]) m
   | None \<Rightarrow> m @ [(signature r, (r, [u]))])"
  by (simp add: group_add_def split: option.split prod.split)

lemma map_of_group_routes: "map_of (group_routes irs) sig = group_of irs sig"
proof (induction irs arbitrary: sig rule: rev_induct)
  case Nil
  then show ?case by (simp add: group_routes_def group_of_def)
next
  case (snoc ir irs)
  obtain r u where ir: "ir = (r, u)" by force
  have "map_of (group_routes (irs @ [ir])) sig = map_of (group_add (group_routes irs) (r, u)) sig"
    by (simp add: group_routes_def ir)
  also have "\<dots> = group_of (irs @ [ir]) sig"
    by (auto simp: group_add_snd snoc group_of_def ir Let_def update_conv' map_add_def filter_empty_conv
        hd_append split: option.split)
  finally show ?case .
qed

lemma gomap_ok_group_routes: "gomap_ok (group_routes irs)"
proof (induction irs rule: rev_induct)
  case Nil
  then show ?case by (simp add: group_routes_def)
next
  case (snoc ir irs)
  obtain r u where ir: "ir = (r, u)" by force
  have "gomap_ok (group_add (group_routes irs) (r, u))"
    using snoc map_of_eq_None_iff [of "group_routes irs" "signature r"]
    by (auto simp: group_add_snd split: option.split)
  then show ?case by (simp add: group_routes_def ir)
qed

lemma group_routes_entry:
  "(sig, r, us) \<in> set (group_routes irs) \<longleftrightarrow> group_of irs sig = Some (r, us)"
  using map_of_eq_Some_iff [OF gomap_ok_group_routes, of irs sig "(r, us)"] map_of_group_routes [of irs sig]
  by auto

lemma group_of_signature: "group_of irs sig = Some (r, us) \<Longrightarrow> signature r = sig"
proof -
  assume g: "group_of irs sig = Some (r, us)"
  let ?fs = "filter (\<lambda>ir. signature (fst ir) = sig) irs"
  from g have "?fs \<noteq> []" "r = fst (hd ?fs)" by (auto simp: group_of_def Let_def split: if_splits)
  then show ?thesis using hd_in_set [of ?fs] by auto
qed

lemma signature_Upstreams [simp]: "signature (r\<lparr>rd_Upstreams := us\<rparr>) = signature r"
  by (simp add: signature_def)

lemma signature_enabled: "signature r = signature r' \<Longrightarrow> rd_Enabled r = rd_Enabled r'"
  by (simp add: signature_def)

lemma distinct_assemble: "distinct (map signature (assemble_routes (group_routes irs)))"
proof -
  have sig: "\<forall>e \<in> set (group_routes irs). signature (fst (snd e)) = fst e"
    using group_of_signature group_routes_entry by fastforce
  have "map signature (assemble_routes m) = map fst (filter (\<lambda>e. rd_Enabled (fst (snd e))) m)"
    if "\<forall>e \<in> set m. signature (fst (snd e)) = fst e" for m
    using that by (induction m) (auto simp: assemble_routes_def)
  with sig show ?thesis
    using gomap_ok_group_routes [of irs] by (simp add: distinct_map_filter)
qed

lemma assemble_member:
  "rd \<in> set (assemble_routes (group_routes irs)) \<longleftrightarrow>
   (\<exists>r us. group_of irs (signature r) = Some (r, us) \<and> rd_Enabled r \<and> rd = r\<lparr>rd_Upstreams := us\<rparr>)"
  (is "?l \<longleftrightarrow> ?r")
proof
  assume ?l
  then obtain sig r us where "(sig, r, us) \<in> set (group_routes irs)" "rd_Enabled r" "rd = r\<lparr>rd_Upstreams := us\<rparr>"
    by (auto simp: assemble_routes_def)
  then show ?r using group_routes_entry group_of_signature by blast
next
  assume ?r
  then show ?l using group_routes_entry by (force simp: assemble_routes_def)
qed

lemma assembled_upstreams:
  assumes "rd \<in> set (assemble_routes (group_routes irs))"
  shows "rd_Enabled rd"
    and "rd_Upstreams rd = map snd (filter (\<lambda>ir. signature (fst ir) = signature rd) irs)"
    and "rd_Upstreams rd \<noteq> []"
    and "\<exists>r u. (r, u) \<in> set irs \<and> signature r = signature rd \<and> rd = r\<lparr>rd_Upstreams := rd_Upstreams rd\<rparr>"
proof -
  from assms obtain r us where g: "group_of irs (signature r) = Some (r, us)" and r: "rd_Enabled r" "rd = r\<lparr>rd_Upstreams := us\<rparr>"
    by (auto simp: assemble_member)
  then show "rd_Enabled rd"
    and "rd_Upstreams rd = map snd (filter (\<lambda>ir. signature (fst ir) = signature rd) irs)"
    and "rd_Upstreams rd \<noteq> []"
    by (auto simp: group_of_def Let_def split: if_splits)
  from g have "hd (filter (\<lambda>ir. signature (fst ir) = signature r) irs) \<in> set irs \<and>
               fst (hd (filter (\<lambda>ir. signature (fst ir) = signature r) irs)) = r"
    using hd_in_set [of "filter (\<lambda>ir. signature (fst ir) = signature r) irs"]
    by (auto simp: group_of_def Let_def split: if_splits)
  then obtain u where "(r, u) \<in> set irs" by (metis prod.collapse)
  with r show "\<exists>r u. (r, u) \<in> set irs \<and> signature r = signature rd \<and> rd = r\<lparr>rd_Upstreams := rd_Upstreams rd\<rparr>"
    by (intro exI [of _ r] exI [of _ u]) simp
qed

lemma assembled_complete:
  assumes "(r, u) \<in> set irs" and "rd_Enabled r"
  shows "\<exists>rd \<in> set (assemble_routes (group_routes irs)). signature rd = signature r"
proof -
  have "filter (\<lambda>ir. signature (fst ir) = signature r) irs \<noteq> []"
    using assms(1) by (force simp: filter_empty_conv)
  then obtain r' us where g: "group_of irs (signature r) = Some (r', us)"
    by (simp add: group_of_def Let_def)
  with assms(2) have "signature r' = signature r" "rd_Enabled r'"
    using group_of_signature signature_enabled by blast+
  with g have "r'\<lparr>rd_Upstreams := us\<rparr> \<in> set (assemble_routes (group_routes irs))"
    using assemble_member by fastforce
  then show ?thesis using \<open>signature r' = signature r\<close> by (metis signature_Upstreams)
qed

subsection \<open>Panics\<close>

text \<open>A tag that is \<open>urlprefix-\<close> followed by white space only.\<close>

definition blank_tag :: "string \<Rightarrow> bool" where
  "blank_tag tag \<longleftrightarrow>
     HasPrefix tag ''urlprefix-'' \<and> TrimPrefix tag ''urlprefix-'' \<noteq> [] \<and>
     list_all is_space (TrimPrefix tag ''urlprefix-'')"

lemma parseFabioTag_panics:
  assumes "HasPrefix tag ''urlprefix-''"
  shows "if blank_tag tag then parseFabioTag tag = Inl IndexOutOfRange else \<exists>x. parseFabioTag tag = Inr x"
  using assms Fields_eq_Nil [of "TrimPrefix tag ''urlprefix-''"]
  by (auto simp: parseFabioTag_def blank_tag_def Let_def list_all_iff split: list.split)

lemma parseFabioTags_panics: "(\<exists>p. parseFabioTags tags = Inl p) \<longleftrightarrow> (\<exists>t \<in> set tags. blank_tag t)"
proof (induction tags)
  case (Cons t ts)
  show ?case
  proof (cases "HasPrefix t ''urlprefix-''")
    case True
    show ?thesis
      using Cons parseFabioTag_panics [OF True] True
      by (cases "blank_tag t"; cases "parseFabioTags ts") (auto split: prod.splits)
  next
    case False
    with Cons show ?thesis by (auto simp: blank_tag_def)
  qed
qed simp

lemma blank_tag_fabio: "blank_tag t \<Longrightarrow> t \<in> set tags \<Longrightarrow> hasAnyFabioTag tags"
  by (auto simp: blank_tag_def hasAnyFabioTag_def list_ex_iff)

lemma instance_routes_panics:
  "(\<exists>p. instance_routes n st ct inst = Inl p) \<longleftrightarrow>
   si_Healthy inst \<and> si_Address inst \<noteq> [] \<and> (\<exists>t \<in> set (si_Tags inst). blank_tag t)"
proof (cases "instance_eligible st ct inst")
  case True
  then have "(\<exists>p. instance_routes n st ct inst = Inl p) \<longleftrightarrow> (\<exists>p. parseFabioTags (si_Tags inst) = Inl p)"
    by (cases "parseFabioTags (si_Tags inst)") (auto simp: instance_routes_def Let_def split: prod.splits)
  with True show ?thesis by (simp add: parseFabioTags_panics instance_eligible_def)
next
  case False
  then show ?thesis
    using blank_tag_fabio by (auto simp: instance_routes_def instance_eligible_def)
qed

lemma ParseServiceRoutes_Some:
  "ParseServiceRoutes (Some s) st ct =
   go_bind (go_mapM (instance_routes (ss_Name s) st ct) (ss_Instances s))
     (\<lambda>irss. Inr (assemble_routes (group_routes (concat irss))))"
  by (simp add: ParseServiceRoutes_def group_routes_def assemble_routes_def)

lemma ParseServiceRoutes_panics:
  "(\<exists>p. ParseServiceRoutes (Some s) st ct = Inl p) \<longleftrightarrow>
   (\<exists>inst \<in> set (ss_Instances s).
      si_Healthy inst \<and> si_Address inst \<noteq> [] \<and> (\<exists>t \<in> set (si_Tags inst). blank_tag t))"
  using go_mapM_panics [of "instance_routes (ss_Name s) st ct" "ss_Instances s"]
  by (simp add: ParseServiceRoutes_Some go_bind_eq_Inl instance_routes_panics)

subsection \<open>Routes and the instances behind them\<close>

text \<open>An instance contributes to a route when its own metadata or tags yield that route.\<close>

definition contributes ::
  "string \<Rightarrow> string \<Rightarrow> string \<Rightarrow> ServiceInstance \<Rightarrow> RouteDefinition \<Rightarrow> bool" where
  "contributes n st ct inst rd \<longleftrightarrow>
     (\<exists>irs r. instance_routes n st ct inst = Inr irs \<and> (r, instance_upstream inst) \<in> set irs \<and>
              signature r = signature rd)"

lemma instance_routes_entries:
  assumes "instance_routes n st ct inst = Inr irs" and "(r, u) \<in> set irs"
  shows "instance_eligible st ct inst \<and> u = instance_upstream inst \<and> rd_ServiceName r = n \<and>
         rd_UpstreamMode r = UpstreamDirect \<and> rd_TagValues r = parseTagValues (si_Tags inst)"
  using assms by (auto simp: instance_routes_def go_bind_eq_Inr Let_def split: if_splits)

lemma all_routes_entry:
  assumes "go_mapM (instance_routes n st ct) insts = Inr irss"
  shows "(\<exists>u. (r, u) \<in> set (concat irss) \<and> P r u) \<longleftrightarrow>
         (\<exists>inst \<in> set insts. \<exists>irs. instance_routes n st ct inst = Inr irs \<and>
            (r, instance_upstream inst) \<in> set irs \<and> P r (instance_upstream inst))"
proof -
  from assms have "list_all2 (\<lambda>inst irs. instance_routes n st ct inst = Inr irs) insts irss"
    by (simp add: go_mapM_Inr)
  then show ?thesis
  proof (induction insts irss rule: list_all2_induct)
    case (Cons inst insts irs irss)
    have "(\<exists>u. (r, u) \<in> set irs \<and> P r u) \<longleftrightarrow> (r, instance_upstream inst) \<in> set irs \<and> P r (instance_upstream inst)"
      using instance_routes_entries [OF Cons.hyps(1)] by blast
    with Cons show ?case by auto
  qed simp
qed

lemma ParseServiceRoutes_correct_aux:
  assumes "ParseServiceRoutes (Some s) st ct = Inr rs"
  shows "distinct (map signature rs)"
    and "rd \<in> set rs \<Longrightarrow> rd_Enabled rd \<and> rd_ServiceName rd = ss_Name s \<and> rd_UpstreamMode rd = UpstreamDirect \<and>
           rd_Upstreams rd \<noteq> []"
    and "rd \<in> set rs \<Longrightarrow> u \<in> set (rd_Upstreams rd) \<longleftrightarrow>
           (\<exists>inst \<in> set (ss_Instances s). contributes (ss_Name s) st ct inst rd \<and> u = instance_upstream inst)"
    and "inst \<in> set (ss_Instances s) \<Longrightarrow> contributes (ss_Name s) st ct inst r \<Longrightarrow> rd_Enabled r \<Longrightarrow>
           \<exists>rd \<in> set rs. signature rd = signature r"
proof -
  from assms obtain irss where m: "go_mapM (instance_routes (ss_Name s) st ct) (ss_Instances s) = Inr irss"
    and rs: "rs = assemble_routes (group_routes (concat irss))"
    by (auto simp: ParseServiceRoutes_Some go_bind_eq_Inr)
  note entry = all_routes_entry [OF m]
  show "distinct (map signature rs)" by (simp add: rs distinct_assemble)
  show "rd_Enabled rd \<and> rd_ServiceName rd = ss_Name s \<and> rd_UpstreamMode rd = UpstreamDirect \<and> rd_Upstreams rd \<noteq> []"
    if "rd \<in> set rs"
  proof -
    from assembled_upstreams(4) [OF that [unfolded rs]] obtain r u where
      r: "(r, u) \<in> set (concat irss)" "rd = r\<lparr>rd_Upstreams := rd_Upstreams rd\<rparr>" by blast
    then obtain inst irs where "instance_routes (ss_Name s) st ct inst = Inr irs" "(r, instance_upstream inst) \<in> set irs"
      using entry [of r "\<lambda>_ _. True"] by blast
    from instance_routes_entries [OF this] have "rd_ServiceName r = ss_Name s" "rd_UpstreamMode r = UpstreamDirect" by simp_all
    then have "rd_ServiceName rd = ss_Name s" "rd_UpstreamMode rd = UpstreamDirect" by (subst r(2), simp)+
    with assembled_upstreams(1,3) [OF that [unfolded rs]] show ?thesis by simp
  qed
  show "u \<in> set (rd_Upstreams rd) \<longleftrightarrow>
        (\<exists>inst \<in> set (ss_Instances s). contributes (ss_Name s) st ct inst rd \<and> u = instance_upstream inst)"
    if "rd \<in> set rs"
  proof -
    have "u \<in> set (rd_Upstreams rd) \<longleftrightarrow> (\<exists>r u'. (r, u') \<in> set (concat irss) \<and> signature r = signature rd \<and> u = u')"
      unfolding assembled_upstreams(2) [OF that [unfolded rs]] by force
    also have "\<dots> \<longleftrightarrow> (\<exists>r. \<exists>inst \<in> set (ss_Instances s). \<exists>irs. instance_routes (ss_Name s) st ct inst = Inr irs \<and>
        (r, instance_upstream inst) \<in> set irs \<and> signature r = signature rd \<and> u = instance_upstream inst)"
      using entry [of _ "\<lambda>r u'. signature r = signature rd \<and> u = u'"] by simp
    finally show ?thesis by (auto simp: contributes_def)
  qed
  show "\<exists>rd \<in> set rs. signature rd = signature r"
    if inst: "inst \<in> set (ss_Instances s)" and c: "contributes (ss_Name s) st ct inst r" and e: "rd_Enabled r"
  proof -
    from c obtain irs r' where "instance_routes (ss_Name s) st ct inst = Inr irs"
      "(r', instance_upstream inst) \<in> set irs" and sig: "signature r' = signature r"
      by (auto simp: contributes_def)
    with inst obtain u where "(r', u) \<in> set (concat irss)" using entry [of r' "\<lambda>_ _. True"] by blast
    moreover have "rd_Enabled r'" using sig e signature_enabled by blast
    ultimately show ?thesis using assembled_complete sig rs by metis
  qed
qed

subsection \<open>Indexed metadata and the iteration order of the map\<close>

text \<open>The index and field an indexed key stands for, and the assignments a metadata map makes.\<close>

definition index_pair :: "string \<Rightarrow> (int \<times> string) option" where
  "index_pair k =
     (case indexedKey k of
        None \<Rightarrow> None
      | Some (ds, field) \<Rightarrow> (case Atoi ds of None \<Rightarrow> None | Some i \<Rightarrow> Some (i, field)))"

definition index_entries :: "(string, string) gomap \<Rightarrow> ((int \<times> string) \<times> string) list" where
  "index_entries meta = List.map_filter (\<lambda>kv. map_option (\<lambda>p. (p, snd kv)) (index_pair (fst kv))) meta"

lemma index_add_pair:
  "index_add m kv =
     (case index_pair (fst kv) of
        None \<Rightarrow> m
      | Some p \<Rightarrow> AList.update (fst p) (AList.update (snd p) (snd kv) (get_or [] m (fst p))) m)"
  by (auto simp: index_add_def index_pair_def split: option.split prod.split)

lemma index_entries_simps:
  "index_entries [] = []"
  "index_entries (meta @ [kv]) =
     index_entries meta @ (case index_pair (fst kv) of None \<Rightarrow> [] | Some p \<Rightarrow> [(p, snd kv)])"
  by (simp_all add: index_entries_def List.map_filter_def split: option.split)

lemma get_or_update:
  "map_of (get_or [] (AList.update i fl m) j) = (if i = j then map_of fl else map_of (get_or [] m j))"
  by (simp add: get_or_def update_conv')

lemma indexed_lookup:
  "map_of (get_or [] (foldl index_add [] meta) i) f = map_of (rev (index_entries meta)) (i, f)"
proof (induction meta arbitrary: i f rule: rev_induct)
  case Nil
  then show ?case by (simp add: get_or_def index_entries_simps)
next
  case (snoc kv meta)
  then show ?case
    by (cases "index_pair (fst kv)")
      (auto simp: index_add_pair index_entries_simps get_or_update update_conv' simp del: index_add_def)
qed

lemma indexed_keys: "keys (foldl index_add [] meta) = fst ` fst ` set (index_entries meta)"
proof (induction meta rule: rev_induct)
  case Nil
  then show ?case by (simp add: index_entries_simps)
next
  case (snoc kv meta)
  then show ?case
    by (cases "index_pair (fst kv)") (auto simp: index_add_pair index_entries_simps dom_update)
qed

lemma indexed_ok: "gomap_ok (foldl index_add [] meta)"
  by (induction meta rule: rev_induct) (simp_all add: index_add_pair split: option.split)

lemma with_key_cong: "map_of m = map_of m' \<Longrightarrow> with_key m = with_key m'"
  by (intro ext) (simp add: with_key_def)

lemma parseIndexedFields_cong: "map_of m = map_of m' \<Longrightarrow> parseIndexedFields m = parseIndexedFields m'"
proof -
  assume "map_of m = map_of m'"
  then have "with_key m = (with_key m' :: string \<Rightarrow> (string \<Rightarrow> RouteDefinition \<Rightarrow> RouteDefinition) \<Rightarrow> _)"
    by (rule with_key_cong)
  then show ?thesis by (simp only: parseIndexedFields_def)
qed

text \<open>The routes come in increasing order of their index, each from the assignments to that index.\<close>

lemma parseIndexedMeta_entries:
  "parseIndexedMeta meta =
     map (\<lambda>i. parseIndexedFields (get_or [] (foldl index_add [] meta) i))
       (sorted_list_of_set (fst ` fst ` set (index_entries meta)))"
proof -
  have "sort (map fst (foldl index_add [] meta)) = sorted_list_of_set (keys (foldl index_add [] meta))"
    using indexed_ok [of meta] by (simp only: sorted_list_of_set_sort_remdups distinct_remdups_id)
  moreover have "parseIndexedMeta meta =
    map (\<lambda>i. parseIndexedFields (get_or [] (foldl index_add [] meta) i)) (sort (map fst (foldl index_add [] meta)))"
    by (simp add: parseIndexedMeta_def Let_def)
  ultimately show ?thesis by (simp only: indexed_keys)
qed

lemma mset_index_entries: "mset meta = mset meta' \<Longrightarrow> mset (index_entries meta) = mset (index_entries meta')"
  by (simp add: index_entries_def List.map_filter_def)

lemma parseIndexedMeta_perm:
  assumes d: "distinct (map fst (index_entries meta))" and eq: "mset meta = mset meta'"
  shows "parseIndexedMeta meta = parseIndexedMeta meta'"
proof -
  have e: "mset (index_entries meta) = mset (index_entries meta')" by (rule mset_index_entries [OF eq])
  have "map_of (rev (index_entries meta)) = map_of (rev (index_entries meta'))"
    using d e by (intro map_of_perm) (simp_all add: rev_map [symmetric])
  then have "map_of (get_or [] (foldl index_add [] meta) i) = map_of (get_or [] (foldl index_add [] meta') i)" for i
    by (intro ext) (simp add: indexed_lookup)
  then have "parseIndexedFields (get_or [] (foldl index_add [] meta) i) =
             parseIndexedFields (get_or [] (foldl index_add [] meta') i)" for i
    by (rule parseIndexedFields_cong)
  moreover have "set (index_entries meta) = set (index_entries meta')" by (rule mset_eq_setD [OF e])
  ultimately show ?thesis by (simp add: parseIndexedMeta_entries)
qed

lemma indexedKey_shape: "indexedKey k = Some (ds, f) \<Longrightarrow> k = ''caddy-route-'' @ ds @ ''-'' @ f"
proof -
  assume k: "indexedKey k = Some (ds, f)"
  from k have "HasPrefix k ''caddy-route-''" by (simp add: indexedKey_def split: if_splits)
  then obtain r where r: "k = ''caddy-route-'' @ r" by (auto simp: HasPrefix_iff)
  with k have "ds = takeWhile is_digit r" "dropWhile is_digit r \<noteq> []"
    "hd (dropWhile is_digit r) = CHR ''-''" "tl (dropWhile is_digit r) = f"
    by (auto simp: indexedKey_def Let_def split: if_splits)
  then have "r = ds @ CHR ''-'' # f" by (metis list.collapse takeWhile_dropWhile_id)
  with r show ?thesis by simp
qed

text \<open>Indices in their canonical form, without leading zeros.\<close>

definition canonical_key :: "string \<Rightarrow> bool" where
  "canonical_key k \<longleftrightarrow> (\<forall>ds f i. indexedKey k = Some (ds, f) \<longrightarrow> Atoi ds = Some i \<longrightarrow> ds = Itoa i)"

lemma canonical_pair_inj:
  "canonical_key k \<Longrightarrow> canonical_key k' \<Longrightarrow> index_pair k = Some p \<Longrightarrow> index_pair k' = Some p \<Longrightarrow> k = k'"
  by (auto simp: index_pair_def canonical_key_def split: option.splits dest!: indexedKey_shape)

lemma canonical_distinct:
  "gomap_ok meta \<Longrightarrow> \<forall>k \<in> keys meta. canonical_key k \<Longrightarrow> distinct (map fst (index_entries meta))"
proof (induction meta rule: rev_induct)
  case (snoc kv meta)
  show ?case
  proof (cases "index_pair (fst kv)")
    case None
    with snoc show ?thesis by (simp add: index_entries_simps)
  next
    case (Some p)
    have "p \<notin> fst ` set (index_entries meta)"
    proof
      assume "p \<in> fst ` set (index_entries meta)"
      then obtain kv' where kv': "kv' \<in> set meta" "index_pair (fst kv') = Some p"
        by (auto simp: index_entries_def List.map_filter_def)
      with Some snoc.prems(2) have "fst kv' = fst kv"
        by (intro canonical_pair_inj) auto
      moreover have "fst kv \<notin> fst ` set meta" using snoc.prems(1) by simp
      ultimately show False using kv'(1) by (metis imageI)
    qed
    with Some snoc show ?thesis by (simp add: index_entries_simps)
  qed
qed (simp add: index_entries_simps)

subsection \<open>Fabio tags\<close>

lemma no_modifiers [simp]: "fabio_modifiers [] = []" "with_key [] k f rd = rd"
  by (simp_all add: fabio_modifiers_def with_key_def)

lemma fabio_http_tag:
  assumes "CHR ''/'' \<notin> set h" and "\<forall>c \<in> set h \<union> set p. \<not> is_space c"
  shows "parseFabioTag (''urlprefix-'' @ h @ CHR ''/'' # p) =
         Inr (Some (default_route\<lparr>rd_Host := stripStandardPort h, rd_Path := CHR ''/'' # p\<rparr>), False)"
proof -
  have "\<not> is_space (CHR ''/'')" by (simp add: is_space_def)
  then have "Fields (h @ CHR ''/'' # p) = [h @ CHR ''/'' # p]"
    using assms(2) by (intro Fields_single) auto
  moreover have "rd_Protocol default_route \<noteq> ProtocolTCP" "rd_RedirectCode default_route = 0"
    by (simp_all add: default_route_def zero_route_def)
  ultimately show ?thesis
    unfolding parseFabioTag_def TrimPrefix_append Let_def
    using IndexByte_append [OF assms(1), of p]
    by (simp add: fabio_protocol_def fabio_redirect_def fabio_url_def Let_def)
qed

lemma Itoa_no_space: "c \<in> set (Itoa n) \<Longrightarrow> \<not> is_space c"
  using Itoa_chars [of c n] by (auto simp: is_digit_def is_space_def)

lemma Fields_two:
  assumes "\<forall>c \<in> set a. \<not> is_space c" and "\<forall>c \<in> set b. \<not> is_space c" and "a \<noteq> []" and "b \<noteq> []"
  shows "Fields (a @ CHR '' '' # b) = [a, b]"
proof -
  have "split_by is_space (a @ CHR '' '' # b) = a # split_by is_space b"
    using assms(1) by (intro split_by_append) (simp_all add: is_space_def)
  with assms show ?thesis by (simp add: Fields_def split_by_none)
qed

lemma fabio_tcp_tag:
  assumes "is_int64 n" and "0 < n"
  shows "parseFabioTag (''urlprefix-:'' @ Itoa n @ '' proto=tcp'') =
         Inr (Some (default_route\<lparr>rd_Protocol := ProtocolTCP, rd_Port := n\<rparr>), False)"
proof -
  have "Fields ((CHR '':'' # Itoa n) @ CHR '' '' # ''proto=tcp'') = [CHR '':'' # Itoa n, ''proto=tcp'']"
    using Itoa_no_space by (intro Fields_two) (auto simp: is_space_def)
  then have fields: "Fields ('':'' @ Itoa n @ '' proto=tcp'') = [CHR '':'' # Itoa n, ''proto=tcp'']"
    by simp
  have mods: "fabio_modifiers [''proto=tcp''] = [(''proto'', ''tcp'')]" by code_simp
  have url: "TrimPrefix (CHR '':'' # Itoa n) '':'' = Itoa n" "HasPrefix (CHR '':'' # Itoa n) '':''"
    by (simp_all add: TrimPrefix_def HasPrefix_def)
  have "parseFabioTag (''urlprefix-'' @ ('':'' @ Itoa n @ '' proto=tcp'')) =
        Inr (Some (default_route\<lparr>rd_Protocol := ProtocolTCP, rd_Port := n\<rparr>), False)"
    unfolding parseFabioTag_def TrimPrefix_append Let_def fields
    using assms Atoi_Itoa [OF assms(1)]
    by (simp add: mods fabio_protocol_def fabio_redirect_def fabio_url_def with_key_def url)
  then show ?thesis by simp
qed

lemma stripStandardPort_plain: "\<not> HasSuffix h '':80'' \<Longrightarrow> \<not> HasSuffix h '':443'' \<Longrightarrow> stripStandardPort h = h"
  by (simp add: stripStandardPort_def)

lemma stripStandardPort_port: "stripStandardPort (h @ '':80'') = h" "stripStandardPort (h @ '':443'') = h"
proof -
  have "HasSuffix (h @ '':80'') '':80''" "HasSuffix (h @ '':443'') '':443''" "\<not> HasSuffix (h @ '':443'') '':80''"
    by (auto simp: HasSuffix_iff append_eq_append_conv2)
  then show "stripStandardPort (h @ '':80'') = h" "stripStandardPort (h @ '':443'') = h"
    by (simp_all add: stripStandardPort_def)
qed

subsection \<open>Properties\<close>

text \<open>C4: What \<open>ParseServiceRoutes\<close> returns: enabled routes of the service with pairwise different
  definitions, each with at least one upstream; the upstreams of a route are exactly the instances
  whose own metadata or tags yield that route, all of them healthy, with an address and marked for
  routing; and every enabled route that an instance yields is returned.\<close>

theorem ParseServiceRoutes_correct:
  assumes "ParseServiceRoutes (Some s) st ct = Inr rs"
  shows "distinct (map signature rs) \<and>
    (\<forall>rd \<in> set rs.
       rd_Enabled rd \<and> rd_ServiceName rd = ss_Name s \<and> rd_UpstreamMode rd = UpstreamDirect \<and>
       rd_Upstreams rd \<noteq> [] \<and>
       set (rd_Upstreams rd) =
         instance_upstream ` {inst \<in> set (ss_Instances s). contributes (ss_Name s) st ct inst rd}) \<and>
    (\<forall>inst \<in> set (ss_Instances s). \<forall>r. contributes (ss_Name s) st ct inst r \<longrightarrow>
       instance_eligible st ct inst \<and> (rd_Enabled r \<longrightarrow> (\<exists>rd \<in> set rs. signature rd = signature r)))"
proof -
  note aux = ParseServiceRoutes_correct_aux [OF assms]
  have "instance_eligible st ct inst" if "contributes (ss_Name s) st ct inst r" for inst r
    using that instance_routes_entries by (fastforce simp: contributes_def)
  moreover have "set (rd_Upstreams rd) =
      instance_upstream ` {inst \<in> set (ss_Instances s). contributes (ss_Name s) st ct inst rd}"
    if "rd \<in> set rs" for rd
    using aux(3) [OF that] by blast
  ultimately show ?thesis using aux(1,2,4) by blast
qed

definition example_service :: ServiceState where
  "example_service =
     \<lparr>ss_Name = ''web'', ss_Tags = [''caddy-consul''], ss_Meta = [],
      ss_Instances =
        [\<lparr>si_ID = ''a'', si_Address = ''10.0.0.1'', si_Port = 80, si_Tags = [''caddy-consul''],
          si_Meta = [(''caddy-host'', ''w.io'')], si_Healthy = True, si_Weight = 1, si_NodeName = ''n1''\<rparr>,
         \<lparr>si_ID = ''b'', si_Address = ''10.0.0.2'', si_Port = 80, si_Tags = [''caddy-consul''],
          si_Meta = [(''caddy-host'', ''w.io'')], si_Healthy = True, si_Weight = 1, si_NodeName = ''n2''\<rparr>],
      ss_LastIndex = 7\<rparr>"

theorem ParseServiceRoutes_correct_witness:
  "\<exists>rd. ParseServiceRoutes (Some example_service) ''caddy-consul'' ''c'' = Inr [rd] \<and>
        map up_Address (rd_Upstreams rd) = [''10.0.0.1:80'', ''10.0.0.2:80''] \<and>
        set (rd_Upstreams rd) =
          instance_upstream ` {inst \<in> set (ss_Instances example_service).
                                 contributes (ss_Name example_service) ''caddy-consul'' ''c'' inst rd}"
proof -
  define rd where "rd = (case ParseServiceRoutes (Some example_service) ''caddy-consul'' ''c'' of
    Inr (r # _) \<Rightarrow> r | _ \<Rightarrow> zero_route)"
  have p: "ParseServiceRoutes (Some example_service) ''caddy-consul'' ''c'' = Inr [rd]"
    unfolding rd_def by code_simp
  have "map up_Address (rd_Upstreams rd) = [''10.0.0.1:80'', ''10.0.0.2:80'']"
    unfolding rd_def by code_simp
  with p ParseServiceRoutes_correct [OF p] show ?thesis by simp
qed

text \<open>C35: Parsing a service panics exactly when a healthy instance with an address carries a tag that is
  \<open>urlprefix-\<close> followed by white space only; whatever else the metadata and tags hold, it returns.\<close>

theorem ParseServiceRoutes_panic_iff:
  "(\<exists>p. ParseServiceRoutes svc st ct = Inl p) \<longleftrightarrow>
   (\<exists>s inst t. svc = Some s \<and> inst \<in> set (ss_Instances s) \<and> si_Healthy inst \<and> si_Address inst \<noteq> [] \<and>
      t \<in> set (si_Tags inst) \<and> HasPrefix t ''urlprefix-'' \<and> TrimPrefix t ''urlprefix-'' \<noteq> [] \<and>
      list_all is_space (TrimPrefix t ''urlprefix-''))"
proof (cases svc)
  case None
  then show ?thesis by (simp add: ParseServiceRoutes_def)
next
  case (Some s)
  then show ?thesis
    using ParseServiceRoutes_panics [of s st ct] by (auto simp: blank_tag_def)
qed

text \<open>When the indices are written without leading zeros, the routes of indexed metadata do not
  depend on the order in which Go iterates over the metadata map, and they come in increasing order
  of their index.\<close>

theorem parseIndexedMeta_deterministic:
  assumes "gomap_ok meta" and "\<forall>k \<in> keys meta. canonical_key k" and "mset meta = mset meta'"
  shows "parseIndexedMeta meta = parseIndexedMeta meta' \<and>
         parseIndexedMeta meta =
           map (\<lambda>i. parseIndexedFields (get_or [] (foldl index_add [] meta) i))
             (sorted_list_of_set {i. \<exists>k f. k \<in> keys meta \<and> index_pair k = Some (i, f)})"
proof -
  have "fst ` fst ` set (index_entries meta) = {i. \<exists>k f. k \<in> keys meta \<and> index_pair k = Some (i, f)}"
    by (force simp: index_entries_def List.map_filter_def image_iff)
  then show ?thesis
    using parseIndexedMeta_perm [OF canonical_distinct [OF assms(1,2)] assms(3)]
      parseIndexedMeta_entries [of meta] by simp
qed

theorem parseIndexedMeta_deterministic_witness:
  "map rd_Host (parseIndexedMeta [(''caddy-route-1-host'', ''b''), (''caddy-route-0-host'', ''a'')]) = [''a'', ''b''] \<and>
   parseIndexedMeta [(''caddy-route-1-host'', ''b''), (''caddy-route-0-host'', ''a'')] =
   parseIndexedMeta [(''caddy-route-0-host'', ''a''), (''caddy-route-1-host'', ''b'')]"
proof -
  let ?m = "[(''caddy-route-1-host'', ''b''), (''caddy-route-0-host'', ''a'')]"
  let ?m' = "[(''caddy-route-0-host'', ''a''), (''caddy-route-1-host'', ''b'')]"
  have i: "indexedKey ''caddy-route-1-host'' = Some (''1'', ''host'')"
    "indexedKey ''caddy-route-0-host'' = Some (''0'', ''host'')"
    "Atoi ''1'' = Some 1" "Atoi ''0'' = Some 0" "Itoa 1 = ''1''" "Itoa 0 = ''0''" by code_simp+
  have "gomap_ok ?m" "\<forall>k \<in> keys ?m. canonical_key k" "mset ?m = mset ?m'"
    using i by (simp_all add: canonical_key_def)
  moreover have "map rd_Host (parseIndexedMeta ?m) = [''a'', ''b'']" by code_simp
  ultimately show ?thesis using parseIndexedMeta_deterministic [of ?m ?m'] by blast
qed

text \<open>With leading zeros the outcome depends on the iteration order: \<open>caddy-route-1-host\<close> and
  \<open>caddy-route-01-host\<close> set the same field of the same route, and the key visited last wins.\<close>

theorem parseIndexedMeta_order_dependent:
  "\<exists>meta meta'. gomap_ok meta \<and> mset meta = mset meta' \<and> parseIndexedMeta meta \<noteq> parseIndexedMeta meta'"
proof -
  let ?m = "[(''caddy-route-1-host'', ''a''), (''caddy-route-01-host'', ''b'')]"
  let ?m' = "[(''caddy-route-01-host'', ''b''), (''caddy-route-1-host'', ''a'')]"
  have "map rd_Host (parseIndexedMeta ?m) = [''b'']" "map rd_Host (parseIndexedMeta ?m') = [''a'']"
    by code_simp+
  then have "parseIndexedMeta ?m \<noteq> parseIndexedMeta ?m'" by auto
  then show ?thesis by (intro exI [of _ ?m] exI [of _ ?m']) simp
qed



end
