(* ===== verification/Route_Table.thy ===== *)
theory Route_Table
  imports Route_Types "HOL-Library.Product_Lexorder"
begin

text \<open>
  \<open>route_table.go\<close>: the in-memory HTTP route table that the \<open>consul_proxy\<close> and
  \<open>consul_route_info\<close> handlers search on every request. \<open>Update\<close> replaces the whole set under the
  lock and \<open>Match\<close> reads it under the read lock, so each is one atomic step of the model.
\<close>

subsection \<open>Model\<close>

record RouteTable =
  rt_routes :: "CompiledHTTPRoute list"

definition NewRouteTable :: RouteTable where
  "NewRouteTable = \<lparr>rt_routes = []\<rparr>"

definition Update :: "RouteTable \<Rightarrow> CompiledHTTPRoute list \<Rightarrow> RouteTable" where
  "Update rt routes = rt\<lparr>rt_routes := routes\<rparr>"

definition Routes :: "RouteTable \<Rightarrow> CompiledHTTPRoute list" where
  "Routes rt = rt_routes rt"

definition Len :: "RouteTable \<Rightarrow> nat" where
  "Len rt = length (rt_routes rt)"

definition routeHasPort :: "string \<Rightarrow> bool" where
  "routeHasPort pattern =
     (if pattern = [] then False
      else let idx = LastIndex pattern (CHR '':'') in
           if idx < 0 \<or> idx = int (length pattern) - 1 then False
           else list_all is_digit (drop (nat (idx + 1)) pattern))"

definition matchHost :: "string \<Rightarrow> string \<Rightarrow> bool" where
  "matchHost pattern host =
     (if pattern = [] then True
      else let p = ToLower pattern in
           if HasPrefix p ''*.''
           then let suffix = drop 1 p in HasSuffix host suffix \<and> host \<noteq> drop 1 suffix
           else p = host)"

text \<open>The host without its port: everything before the last colon, unless that colon comes first.\<close>

definition host_only :: "string \<Rightarrow> string" where
  "host_only host =
     (let idx = LastIndex host (CHR '':'') in if idx > 0 then take (nat idx) host else host)"

text \<open>One round of the loop over the routes, on \<open>(bestMatch, bestPathLen, bestHasPort)\<close>.\<close>

definition match_step ::
  "string \<Rightarrow> string \<Rightarrow> string \<Rightarrow> CompiledHTTPRoute option \<times> int \<times> bool \<Rightarrow> CompiledHTTPRoute \<Rightarrow>
   CompiledHTTPRoute option \<times> int \<times> bool" where
  "match_step host hostOnly path best r =
     (case best of (bestMatch, bestPathLen, bestHasPort) \<Rightarrow>
        let hasPort = routeHasPort (ch_Host r) in
        if (if hasPort then \<not> matchHost (ch_Host r) host else \<not> matchHost (ch_Host r) hostOnly)
        then best
        else
          let routePath = ch_Path r in
          case (if routePath = [] \<or> routePath = ''/'' then Some 0
                else if HasPrefix path routePath then Some (int (length routePath))
                else None) of
            None \<Rightarrow> best
          | Some pathLen \<Rightarrow>
              if bestMatch = None \<or> (hasPort \<and> \<not> bestHasPort) \<or>
                 (hasPort = bestHasPort \<and> pathLen > bestPathLen)
              then (Some r, pathLen, hasPort)
              else best)"

definition Match :: "RouteTable \<Rightarrow> string \<Rightarrow> string \<Rightarrow> CompiledHTTPRoute option" where
  "Match rt host path =
     (let host' = ToLower host;
          path' = (if path = [] then ''/'' else path)
      in fst (foldl (match_step host' (host_only host') path') (None, - 1, False) (rt_routes rt)))"

lemmas [go_eval] = NewRouteTable_def Update_def Routes_def Len_def routeHasPort_def matchHost_def
  host_only_def match_step_def Match_def

subsection \<open>Which routes a request can take, and how they rank\<close>

definition path_matches :: "string \<Rightarrow> CompiledHTTPRoute \<Rightarrow> bool" where
  "path_matches path r \<longleftrightarrow> ch_Path r = [] \<or> ch_Path r = ''/'' \<or> HasPrefix path (ch_Path r)"

definition path_weight :: "CompiledHTTPRoute \<Rightarrow> nat" where
  "path_weight r = (if ch_Path r = ''/'' then 0 else length (ch_Path r))"

definition request_matches :: "string \<Rightarrow> string \<Rightarrow> CompiledHTTPRoute \<Rightarrow> bool" where
  "request_matches host path r \<longleftrightarrow>
     matchHost (ch_Host r)
       (if routeHasPort (ch_Host r) then ToLower host else host_only (ToLower host)) \<and>
     path_matches (if path = [] then ''/'' else path) r"

text \<open>A pattern with a port beats one without; then the longer path wins.\<close>

definition route_rank :: "CompiledHTTPRoute \<Rightarrow> bool \<times> nat" where
  "route_rank r = (routeHasPort (ch_Host r), path_weight r)"

text \<open>The loop state that belongs to a best route so far.\<close>

definition loop_state :: "CompiledHTTPRoute option \<Rightarrow> CompiledHTTPRoute option \<times> int \<times> bool" where
  "loop_state b =
     (case b of None \<Rightarrow> (None, - 1, False)
      | Some r \<Rightarrow> (Some r, int (path_weight r), routeHasPort (ch_Host r)))"

lemma match_step_keep_best:
  "match_step (ToLower host) (host_only (ToLower host)) (if path = [] then ''/'' else path) (loop_state b) r =
   loop_state (keep_best (request_matches host path) route_rank b r)"
  by (cases b)
    (auto simp: match_step_def loop_state_def keep_best_def request_matches_def route_rank_def
      path_matches_def path_weight_def Let_def less_prod_def)

lemma foldl_match_step:
  "foldl (match_step (ToLower host) (host_only (ToLower host)) (if path = [] then ''/'' else path)) (loop_state b) rs =
   loop_state (foldl (keep_best (request_matches host path) route_rank) b rs)"
  by (induction rs arbitrary: b) (simp_all only: foldl_Nil foldl_Cons match_step_keep_best)

lemma Match_foldl:
  "Match rt host path = foldl (keep_best (request_matches host path) route_rank) None (rt_routes rt)"
proof -
  have "(None, - 1, False) = loop_state None" by (simp add: loop_state_def)
  then have "Match rt host path =
    fst (loop_state (foldl (keep_best (request_matches host path) route_rank) None (rt_routes rt)))"
    by (simp only: Match_def Let_def foldl_match_step)
  then show ?thesis by (simp add: loop_state_def split: option.split)
qed

lemma Match_first_best: "first_best (request_matches host path) route_rank (rt_routes rt) (Match rt host path)"
  unfolding Match_foldl by (rule first_best_foldl)

subsection \<open>Host patterns\<close>

lemma matchHost_wildcard:
  assumes "ToLower p = ''*.'' @ d"
  shows "matchHost p host \<longleftrightarrow> (\<exists>l. host = l @ CHR ''.'' # d)"
proof -
  have "p \<noteq> []" using assms by auto
  then show ?thesis
    using assms by (auto simp: matchHost_def HasSuffix_iff HasPrefix_def Let_def)
qed

lemma matchHost_exact:
  "p \<noteq> [] \<Longrightarrow> \<not> HasPrefix (ToLower p) ''*.'' \<Longrightarrow> matchHost p host \<longleftrightarrow> host = ToLower p"
  by (auto simp: matchHost_def)

lemma wildcard_not_apex: "ToLower p = ''*.'' @ d \<Longrightarrow> \<not> matchHost p d"
  by (simp add: matchHost_wildcard)

lemma routeHasPort_iff:
  "routeHasPort s \<longleftrightarrow> (\<exists>h p. s = h @ CHR '':'' # p \<and> p \<noteq> [] \<and> list_all is_digit p)"
proof (cases s "CHR '':''" rule: LastIndex_cases)
  case absent
  then show ?thesis by (auto simp: routeHasPort_def)
next
  case (found b a)
  have eq: "h = b \<and> p = a" if "b @ CHR '':'' # a = h @ CHR '':'' # p" "list_all is_digit p" for h p
  proof -
    from that(2) have "CHR '':'' \<notin> set p" using not_digit_sign(4) by (auto simp: list_all_iff)
    with that(1) found(2) show ?thesis
      by (auto simp: append_eq_append_conv2 Cons_eq_append_conv append_eq_Cons_conv)
  qed
  have "routeHasPort s \<longleftrightarrow> a \<noteq> [] \<and> list_all is_digit a"
    using found by (auto simp: routeHasPort_def nat_add_distrib)
  also have "\<dots> \<longleftrightarrow> (\<exists>h p. s = h @ CHR '':'' # p \<and> p \<noteq> [] \<and> list_all is_digit p)"
    unfolding found(1) using eq by (metis (full_types))
  finally show ?thesis .
qed

lemma host_only_port: "h \<noteq> [] \<Longrightarrow> CHR '':'' \<notin> set p \<Longrightarrow> host_only (h @ CHR '':'' # p) = h"
  by (simp add: host_only_def LastIndex_append)

lemma host_only_plain: "CHR '':'' \<notin> set h \<Longrightarrow> host_only h = h"
  by (simp add: host_only_def)

subsection \<open>The interface the handlers use\<close>

text \<open>
  What a request handler may rely on: a published route set is what look-ups see, a result is one of
  the published routes and fits the request, and no result means that no published route fits.
\<close>

locale route_lookup =
  fixes publish :: "'t \<Rightarrow> CompiledHTTPRoute list \<Rightarrow> 't"
    and lookup :: "'t \<Rightarrow> string \<Rightarrow> string \<Rightarrow> CompiledHTTPRoute option"
    and published :: "'t \<Rightarrow> CompiledHTTPRoute list"
  assumes published_publish: "published (publish t rs) = rs"
    and lookup_sound: "lookup t host path = Some r \<Longrightarrow> r \<in> set (published t) \<and> request_matches host path r"
    and lookup_complete: "lookup t host path = None \<Longrightarrow> r \<in> set (published t) \<Longrightarrow> \<not> request_matches host path r"
begin

lemma lookup_published:
  "lookup (publish t rs) host path = Some r \<Longrightarrow> r \<in> set rs \<and> request_matches host path r"
  using lookup_sound [of "publish t rs" host path r] by (simp add: published_publish)

lemma lookup_all:
  "\<forall>r \<in> set rs. P r \<Longrightarrow> lookup (publish t rs) host path = Some r \<Longrightarrow> P r"
  using lookup_published by blast

lemma lookup_None_iff:
  "lookup (publish t rs) host path = None \<longleftrightarrow> (\<forall>r \<in> set rs. \<not> request_matches host path r)"
proof
  assume "lookup (publish t rs) host path = None"
  then show "\<forall>r \<in> set rs. \<not> request_matches host path r"
    using lookup_complete [of "publish t rs"] by (auto simp: published_publish)
next
  assume *: "\<forall>r \<in> set rs. \<not> request_matches host path r"
  then show "lookup (publish t rs) host path = None"
    using lookup_published [of t rs host path] by (cases "lookup (publish t rs) host path") auto
qed

end

interpretation http_table: route_lookup Update Match Routes
proof unfold_locales
  fix rt :: RouteTable and host path r
  have fb: "first_best (request_matches host path) route_rank (rt_routes rt) (Match rt host path)"
    by (rule Match_first_best)
  show "Match rt host path = Some r \<Longrightarrow> r \<in> set (Routes rt) \<and> request_matches host path r"
    using fb first_best_in_set by (fastforce simp: Routes_def)
  show "Match rt host path = None \<Longrightarrow> r \<in> set (Routes rt) \<Longrightarrow> \<not> request_matches host path r"
    using fb by (simp add: Routes_def first_best_def)
qed (simp add: Routes_def Update_def)

subsection \<open>Properties\<close>


text \<open>A host pattern matches a (lower-case) host exactly when it is empty, or it is \<open>*.d\<close> and the
  host ends in \<open>.d\<close>, or it is the host itself up to case; so \<open>*.d\<close> matches subdomains of any depth and
  never \<open>d\<close> itself.\<close>

theorem matchHost_correct:
  "(matchHost pattern host \<longleftrightarrow>
      pattern = [] \<or>
      (\<exists>d l. ToLower pattern = ''*.'' @ d \<and> host = l @ CHR ''.'' # d) \<or>
      (\<not> HasPrefix (ToLower pattern) ''*.'' \<and> host = ToLower pattern)) \<and>
   (\<forall>d. ToLower pattern = ''*.'' @ d \<longrightarrow> \<not> matchHost pattern d)"
proof -
  consider "pattern = []" | d where "ToLower pattern = ''*.'' @ d"
    | "pattern \<noteq> []" "\<not> HasPrefix (ToLower pattern) ''*.''"
    by (auto simp: HasPrefix_iff)
  then show ?thesis
  proof cases
    case 1
    then show ?thesis by (simp add: matchHost_def)
  next
    case (2 d)
    then have "pattern \<noteq> []" "HasPrefix (ToLower pattern) ''*.''"
      by (auto simp: HasPrefix_iff)
    with 2 show ?thesis by (auto simp: matchHost_wildcard [OF 2] wildcard_not_apex)
  next
    case 3
    then show ?thesis by (auto simp: matchHost_exact HasPrefix_iff)
  qed
qed

theorem matchHost_correct_witness:
  "matchHost ''*.Example.com'' ''a.b.example.com'' \<and> \<not> matchHost ''*.Example.com'' ''example.com''"
proof -
  have "ToLower ''*.Example.com'' = ''*.'' @ ''example.com''" by code_simp
  moreover have "''a.b.example.com'' = ''a.b'' @ CHR ''.'' # ''example.com''" by simp
  ultimately show ?thesis using matchHost_correct [of "''*.Example.com''"] by blast
qed

text \<open>The documented rule that an exact host beats a wildcard does not hold: of two routes with the
  same path, the one that the compiler sorted first wins, here the wildcard.\<close>

theorem Match_wildcard_beats_exact:
  "\<exists>wild exact. ch_Host wild = ''*.example.com'' \<and> ch_Host exact = ''api.example.com'' \<and>
     ch_Path wild = ch_Path exact \<and> wild \<noteq> exact \<and>
     (\<forall>rt. Match (Update rt [wild, exact]) ''api.example.com'' ''/'' = Some wild)"
proof -
  define mk where "mk h = \<lparr>ch_Host = h, ch_Path = ''/'', ch_Upstreams = [], ch_StripPrefix = False,
    ch_ServiceName = [], ch_Via = [], ch_RedirectCode = 0, ch_RedirectURL = [], ch_RedirectNoCache = False,
    ch_NoCacheMatcher = None, ch_NoCacheOptOut = False, ch_TagValues = []\<rparr>" for h
  have "Match (Update rt [mk ''*.example.com'', mk ''api.example.com'']) ''api.example.com'' ''/'' =
        Some (mk ''*.example.com'')" for rt
    by (simp add: go_eval mk_def)
  then show ?thesis
    by (intro exI [of _ "mk ''*.example.com''"] exI [of _ "mk ''api.example.com''"]) (simp add: mk_def)
qed

text \<open>A request whose host is an IPv6 literal without a port never reaches a route for that literal:
  the part after its last colon is cut off as if it were a port. With a port the same route matches.\<close>

theorem Match_ipv6_without_port:
  "ch_Host r = ''[2001:db8::1]'' \<Longrightarrow>
   Match (Update rt [r]) ''[2001:db8::1]'' path = None \<and>
   (ch_Path r = ''/'' \<longrightarrow> Match (Update rt [r]) ''[2001:db8::1]:8443'' path = Some r)"
  by (simp add: Match_foldl keep_best_def request_matches_def path_matches_def Update_def
      routeHasPort_def matchHost_def host_only_def LastIndex_def HasPrefix_def ToLower_def
      lower_char_def is_digit_def)

theorem Match_ipv6_without_port_witness:
  "\<exists>r. ch_Host r = ''[2001:db8::1]'' \<and> Match (Update NewRouteTable [r]) ''[2001:db8::1]'' ''/'' = None"
proof -
  define r where "r = \<lparr>ch_Host = ''[2001:db8::1]'', ch_Path = ''/'', ch_Upstreams = [], ch_StripPrefix = False,
    ch_ServiceName = [], ch_Via = [], ch_RedirectCode = 0, ch_RedirectURL = [], ch_RedirectNoCache = False,
    ch_NoCacheMatcher = None, ch_NoCacheOptOut = False, ch_TagValues = []\<rparr>"
  have "ch_Host r = ''[2001:db8::1]''" by (simp add: r_def)
  then show ?thesis using Match_ipv6_without_port [of r NewRouteTable "''/''"] by blast
qed

end
