(* ===== verification/TCP_Table.thy ===== *)
theory TCP_Table
  imports Route_Table
begin

text \<open>
  \<open>tcp_table.go\<close>: the TCP routes grouped by listener port, and the choice of a route for a
  connection from the (possibly empty) server name its ClientHello carries.
\<close>

subsection \<open>Model\<close>

record tcpPortRoutes =
  pr_port :: int
  pr_routes :: "CompiledTCPRoute list"
  pr_anySNI :: bool

record TCPTable =
  byPort :: "(int, tcpPortRoutes) gomap"

definition NewTCPTable :: TCPTable where
  "NewTCPTable = \<lparr>byPort = []\<rparr>"

text \<open>One round of the grouping loop of \<open>Update\<close>.\<close>

definition tcp_add :: "(int, tcpPortRoutes) gomap \<Rightarrow> CompiledTCPRoute \<Rightarrow> (int, tcpPortRoutes) gomap" where
  "tcp_add m r =
     (let pr = (case map_of m (ct_Port r) of
                  None \<Rightarrow> \<lparr>pr_port = ct_Port r, pr_routes = [], pr_anySNI = False\<rparr>
                | Some pr \<Rightarrow> pr);
          pr' = pr\<lparr>pr_routes := pr_routes pr @ [r]\<rparr>;
          pr'' = (if ct_SNI r \<noteq> [] then pr'\<lparr>pr_anySNI := True\<rparr> else pr')
      in AList.update (ct_Port r) pr'' m)"

definition TCPTable_Update :: "TCPTable \<Rightarrow> CompiledTCPRoute list \<Rightarrow> TCPTable" where
  "TCPTable_Update t routes = t\<lparr>byPort := foldl tcp_add [] routes\<rparr>"

definition TCPTable_Lookup :: "TCPTable \<Rightarrow> int \<Rightarrow> tcpPortRoutes option" where
  "TCPTable_Lookup t port = map_of (byPort t) port"

definition TCPTable_Ports :: "TCPTable \<Rightarrow> int list" where
  "TCPTable_Ports t = map fst (byPort t)"

definition TCPTable_Len :: "TCPTable \<Rightarrow> nat" where
  "TCPTable_Len t = length (byPort t)"

definition TCPTable_Snapshot :: "TCPTable \<Rightarrow> CompiledTCPRoute list" where
  "TCPTable_Snapshot t = concat (map (\<lambda>(p, pr). pr_routes pr) (byPort t))"

text \<open>The loop of \<open>match\<close> with its two remembered routes; an exact match returns at once.\<close>

fun tcp_match_loop ::
  "string \<Rightarrow> CompiledTCPRoute option \<Rightarrow> CompiledTCPRoute option \<Rightarrow> CompiledTCPRoute list \<Rightarrow>
   CompiledTCPRoute option" where
  "tcp_match_loop sni wildcard dflt [] = (if wildcard \<noteq> None then wildcard else dflt)"
| "tcp_match_loop sni wildcard dflt (r # rs) =
     (if ct_SNI r = [] then tcp_match_loop sni wildcard (if dflt = None then Some r else dflt) rs
      else if ToLower (ct_SNI r) = sni then Some r
      else if HasPrefix (ct_SNI r) ''*.'' \<and> matchHost (ct_SNI r) sni
      then tcp_match_loop sni (if wildcard = None then Some r else wildcard) dflt rs
      else tcp_match_loop sni wildcard dflt rs)"

definition tcp_match :: "tcpPortRoutes \<Rightarrow> string \<Rightarrow> CompiledTCPRoute option" where
  "tcp_match p sni =
     (if \<not> pr_anySNI p then (case pr_routes p of [] \<Rightarrow> None | r # _ \<Rightarrow> Some r)
      else tcp_match_loop (ToLower sni) None None (pr_routes p))"

lemmas [go_eval] = NewTCPTable_def tcp_add_def TCPTable_Update_def TCPTable_Lookup_def
  TCPTable_Ports_def TCPTable_Len_def TCPTable_Snapshot_def tcp_match_def

subsection \<open>Grouping by port\<close>

definition port_group :: "CompiledTCPRoute list \<Rightarrow> int \<Rightarrow> tcpPortRoutes option" where
  "port_group rs p =
     (let fs = filter (\<lambda>r. ct_Port r = p) rs in
      if fs = [] then None
      else Some \<lparr>pr_port = p, pr_routes = fs, pr_anySNI = (\<exists>r \<in> set fs. ct_SNI r \<noteq> [])\<rparr>)"

lemma grouped_map_of: "map_of (foldl tcp_add [] rs) p = port_group rs p"
proof (induction rs arbitrary: p rule: rev_induct)
  case Nil
  then show ?case by (simp add: port_group_def)
next
  case (snoc r rs)
  have "map_of (foldl tcp_add [] (rs @ [r])) p = map_of (tcp_add (foldl tcp_add [] rs) r) p" by simp
  also have "\<dots> = port_group (rs @ [r]) p"
    by (auto simp: tcp_add_def snoc port_group_def Let_def update_conv' filter_empty_conv)
  finally show ?case .
qed

lemma grouped_ok: "gomap_ok (foldl tcp_add [] rs)"
  by (induction rs rule: rev_induct) (simp_all add: tcp_add_def Let_def)

lemma grouped_keys: "keys (foldl tcp_add [] rs) = ct_Port ` set rs"
proof -
  have "keys (foldl tcp_add [] rs) = dom (map_of (foldl tcp_add [] rs))"
    by (simp add: dom_map_of_conv_image_fst)
  also have "\<dots> = {p. port_group rs p \<noteq> None}" by (simp add: dom_def grouped_map_of)
  also have "\<dots> = ct_Port ` set rs" by (auto simp: port_group_def Let_def filter_empty_conv)
  finally show ?thesis .
qed

lemma mset_concat_update:
  "gomap_ok m \<Longrightarrow>
   mset (concat (map f (AList.update k v m))) + (case map_of m k of None \<Rightarrow> {#} | Some w \<Rightarrow> mset (f (k, w))) =
   mset (concat (map f m)) + mset (f (k, v))"
  by (induction m) (auto simp: split: option.splits)

lemma grouped_mset: "mset (concat (map (\<lambda>(p, pr). pr_routes pr) (foldl tcp_add [] rs))) = mset rs"
proof (induction rs rule: rev_induct)
  case (snoc r rs)
  let ?m = "foldl tcp_add [] rs"
  define pr where "pr = (case map_of ?m (ct_Port r) of
    None \<Rightarrow> \<lparr>pr_port = ct_Port r, pr_routes = [], pr_anySNI = False\<rparr> | Some pr \<Rightarrow> pr)"
  obtain pr'' where upd: "tcp_add ?m r = AList.update (ct_Port r) pr'' ?m" "pr_routes pr'' = pr_routes pr @ [r]"
    by (simp add: tcp_add_def pr_def Let_def)
  from mset_concat_update [OF grouped_ok, of "\<lambda>(p, pr). pr_routes pr" "ct_Port r" pr'' rs] snoc upd(2)
  have "mset (concat (map (\<lambda>(p, pr). pr_routes pr) (AList.update (ct_Port r) pr'' ?m))) + mset (pr_routes pr) =
        mset rs + mset (pr_routes pr @ [r])"
    by (auto simp: pr_def split: option.splits)
  then show ?case by (simp add: upd(1))
qed simp

subsection \<open>Choosing a route\<close>

definition sni_exact :: "string \<Rightarrow> CompiledTCPRoute \<Rightarrow> bool" where
  "sni_exact sni r \<longleftrightarrow> ct_SNI r \<noteq> [] \<and> ToLower (ct_SNI r) = ToLower sni"

definition sni_wildcard :: "string \<Rightarrow> CompiledTCPRoute \<Rightarrow> bool" where
  "sni_wildcard sni r \<longleftrightarrow> HasPrefix (ct_SNI r) ''*.'' \<and> matchHost (ct_SNI r) (ToLower sni)"

definition sni_candidate :: "string \<Rightarrow> CompiledTCPRoute \<Rightarrow> bool" where
  "sni_candidate sni r \<longleftrightarrow> ct_SNI r = [] \<or> sni_exact sni r \<or> sni_wildcard sni r"

definition sni_rank :: "string \<Rightarrow> CompiledTCPRoute \<Rightarrow> nat" where
  "sni_rank sni r = (if sni_exact sni r then 2 else if sni_wildcard sni r then 1 else 0)"

lemma first_best_Cons_max:
  "cand r \<Longrightarrow> \<forall>v \<in> set rs. cand v \<longrightarrow> rank v \<le> rank r \<Longrightarrow> first_best cand rank (r # rs) (Some r)"
  by (rule first_bestI [of _ "[]"]) auto

text \<open>Scanning on from a best route so far is the same as scanning the whole list.\<close>

definition remembered :: "CompiledTCPRoute option \<Rightarrow> CompiledTCPRoute option \<Rightarrow> CompiledTCPRoute option" where
  "remembered wildcard dflt = (if wildcard \<noteq> None then wildcard else dflt)"

lemma keep_best_max:
  assumes "cand b" and "\<forall>x \<in> set rs. cand x \<longrightarrow> rank x \<le> rank b"
  shows "foldl (keep_best cand rank) (Some b) rs = Some b"
  using assms(2)
proof (induction rs)
  case (Cons x rs)
  then have "keep_best cand rank (Some b) x = Some b"
    by (auto simp: keep_best_def)
  with Cons show ?case by simp
qed simp

lemma sni_rank_le: "sni_rank sni r \<le> 2"
  by (simp add: sni_rank_def)

lemma tcp_match_loop_foldl:
  assumes "\<forall>w. wildcard = Some w \<longrightarrow> sni_wildcard sni w \<and> \<not> sni_exact sni w"
    and "\<forall>d. dflt = Some d \<longrightarrow> ct_SNI d = []"
  shows "tcp_match_loop (ToLower sni) wildcard dflt rs =
         foldl (keep_best (sni_candidate sni) (sni_rank sni)) (remembered wildcard dflt) rs"
  using assms
proof (induction rs arbitrary: wildcard dflt)
  case Nil
  then show ?case by (simp add: remembered_def)
next
  case (Cons r rs)
  let ?keep = "keep_best (sni_candidate sni) (sni_rank sni)"
  consider (dflt) "ct_SNI r = []" | (exact) "sni_exact sni r"
    | (wild) "\<not> sni_exact sni r" "sni_wildcard sni r" "ct_SNI r \<noteq> []"
    | (none) "\<not> sni_candidate sni r" "ct_SNI r \<noteq> []"
    by (auto simp: sni_candidate_def)
  then show ?case
  proof cases
    case dflt
    then have "?keep (remembered wildcard dflt) r =
               remembered wildcard (if dflt = None then Some r else dflt)"
      by (auto simp: keep_best_def remembered_def sni_candidate_def sni_rank_def sni_exact_def
          sni_wildcard_def HasPrefix_def split: option.splits)
    with dflt Cons show ?thesis by simp
  next
    case exact
    have lower: "sni_rank sni b < 2" if "remembered wildcard dflt = Some b" for b
      using that Cons.prems
      by (auto simp: remembered_def sni_rank_def sni_exact_def split: if_splits)
    have "?keep (remembered wildcard dflt) r = Some r"
      using exact lower by (auto simp: keep_best_def sni_candidate_def sni_rank_def split: option.splits)
    moreover have "foldl ?keep (Some r) rs = Some r"
      using exact sni_rank_le by (intro keep_best_max) (auto simp: sni_candidate_def sni_rank_def)
    ultimately show ?thesis using exact by (simp add: sni_exact_def)
  next
    case wild
    then have "?keep (remembered wildcard dflt) r =
               remembered (if wildcard = None then Some r else wildcard) dflt"
      using Cons.prems
      by (auto simp: keep_best_def remembered_def sni_candidate_def sni_rank_def sni_exact_def
          sni_wildcard_def HasPrefix_def split: option.splits)
    with wild Cons show ?thesis by (auto simp: sni_exact_def sni_wildcard_def)
  next
    case none
    then have "?keep (remembered wildcard dflt) r = remembered wildcard dflt"
      by (simp add: keep_best_def)
    moreover have "tcp_match_loop (ToLower sni) wildcard dflt (r # rs) = tcp_match_loop (ToLower sni) wildcard dflt rs"
      using none by (auto simp: sni_candidate_def sni_exact_def sni_wildcard_def)
    ultimately show ?thesis using Cons.IH [OF Cons.prems] by simp
  qed
qed

lemma tcp_match_first_best:
  assumes "pr_anySNI p \<longleftrightarrow> (\<exists>r \<in> set (pr_routes p). ct_SNI r \<noteq> [])"
  shows "first_best (sni_candidate sni) (sni_rank sni) (pr_routes p) (tcp_match p sni)"
proof (cases "pr_anySNI p")
  case True
  then have "tcp_match p sni = foldl (keep_best (sni_candidate sni) (sni_rank sni)) None (pr_routes p)"
    by (simp add: tcp_match_def tcp_match_loop_foldl remembered_def)
  then show ?thesis by (simp add: first_best_foldl)
next
  case False
  with assms have plain: "\<forall>r \<in> set (pr_routes p). ct_SNI r = []" by auto
  then have "\<forall>r \<in> set (pr_routes p). sni_candidate sni r \<and> sni_rank sni r = 0"
    by (auto simp: sni_candidate_def sni_rank_def sni_exact_def sni_wildcard_def HasPrefix_def)
  with False show ?thesis
    by (cases "pr_routes p") (auto simp: tcp_match_def intro!: first_best_Cons_max)
qed

lemma Lookup_Update: "TCPTable_Lookup (TCPTable_Update t rs) port = port_group rs port"
  by (simp add: TCPTable_Lookup_def TCPTable_Update_def grouped_map_of)

lemma Ports_Update:
  "set (TCPTable_Ports (TCPTable_Update t rs)) = ct_Port ` set rs"
  "distinct (TCPTable_Ports (TCPTable_Update t rs))"
  using grouped_keys [of rs] grouped_ok [of rs] by (simp_all add: TCPTable_Ports_def TCPTable_Update_def)

text \<open>Looking a port up and choosing a route, as \<open>tcpProxy.handle\<close> does.\<close>

definition tcp_route :: "TCPTable \<Rightarrow> int \<Rightarrow> string \<Rightarrow> CompiledTCPRoute option" where
  "tcp_route t port sni = (case TCPTable_Lookup t port of None \<Rightarrow> None | Some pr \<Rightarrow> tcp_match pr sni)"

lemma tcp_route_first_best:
  "first_best (sni_candidate sni) (sni_rank sni) (filter (\<lambda>r. ct_Port r = port) rs)
     (tcp_route (TCPTable_Update t rs) port sni)"
proof (cases "filter (\<lambda>r. ct_Port r = port) rs = []")
  case True
  then show ?thesis by (simp add: tcp_route_def Lookup_Update port_group_def)
next
  case False
  let ?pr = "\<lparr>pr_port = port, pr_routes = filter (\<lambda>r. ct_Port r = port) rs,
    pr_anySNI = (\<exists>r \<in> set (filter (\<lambda>r. ct_Port r = port) rs). ct_SNI r \<noteq> [])\<rparr>"
  from False have "tcp_route (TCPTable_Update t rs) port sni = tcp_match ?pr sni"
    by (simp add: tcp_route_def Lookup_Update port_group_def Let_def)
  then show ?thesis using tcp_match_first_best [of ?pr sni] by simp
qed

subsection \<open>Properties\<close>

text \<open>C22: After \<open>Update\<close>, the route chosen for a connection is exactly the first best among the routes of
  its port: an exact server name beats a wildcard, a wildcard beats the route without a server name,
  and within a class the first published route wins; there is none exactly when no route of the port
  fits.\<close>

theorem tcp_route_correct:
  "tcp_route (TCPTable_Update t rs) port sni = res \<longleftrightarrow>
   first_best (sni_candidate sni) (sni_rank sni) (filter (\<lambda>r. ct_Port r = port) rs) res"
  using tcp_route_first_best first_best_unique by metis

text \<open>\<open>Update\<close> partitions the routes by port: the ports are exactly those of the routes, each once; a
  port's entry holds exactly its routes in their order, and asks for the ClientHello exactly when one
  of them has a server name; the snapshot holds every route as often as it was published.\<close>

theorem TCPTable_Update_correct:
  "set (TCPTable_Ports (TCPTable_Update t rs)) = ct_Port ` set rs \<and>
   distinct (TCPTable_Ports (TCPTable_Update t rs)) \<and>
   TCPTable_Len (TCPTable_Update t rs) = card (ct_Port ` set rs) \<and>
   TCPTable_Lookup (TCPTable_Update t rs) port = port_group rs port \<and>
   mset (TCPTable_Snapshot (TCPTable_Update t rs)) = mset rs"
proof -
  have "TCPTable_Len (TCPTable_Update t rs) = card (ct_Port ` set rs)"
    using Ports_Update [of t rs] distinct_card
    by (fastforce simp: TCPTable_Len_def TCPTable_Ports_def)
  then show ?thesis
    by (simp add: Ports_Update Lookup_Update TCPTable_Snapshot_def)
      (simp add: TCPTable_Update_def grouped_mset)
qed

end
