(* ===== verification/Compiler.thy ===== *)
theory Compiler
  imports TCP_Table
begin

text \<open>
  \<open>compiler.go\<close>: route definitions of all services become the HTTP and TCP routes that are
  published. Routes compete for host and path, or for port and server name; the order of
  \<open>sort.Slice\<close> decides. That sort is not stable, so it is a parameter \<open>sortf\<close> of \<open>Compile\<close>: any
  function that permutes its input into an order without inversions (locale \<open>slice_sort\<close>).
\<close>

subsection \<open>Keys and ordering\<close>

definition httpRouteKey :: "string \<Rightarrow> string \<Rightarrow> string" where
  "httpRouteKey host path =
     (let host' = (if host = [] then ''*'' else host);
          path' = (if path = [] then ''/'' else path)
      in host' @ path')"

definition tcpRouteKey :: "int \<Rightarrow> string \<Rightarrow> string" where
  "tcpRouteKey port sni =
     (if sni = [] then '':'' @ Itoa port else '':'' @ Itoa port @ ''/'' @ sni)"

definition http_key :: "RouteDefinition \<Rightarrow> string" where
  "http_key r = httpRouteKey (rd_Host r) (rd_Path r)"

definition tcp_key :: "RouteDefinition \<Rightarrow> string" where
  "tcp_key r = tcpRouteKey (rd_Port r) (rd_Host r)"

text \<open>The comparison given to \<open>sort.Slice\<close>: higher priority first, then by service name.\<close>

definition route_less :: "RouteDefinition \<Rightarrow> RouteDefinition \<Rightarrow> bool" where
  "route_less a b =
     (if rd_Priority a \<noteq> rd_Priority b then rd_Priority a > rd_Priority b
      else rd_ServiceName a < rd_ServiceName b)"

subsection \<open>Compilation\<close>

definition resolveNoCacheMatcher :: "RouteDefinition \<Rightarrow> StatusMatcher option \<times> bool" where
  "resolveNoCacheMatcher r =
     (if \<not> rd_HasNoCacheStatus r then (None, False)
      else if rd_NoCacheStatusRaw r = [] then (None, True)
      else (case ParseStatusMatcher (rd_NoCacheStatusRaw r) of
              Inl e \<Rightarrow> (None, False)
            | Inr matcher \<Rightarrow> (matcher, False)))"

text \<open>The compiled form of a route that holds its claim; None when no upstream is healthy.\<close>

definition compile_http_route :: "RouteDefinition \<Rightarrow> CompiledHTTPRoute option" where
  "compile_http_route r =
     (case resolveNoCacheMatcher r of (noCacheMatcher, noCacheOptOut) \<Rightarrow>
        if IsRedirect r then
          Some \<lparr>ch_Host = rd_Host r, ch_Path = rd_Path r, ch_Upstreams = [],
                ch_StripPrefix = rd_StripPrefix r, ch_ServiceName = rd_ServiceName r,
                ch_Via = rd_Via r, ch_RedirectCode = rd_RedirectCode r,
                ch_RedirectURL = rd_RedirectURL r, ch_RedirectNoCache = rd_RedirectNoCache r,
                ch_NoCacheMatcher = noCacheMatcher, ch_NoCacheOptOut = noCacheOptOut,
                ch_TagValues = rd_TagValues r\<rparr>
        else
          let healthy = filter up_Healthy (rd_Upstreams r) in
          if healthy = [] then None
          else Some \<lparr>ch_Host = rd_Host r, ch_Path = rd_Path r, ch_Upstreams = healthy,
                     ch_StripPrefix = rd_StripPrefix r, ch_ServiceName = rd_ServiceName r,
                     ch_Via = rd_Via r, ch_RedirectCode = 0, ch_RedirectURL = [],
                     ch_RedirectNoCache = False, ch_NoCacheMatcher = noCacheMatcher,
                     ch_NoCacheOptOut = noCacheOptOut, ch_TagValues = rd_TagValues r\<rparr>)"

definition http_conflict :: "string \<Rightarrow> RouteDefinition \<Rightarrow> RouteDefinition \<Rightarrow> Conflict" where
  "http_conflict key winner r =
     \<lparr>cf_Type = ConflictDuplicateHostPath, cf_Winner = winner, cf_Loser = r,
      cf_Reason = ''route for '' @ key @ '' already claimed by service '' @ rd_ServiceName winner @
                  '' (first-seen wins)''\<rparr>"

fun compileHTTPRoutes_loop ::
  "(string, RouteDefinition) gomap \<Rightarrow> RouteDefinition list \<Rightarrow> CompiledHTTPRoute list \<times> Conflict list" where
  "compileHTTPRoutes_loop claimed [] = ([], [])"
| "compileHTTPRoutes_loop claimed (r # rs) =
     (let key = httpRouteKey (rd_Host r) (rd_Path r) in
      case map_of claimed key of
        Some winner \<Rightarrow>
          (case compileHTTPRoutes_loop claimed rs of (compiled, conflicts) \<Rightarrow>
             (compiled, http_conflict key winner r # conflicts))
      | None \<Rightarrow>
          (case compileHTTPRoutes_loop (AList.update key r claimed) rs of (compiled, conflicts) \<Rightarrow>
             (case compile_http_route r of None \<Rightarrow> compiled | Some c \<Rightarrow> c # compiled, conflicts)))"

definition compileHTTPRoutes :: "RouteDefinition list \<Rightarrow> CompiledHTTPRoute list \<times> Conflict list" where
  "compileHTTPRoutes routes = compileHTTPRoutes_loop [] routes"

definition compile_tcp_route :: "RouteDefinition \<Rightarrow> CompiledTCPRoute option" where
  "compile_tcp_route r =
     (let healthy = filter up_Healthy (rd_Upstreams r) in
      if healthy = [] then None
      else Some \<lparr>ct_Port = rd_Port r, ct_SNI = rd_Host r, ct_Upstreams = healthy,
                 ct_Passthrough = (rd_Protocol r = ProtocolTLSPassthrough),
                 ct_ServiceName = rd_ServiceName r\<rparr>)"

definition tcp_conflict :: "string \<Rightarrow> RouteDefinition \<Rightarrow> RouteDefinition \<Rightarrow> Conflict" where
  "tcp_conflict key winner r =
     \<lparr>cf_Type = ConflictDuplicatePortSNI, cf_Winner = winner, cf_Loser = r,
      cf_Reason = ''TCP route for '' @ key @ '' already claimed by service '' @ rd_ServiceName winner @
                  '' (first-seen wins)''\<rparr>"

fun compileTCPRoutes_loop ::
  "(string, RouteDefinition) gomap \<Rightarrow> RouteDefinition list \<Rightarrow> CompiledTCPRoute list \<times> Conflict list" where
  "compileTCPRoutes_loop claimed [] = ([], [])"
| "compileTCPRoutes_loop claimed (r # rs) =
     (let key = tcpRouteKey (rd_Port r) (rd_Host r) in
      case map_of claimed key of
        Some winner \<Rightarrow>
          (case compileTCPRoutes_loop claimed rs of (compiled, conflicts) \<Rightarrow>
             (compiled, tcp_conflict key winner r # conflicts))
      | None \<Rightarrow>
          (case compileTCPRoutes_loop (AList.update key r claimed) rs of (compiled, conflicts) \<Rightarrow>
             (case compile_tcp_route r of None \<Rightarrow> compiled | Some c \<Rightarrow> c # compiled, conflicts)))"

definition compileTCPRoutes :: "RouteDefinition list \<Rightarrow> CompiledTCPRoute list \<times> Conflict list" where
  "compileTCPRoutes routes = compileTCPRoutes_loop [] routes"

definition is_http :: "RouteDefinition \<Rightarrow> bool" where
  "is_http r \<longleftrightarrow> rd_Protocol r = ProtocolHTTP \<or> rd_Protocol r = ProtocolHTTPS"

definition is_tcp :: "RouteDefinition \<Rightarrow> bool" where
  "is_tcp r \<longleftrightarrow> rd_Protocol r = ProtocolTCP \<or> rd_Protocol r = ProtocolTLSPassthrough"

definition unknown_warning :: "RouteDefinition \<Rightarrow> string" where
  "unknown_warning r =
     ''unknown protocol '' @ [CHR 0x27] @ rd_Protocol r @ [CHR 0x27] @ '' for service '' @ rd_ServiceName r @ '', skipping''"

definition Compile ::
  "(RouteDefinition list \<Rightarrow> RouteDefinition list) \<Rightarrow> RouteDefinition list \<Rightarrow> CompiledConfig" where
  "Compile sortf routes =
     (let sorted_routes = sortf routes;
          httpRoutes = filter is_http sorted_routes;
          tcpRoutes = filter is_tcp sorted_routes;
          warnings = map unknown_warning (filter (\<lambda>r. \<not> is_http r \<and> \<not> is_tcp r) sorted_routes)
      in case compileHTTPRoutes httpRoutes of (httpCompiled, httpConflicts) \<Rightarrow>
         case compileTCPRoutes tcpRoutes of (tcpCompiled, tcpConflicts) \<Rightarrow>
           \<lparr>cc_HTTPRoutes = httpCompiled, cc_TCPRoutes = tcpCompiled,
            cc_Conflicts = httpConflicts @ tcpConflicts, cc_Warnings = warnings\<rparr>)"

definition FilterTCPRoutesByNode :: "RouteDefinition list \<Rightarrow> string \<Rightarrow> RouteDefinition list" where
  "FilterTCPRoutesByNode routes nodeName =
     (if nodeName = [] then routes
      else filter (\<lambda>r. if rd_Protocol r \<noteq> ProtocolTCP \<and> rd_Protocol r \<noteq> ProtocolTLSPassthrough then True
                       else list_ex (\<lambda>u. up_NodeName u = nodeName) (rd_Upstreams r)) routes)"

lemmas [go_eval] = httpRouteKey_def tcpRouteKey_def route_less_def resolveNoCacheMatcher_def
  compile_http_route_def http_conflict_def compileHTTPRoutes_def compile_tcp_route_def
  tcp_conflict_def compileTCPRoutes_def is_http_def is_tcp_def unknown_warning_def Compile_def
  FilterTCPRoutesByNode_def

subsection \<open>First claim wins\<close>

text \<open>Both loops are instances of one scheme, which keeps the first route of every key.\<close>

fun claim_loop ::
  "(RouteDefinition \<Rightarrow> string) \<Rightarrow> (RouteDefinition \<Rightarrow> 'c option) \<Rightarrow>
   (string \<Rightarrow> RouteDefinition \<Rightarrow> RouteDefinition \<Rightarrow> Conflict) \<Rightarrow>
   (string, RouteDefinition) gomap \<Rightarrow> RouteDefinition list \<Rightarrow> 'c list \<times> Conflict list" where
  "claim_loop key mk cf claimed [] = ([], [])"
| "claim_loop key mk cf claimed (r # rs) =
     (case map_of claimed (key r) of
        Some winner \<Rightarrow>
          (case claim_loop key mk cf claimed rs of (compiled, conflicts) \<Rightarrow>
             (compiled, cf (key r) winner r # conflicts))
      | None \<Rightarrow>
          (case claim_loop key mk cf (AList.update (key r) r claimed) rs of (compiled, conflicts) \<Rightarrow>
             (case mk r of None \<Rightarrow> compiled | Some c \<Rightarrow> c # compiled, conflicts)))"

lemma compileHTTPRoutes_claim:
  "compileHTTPRoutes_loop claimed rs = claim_loop http_key compile_http_route http_conflict claimed rs"
  by (induction rs arbitrary: claimed) (simp_all add: http_key_def Let_def split: option.split)

lemma compileTCPRoutes_claim:
  "compileTCPRoutes_loop claimed rs = claim_loop tcp_key compile_tcp_route tcp_conflict claimed rs"
  by (induction rs arbitrary: claimed) (simp_all add: tcp_key_def Let_def split: option.split)

fun winners :: "(RouteDefinition \<Rightarrow> string) \<Rightarrow> string set \<Rightarrow> RouteDefinition list \<Rightarrow> RouteDefinition list" where
  "winners key seen [] = []"
| "winners key seen (r # rs) =
     (if key r \<in> seen then winners key seen rs else r # winners key (insert (key r) seen) rs)"

lemma claim_loop_compiled:
  "fst (claim_loop key mk cf claimed rs) = List.map_filter mk (winners key (keys claimed) rs)"
proof (induction rs arbitrary: claimed)
  case (Cons r rs)
  show ?case
  proof (cases "map_of claimed (key r)")
    case None
    then have "key r \<notin> keys claimed" by (simp add: map_of_eq_None_iff)
    with None Cons [of "AList.update (key r) r claimed"] show ?thesis
      by (auto simp: dom_update List.map_filter_simps split: prod.split option.split)
  next
    case (Some w)
    then have "key r \<in> keys claimed" using map_of_SomeD by force
    with Some Cons [of claimed] show ?thesis by (auto split: prod.split)
  qed
qed (simp add: List.map_filter_simps)

lemma winners_subset: "set (winners key seen rs) \<subseteq> {r \<in> set rs. key r \<notin> seen}"
  by (induction rs arbitrary: seen) auto

lemma winners_distinct: "distinct (map key (winners key seen rs))"
proof (induction rs arbitrary: seen)
  case (Cons r rs)
  have "key r \<notin> key ` set (winners key (insert (key r) seen) rs)"
    using winners_subset [of key "insert (key r) seen" rs] by auto
  with Cons show ?case by simp
qed simp

lemma winners_complete: "r \<in> set rs \<Longrightarrow> key r \<in> seen \<or> (\<exists>w \<in> set (winners key seen rs). key w = key r)"
proof (induction rs arbitrary: seen)
  case (Cons x rs)
  then show ?case
    by (cases "r = x"; cases "key x \<in> seen") (auto, metis insertE)
qed simp

text \<open>A winner precedes every other route with its key.\<close>

lemma winners_first:
  "w \<in> set (winners key seen rs) \<Longrightarrow> \<exists>us vs. rs = us @ w # vs \<and> key w \<notin> key ` set us"
proof (induction rs arbitrary: seen)
  case (Cons x rs)
  show ?case
  proof (cases "w = x")
    case True
    then show ?thesis by (intro exI [of _ "[]"] exI [of _ rs]) simp
  next
    case False
    with Cons.prems have w: "w \<in> set (winners key (if key x \<in> seen then seen else insert (key x) seen) rs)"
      by (auto split: if_splits)
    then have "key w \<noteq> key x"
      using winners_subset [of key "if key x \<in> seen then seen else insert (key x) seen" rs] by (auto split: if_splits)
    moreover from Cons.IH [OF w] obtain us vs where "rs = us @ w # vs" "key w \<notin> key ` set us" by blast
    ultimately have "x # rs = (x # us) @ w # vs \<and> key w \<notin> key ` set (x # us)" by simp
    then show ?thesis by blast
  qed
qed simp

text \<open>Every route either wins its key or is reported as the loser of one conflict.\<close>

lemma claim_loop_partition:
  assumes "\<And>k w r. cf_Loser (cf k w r) = r"
  shows "mset (map cf_Loser (snd (claim_loop key mk cf claimed rs))) + mset (winners key (keys claimed) rs) = mset rs"
proof (induction rs arbitrary: claimed)
  case (Cons r rs)
  show ?case
  proof (cases "map_of claimed (key r)")
    case None
    then have "key r \<notin> keys claimed" by (simp add: map_of_eq_None_iff)
    with None Cons [of "AList.update (key r) r claimed"] show ?thesis
      by (auto simp: dom_update split: prod.split)
  next
    case (Some w)
    then have "key r \<in> keys claimed" using map_of_SomeD by force
    with Some Cons [of claimed] show ?thesis by (auto simp: assms split: prod.split)
  qed
qed simp

definition claims_ok :: "(RouteDefinition \<Rightarrow> string) \<Rightarrow> (string, RouteDefinition) gomap \<Rightarrow> RouteDefinition set \<Rightarrow> bool" where
  "claims_ok key claimed W \<longleftrightarrow> (\<forall>k w. map_of claimed k = Some w \<longrightarrow> key w = k \<and> w \<in> W)"

lemma claim_loop_conflicts:
  assumes "claims_ok key claimed W" and "set (winners key (keys claimed) rs) \<subseteq> W"
    and "c \<in> set (snd (claim_loop key mk cf claimed rs))"
  shows "\<exists>w r. w \<in> W \<and> r \<in> set rs \<and> key w = key r \<and> c = cf (key r) w r"
  using assms
proof (induction rs arbitrary: claimed)
  case (Cons r rs)
  show ?case
  proof (cases "map_of claimed (key r)")
    case None
    then have new: "key r \<notin> keys claimed" by (simp add: map_of_eq_None_iff)
    with Cons.prems(2) have "r \<in> W" by simp
    with Cons.prems(1) have "claims_ok key (AList.update (key r) r claimed) W"
      by (simp add: claims_ok_def update_conv')
    with Cons.IH [of "AList.update (key r) r claimed"] Cons.prems(2,3) None new show ?thesis
      by (auto simp: dom_update split: prod.splits)
  next
    case (Some w)
    then have old: "key r \<in> keys claimed" using map_of_SomeD by force
    from Some Cons.prems(1) have w: "key w = key r" "w \<in> W" by (auto simp: claims_ok_def)
    from Cons.prems(3) Some consider "c = cf (key r) w r" | "c \<in> set (snd (claim_loop key mk cf claimed rs))"
      by (auto split: prod.splits)
    then show ?thesis
    proof cases
      case 1
      with w show ?thesis by auto
    next
      case 2
      with Cons.IH [OF Cons.prems(1)] Cons.prems(2) old show ?thesis by auto
    qed
  qed
qed simp

lemma claim_loop_conflicts_top:
  "c \<in> set (snd (claim_loop key mk cf [] rs)) \<Longrightarrow>
   \<exists>w r. w \<in> set (winners key {} rs) \<and> r \<in> set rs \<and> key w = key r \<and> c = cf (key r) w r"
  by (rule claim_loop_conflicts [of key "[]" "set (winners key {} rs)"]) (simp_all add: claims_ok_def)

subsection \<open>The sort\<close>

text \<open>The contract of \<open>sort.Slice\<close> with the comparison \<open>route_less\<close>.\<close>

locale slice_sort =
  fixes sortf :: "RouteDefinition list \<Rightarrow> RouteDefinition list"
  assumes sort_permutes: "mset (sortf rs) = mset rs"
    and sort_ordered: "sorted_wrt (\<lambda>a b. \<not> route_less b a) (sortf rs)"
begin

lemma sort_set: "set (sortf rs) = set rs"
  using sort_permutes by (rule mset_eq_setD)

lemma sort_filter_ordered: "sorted_wrt (\<lambda>a b. \<not> route_less b a) (filter P (sortf rs))"
  using sort_ordered by (rule sorted_wrt_filter)

text \<open>The winner of a key is not beaten by any route of the same kind with that key.\<close>

lemma winner_best:
  assumes "w \<in> set (winners key {} (filter P (sortf rs)))" and "r \<in> set rs" "P r" and "key r = key w"
  shows "\<not> route_less r w"
proof -
  from winners_first [OF assms(1)] obtain us vs where
    split: "filter P (sortf rs) = us @ w # vs" "key w \<notin> key ` set us" by blast
  from assms(2,3) have "r \<in> set (filter P (sortf rs))" by (simp add: sort_set)
  with split(1) have "r \<in> set us \<or> r = w \<or> r \<in> set vs" by auto
  with split(2) assms(4) have "r = w \<or> r \<in> set vs" by (metis imageI)
  then show ?thesis
  proof
    assume "r = w"
    then show ?thesis by (simp add: route_less_def)
  next
    assume "r \<in> set vs"
    with sort_filter_ordered [of P rs] split(1) show ?thesis by (auto simp: sorted_wrt_append)
  qed
qed

lemma winner_member: "w \<in> set (winners key {} (filter P (sortf rs))) \<Longrightarrow> w \<in> set rs \<and> P w"
  using winners_subset [of key "{}" "filter P (sortf rs)"] by (auto simp: sort_set)

lemma winner_exists:
  "r \<in> set rs \<Longrightarrow> P r \<Longrightarrow> \<exists>w \<in> set (winners key {} (filter P (sortf rs))). key w = key r"
  using winners_complete [of r "filter P (sortf rs)" key "{}"] by (simp add: sort_set)

end

text \<open>A stable sort by descending priority and service name is one such function.\<close>

definition stable_sort :: "RouteDefinition list \<Rightarrow> RouteDefinition list" where
  "stable_sort = sort_key (\<lambda>r. (- rd_Priority r, rd_ServiceName r))"

lemma route_less_key:
  "route_less a b \<longleftrightarrow> (- rd_Priority a, rd_ServiceName a) < (- rd_Priority b, rd_ServiceName b)"
  by (auto simp: route_less_def less_prod_def)

interpretation stable: slice_sort stable_sort
proof unfold_locales
  fix rs
  show "mset (stable_sort rs) = mset rs" by (simp add: stable_sort_def)
  have "sorted_wrt (\<lambda>a b. (- rd_Priority a, rd_ServiceName a) \<le> (- rd_Priority b, rd_ServiceName b)) (stable_sort rs)"
    using sorted_sort_key [of "\<lambda>r. (- rd_Priority r, rd_ServiceName r)" rs]
    by (simp add: stable_sort_def sorted_map)
  then show "sorted_wrt (\<lambda>a b. \<not> route_less b a) (stable_sort rs)"
    by (rule sorted_wrt_mono_rel [rotated]) (simp only: route_less_key not_less)
qed

subsection \<open>Compiled routes\<close>

lemma compileHTTPRoutes_eq:
  "compileHTTPRoutes rs =
     (List.map_filter compile_http_route (winners http_key {} rs), snd (claim_loop http_key compile_http_route http_conflict [] rs))"
  by (simp add: compileHTTPRoutes_def compileHTTPRoutes_claim prod_eq_iff claim_loop_compiled)

lemma compileTCPRoutes_eq:
  "compileTCPRoutes rs =
     (List.map_filter compile_tcp_route (winners tcp_key {} rs), snd (claim_loop tcp_key compile_tcp_route tcp_conflict [] rs))"
  by (simp add: compileTCPRoutes_def compileTCPRoutes_claim prod_eq_iff claim_loop_compiled)

lemma Compile_simps:
  "cc_HTTPRoutes (Compile sortf rs) = List.map_filter compile_http_route (winners http_key {} (filter is_http (sortf rs)))"
  "cc_TCPRoutes (Compile sortf rs) = List.map_filter compile_tcp_route (winners tcp_key {} (filter is_tcp (sortf rs)))"
  "cc_Conflicts (Compile sortf rs) =
     snd (claim_loop http_key compile_http_route http_conflict [] (filter is_http (sortf rs))) @
     snd (claim_loop tcp_key compile_tcp_route tcp_conflict [] (filter is_tcp (sortf rs)))"
  "cc_Warnings (Compile sortf rs) = map unknown_warning (filter (\<lambda>r. \<not> is_http r \<and> \<not> is_tcp r) (sortf rs))"
  by (simp_all add: Compile_def Let_def compileHTTPRoutes_eq compileTCPRoutes_eq)

lemma not_http_tcp: "\<not> (is_http r \<and> is_tcp r)"
  by (auto simp: is_http_def is_tcp_def ProtocolHTTP_def ProtocolHTTPS_def ProtocolTCP_def ProtocolTLSPassthrough_def)

lemma set_map_filter: "set (List.map_filter f xs) = {y. \<exists>x \<in> set xs. f x = Some y}"
  by (auto simp: List.map_filter_def image_iff) (metis option.sel)

lemma map_filter_distinct_keys:
  "distinct (map k xs) \<Longrightarrow> (\<And>x y. f x = Some y \<Longrightarrow> k' y = k x) \<Longrightarrow> distinct (map k' (List.map_filter f xs))"
proof (induction xs)
  case (Cons x xs)
  then show ?case
    by (cases "f x") (auto simp: List.map_filter_simps set_map_filter image_iff)
qed (simp add: List.map_filter_simps)

lemma compile_http_route_fields:
  assumes "compile_http_route r = Some c"
  shows "ch_Host c = rd_Host r" "ch_Path c = rd_Path r" "ch_ServiceName c = rd_ServiceName r"
    "(IsRedirect r \<and> ch_Upstreams c = [] \<and> ch_RedirectCode c = rd_RedirectCode r \<and> ch_RedirectURL c = rd_RedirectURL r) \<or>
     (\<not> IsRedirect r \<and> ch_RedirectCode c = 0 \<and> ch_Upstreams c = filter up_Healthy (rd_Upstreams r) \<and> ch_Upstreams c \<noteq> [])"
  using assms by (auto simp: compile_http_route_def Let_def split: prod.splits if_splits)

lemma compile_http_route_None: "compile_http_route r = None \<longleftrightarrow> \<not> IsRedirect r \<and> (\<forall>u \<in> set (rd_Upstreams r). \<not> up_Healthy u)"
  by (auto simp: compile_http_route_def Let_def filter_empty_conv split: prod.splits)

lemma compile_tcp_route_fields:
  assumes "compile_tcp_route r = Some c"
  shows "ct_Port c = rd_Port r" "ct_SNI c = rd_Host r" "ct_ServiceName c = rd_ServiceName r"
    "ct_Upstreams c = filter up_Healthy (rd_Upstreams r)" "ct_Upstreams c \<noteq> []"
  using assms by (auto simp: compile_tcp_route_def Let_def split: if_splits)

lemma append_slash_eq:
  "CHR ''/'' \<notin> set a \<Longrightarrow> CHR ''/'' \<notin> set b \<Longrightarrow> a @ CHR ''/'' # x = b @ CHR ''/'' # y \<longleftrightarrow> a = b \<and> x = y"
  by (metis Cut_append Pair_inject)

lemma Itoa_no_slash: "CHR ''/'' \<notin> set (Itoa n)"
  using Itoa_chars by (fastforce simp: is_digit_def)

lemma tcpRouteKey_inj: "tcpRouteKey p s = tcpRouteKey q t \<longleftrightarrow> p = q \<and> s = t"
proof (cases "s = []"; cases "t = []")
  assume "s = []" "t = []"
  then show ?thesis by (auto simp: tcpRouteKey_def)
next
  assume "s = []" "t \<noteq> []"
  then show ?thesis using Itoa_no_slash [of p] by (auto simp: tcpRouteKey_def)
next
  assume "s \<noteq> []" "t = []"
  then show ?thesis using Itoa_no_slash [of q] by (auto simp: tcpRouteKey_def) (metis in_set_conv_decomp)
next
  assume "s \<noteq> []" "t \<noteq> []"
  then show ?thesis
    using append_slash_eq [of "Itoa p" "Itoa q" s t] by (auto simp: tcpRouteKey_def Itoa_no_slash)
qed

lemma compiled_keys_distinct:
  "distinct (map (\<lambda>c. httpRouteKey (ch_Host c) (ch_Path c)) (cc_HTTPRoutes (Compile sortf rs)))"
  "distinct (map (\<lambda>c. (ct_Port c, ct_SNI c)) (cc_TCPRoutes (Compile sortf rs)))"
proof -
  show "distinct (map (\<lambda>c. httpRouteKey (ch_Host c) (ch_Path c)) (cc_HTTPRoutes (Compile sortf rs)))"
    unfolding Compile_simps
    by (rule map_filter_distinct_keys [OF winners_distinct]) (simp add: http_key_def compile_http_route_fields)
  have "distinct (map (\<lambda>c. tcpRouteKey (ct_Port c) (ct_SNI c)) (cc_TCPRoutes (Compile sortf rs)))"
    unfolding Compile_simps
    by (rule map_filter_distinct_keys [OF winners_distinct]) (simp add: tcp_key_def compile_tcp_route_fields)
  then show "distinct (map (\<lambda>c. (ct_Port c, ct_SNI c)) (cc_TCPRoutes (Compile sortf rs)))"
    by (auto simp: distinct_map inj_on_def)
qed

lemma httpRouteKey_host_path:
  assumes "CHR ''/'' \<notin> set h" "CHR ''/'' \<notin> set h'"
    and "p = [] \<or> hd p = CHR ''/''" "p' = [] \<or> hd p' = CHR ''/''"
  shows "httpRouteKey h p = httpRouteKey h' p' \<longleftrightarrow>
    (if h = [] then ''*'' else h) = (if h' = [] then ''*'' else h') \<and>
    (if p = [] then ''/'' else p) = (if p' = [] then ''/'' else p')"
proof -
  have path: "\<exists>x. (if p = [] then ''/'' else p) = CHR ''/'' # x" if "p = [] \<or> hd p = CHR ''/''" for p
    using that by (cases p) auto
  obtain x y where "(if p = [] then ''/'' else p) = CHR ''/'' # x" "(if p' = [] then ''/'' else p') = CHR ''/'' # y"
    using path assms(3,4) by metis
  then show ?thesis
    using append_slash_eq [of "if h = [] then ''*'' else h" "if h' = [] then ''*'' else h'" x y] assms(1,2)
    by (simp add: httpRouteKey_def Let_def)
qed

text \<open>The winners of two lists with the same routes agree when no tie is left open.\<close>

definition tie_free :: "(RouteDefinition \<Rightarrow> string) \<Rightarrow> (RouteDefinition \<Rightarrow> bool) \<Rightarrow> RouteDefinition list \<Rightarrow> bool" where
  "tie_free key P rs \<longleftrightarrow>
     (\<forall>a \<in> set rs. \<forall>b \<in> set rs. P a \<and> P b \<and> key a = key b \<and> rd_Priority a = rd_Priority b \<and>
        rd_ServiceName a = rd_ServiceName b \<longrightarrow> a = b)"

lemma route_less_tie:
  "\<not> route_less a b \<Longrightarrow> \<not> route_less b a \<Longrightarrow> rd_Priority a = rd_Priority b \<and> rd_ServiceName a = rd_ServiceName b"
  by (auto simp: route_less_def not_less split: if_splits)

lemma winners_agree:
  assumes s: "slice_sort s" and t: "slice_sort t" and eq: "set rs = set rs'" and tf: "tie_free key P rs"
  shows "set (winners key {} (filter P (s rs))) \<subseteq> set (winners key {} (filter P (t rs')))"
proof
  fix w assume w: "w \<in> set (winners key {} (filter P (s rs)))"
  then have wm: "w \<in> set rs" "P w" using slice_sort.winner_member [OF s] by blast+
  then obtain v where v: "v \<in> set (winners key {} (filter P (t rs')))" "key v = key w"
    using slice_sort.winner_exists [OF t, of w rs' P key] eq by blast
  then have vm: "v \<in> set rs" "P v" using slice_sort.winner_member [OF t] eq by blast+
  have "\<not> route_less v w" using slice_sort.winner_best [OF s w vm v(2)] .
  moreover have "\<not> route_less w v"
    using slice_sort.winner_best [OF t v(1), of w] wm eq v(2) by simp
  ultimately have "v = w" using tf wm vm v(2) route_less_tie [of v w] by (auto simp: tie_free_def)
  with v show "w \<in> set (winners key {} (filter P (t rs')))" by simp
qed

lemma winners_agree_eq:
  assumes "slice_sort s" "slice_sort t" "set rs = set rs'" "tie_free key P rs"
  shows "set (winners key {} (filter P (s rs))) = set (winners key {} (filter P (t rs')))"
  using winners_agree [OF assms] winners_agree [OF assms(2,1) assms(3) [symmetric], of key P] assms(3,4)
  by (simp add: tie_free_def subset_antisym)

lemma add_mset_shuffle: "(a :: 'x multiset) + x = A \<Longrightarrow> b + y = B \<Longrightarrow> x + y + (a + b) = A + B"
  by (auto simp: ac_simps)

text \<open>The losers reported for one protocol family, with their winners.\<close>

lemma family_partition:
  assumes "slice_sort s" and "\<And>k w r. cf_Loser (cf k w r) = r"
  shows "mset (map cf_Loser (snd (claim_loop key mk cf [] (filter P (s rs))))) + mset (winners key {} (filter P (s rs)))
    = filter_mset P (mset rs)"
  using claim_loop_partition [of cf key mk "[]" "filter P (s rs)"] assms(2) slice_sort.sort_permutes [OF assms(1)]
  by simp

lemma family_conflicts:
  assumes "slice_sort s" and "c \<in> set (snd (claim_loop key mk cf [] (filter P (s rs))))"
  shows "\<exists>w r. w \<in> set (winners key {} (filter P (s rs))) \<and> r \<in> set rs \<and> key w = key r \<and>
    \<not> route_less r w \<and> c = cf (key r) w r"
proof -
  from claim_loop_conflicts_top [OF assms(2)] obtain w r where
    "w \<in> set (winners key {} (filter P (s rs)))" "r \<in> set (filter P (s rs))" "key w = key r" "c = cf (key r) w r"
    by blast
  then show ?thesis
    using slice_sort.winner_best [OF assms(1), of w key P rs r] slice_sort.sort_set [OF assms(1), of rs] by auto
qed

subsection \<open>Properties\<close>

text \<open>C3: compilation decides every claim, for any sort that satisfies the contract of \<open>sort.Slice\<close>. There
  are lists of winning HTTP and TCP definitions such that the published routes are exactly the compiled
  forms of the winners that have one (in order); no two winners share a key; no definition of the same
  protocol family with the same key precedes its winner by priority and service name; every definition with
  a known protocol is either a winner or the loser of exactly one reported conflict; each conflict names a
  winner with the loser's key; and warnings are raised for exactly the definitions of unknown protocol.\<close>

theorem Compile_correct:
  assumes "slice_sort sortf"
  shows "\<exists>H T.
     cc_HTTPRoutes (Compile sortf rs) = List.map_filter compile_http_route H \<and>
     cc_TCPRoutes (Compile sortf rs) = List.map_filter compile_tcp_route T \<and>
     distinct (map http_key H) \<and> distinct (map tcp_key T) \<and>
     (\<forall>w \<in> set H. \<forall>r \<in> set rs. is_http r \<and> http_key r = http_key w \<longrightarrow> \<not> route_less r w) \<and>
     (\<forall>w \<in> set T. \<forall>r \<in> set rs. is_tcp r \<and> tcp_key r = tcp_key w \<longrightarrow> \<not> route_less r w) \<and>
     mset H + mset T + mset (map cf_Loser (cc_Conflicts (Compile sortf rs)))
       = filter_mset (\<lambda>r. is_http r \<or> is_tcp r) (mset rs) \<and>
     (\<forall>c \<in> set (cc_Conflicts (Compile sortf rs)). \<not> route_less (cf_Loser c) (cf_Winner c) \<and>
        (cf_Winner c \<in> set H \<and> http_key (cf_Winner c) = http_key (cf_Loser c) \<and> cf_Type c = ConflictDuplicateHostPath \<or>
         cf_Winner c \<in> set T \<and> tcp_key (cf_Winner c) = tcp_key (cf_Loser c) \<and> cf_Type c = ConflictDuplicatePortSNI)) \<and>
     mset (cc_Warnings (Compile sortf rs)) =
       image_mset unknown_warning (filter_mset (\<lambda>r. \<not> is_http r \<and> \<not> is_tcp r) (mset rs))"
proof -
  let ?H = "winners http_key {} (filter is_http (sortf rs))" and ?T = "winners tcp_key {} (filter is_tcp (sortf rs))"
  have hl: "\<And>k w r. cf_Loser (http_conflict k w r) = r" and tl: "\<And>k w r. cf_Loser (tcp_conflict k w r) = r"
    by (simp_all add: http_conflict_def tcp_conflict_def)
  have families: "filter_mset (\<lambda>r. is_http r \<or> is_tcp r) (mset rs) = filter_mset is_http (mset rs) + filter_mset is_tcp (mset rs)"
    using not_http_tcp by (induction rs) auto
  have "mset ?H + mset ?T + mset (map cf_Loser (cc_Conflicts (Compile sortf rs))) = filter_mset (\<lambda>r. is_http r \<or> is_tcp r) (mset rs)"
    unfolding families Compile_simps map_append mset_append
    using add_mset_shuffle [OF family_partition [OF assms hl] family_partition [OF assms tl]] .
  moreover have "\<not> route_less (cf_Loser c) (cf_Winner c) \<and>
        (cf_Winner c \<in> set ?H \<and> http_key (cf_Winner c) = http_key (cf_Loser c) \<and> cf_Type c = ConflictDuplicateHostPath \<or>
         cf_Winner c \<in> set ?T \<and> tcp_key (cf_Winner c) = tcp_key (cf_Loser c) \<and> cf_Type c = ConflictDuplicatePortSNI)"
    if "c \<in> set (cc_Conflicts (Compile sortf rs))" for c
    using that family_conflicts [OF assms, of c http_key compile_http_route http_conflict is_http rs]
      family_conflicts [OF assms, of c tcp_key compile_tcp_route tcp_conflict is_tcp rs]
    by (auto simp: Compile_simps http_conflict_def tcp_conflict_def)
  moreover have "mset (cc_Warnings (Compile sortf rs)) =
       image_mset unknown_warning (filter_mset (\<lambda>r. \<not> is_http r \<and> \<not> is_tcp r) (mset rs))"
    by (simp add: Compile_simps slice_sort.sort_permutes [OF assms])
  moreover have "\<forall>w \<in> set ?H. \<forall>r \<in> set rs. is_http r \<and> http_key r = http_key w \<longrightarrow> \<not> route_less r w"
    "\<forall>w \<in> set ?T. \<forall>r \<in> set rs. is_tcp r \<and> tcp_key r = tcp_key w \<longrightarrow> \<not> route_less r w"
    using slice_sort.winner_best [OF assms] by metis+
  ultimately show ?thesis
    using Compile_simps(1,2) winners_distinct by (intro exI [of _ ?H, OF exI [of _ ?T]]) blast
qed

definition sample_route :: "string \<Rightarrow> int \<Rightarrow> string \<Rightarrow> Upstream list \<Rightarrow> RouteDefinition" where
  "sample_route name prio host ups =
     zero_route\<lparr>rd_ServiceName := name, rd_Protocol := ProtocolHTTP, rd_Host := host, rd_Path := ''/'',
                rd_Priority := prio, rd_Enabled := True, rd_Upstreams := ups\<rparr>"

definition sample_upstream :: "string \<Rightarrow> Upstream" where
  "sample_upstream addr = \<lparr>up_Address = addr, up_Weight = 1, up_Healthy = True, up_NodeName = ''n1''\<rparr>"

lemmas [go_eval] = sample_route_def sample_upstream_def stable_sort_def
  ProtocolHTTP_def ProtocolHTTPS_def ProtocolTCP_def ProtocolTLSPassthrough_def

theorem Compile_correct_witness:
  "slice_sort stable_sort \<and>
   map ch_ServiceName (cc_HTTPRoutes (Compile stable_sort
     [sample_route ''a'' 0 ''h'' [sample_upstream ''x:1''], sample_route ''b'' 5 ''h'' [sample_upstream ''y:1'']])) = [''b''] \<and>
   (\<exists>H T. mset H + mset T + mset (map cf_Loser (cc_Conflicts (Compile stable_sort
     [sample_route ''a'' 0 ''h'' [sample_upstream ''x:1''], sample_route ''b'' 5 ''h'' [sample_upstream ''y:1'']])))
      = filter_mset (\<lambda>r. is_http r \<or> is_tcp r)
          (mset [sample_route ''a'' 0 ''h'' [sample_upstream ''x:1''], sample_route ''b'' 5 ''h'' [sample_upstream ''y:1'']]) \<and>
      distinct (map http_key H) \<and> distinct (map tcp_key T))"
proof (intro conjI)
  show "slice_sort stable_sort" by (rule stable.slice_sort_axioms)
  show "map ch_ServiceName (cc_HTTPRoutes (Compile stable_sort
     [sample_route ''a'' 0 ''h'' [sample_upstream ''x:1''], sample_route ''b'' 5 ''h'' [sample_upstream ''y:1'']])) = [''b'']"
    by (simp add: go_eval)
qed (use Compile_correct [OF stable.slice_sort_axioms, of
      "[sample_route ''a'' 0 ''h'' [sample_upstream ''x:1''], sample_route ''b'' 5 ''h'' [sample_upstream ''y:1'']]"] in blast)

text \<open>C32: whatever the sort does, no two published HTTP routes share host and path (an empty host counts as
  \<open>*\<close>, an empty path as \<open>/\<close>) and no two published TCP routes share port and server name; every published
  proxy route has at least one upstream and all of its upstreams are healthy, and a redirect has none.\<close>

theorem Compile_routes_usable:
  "distinct (map (\<lambda>c. (if ch_Host c = [] then ''*'' else ch_Host c, if ch_Path c = [] then ''/'' else ch_Path c))
     (cc_HTTPRoutes (Compile sortf rs))) \<and>
   distinct (map (\<lambda>c. (ct_Port c, ct_SNI c)) (cc_TCPRoutes (Compile sortf rs))) \<and>
   list_all (\<lambda>c. if ch_RedirectCode c = 0 then ch_Upstreams c \<noteq> [] \<and> list_all up_Healthy (ch_Upstreams c)
                 else ch_RedirectURL c \<noteq> [] \<and> ch_Upstreams c = [])
     (cc_HTTPRoutes (Compile sortf rs)) \<and>
   list_all (\<lambda>c. ct_Upstreams c \<noteq> [] \<and> list_all up_Healthy (ct_Upstreams c)) (cc_TCPRoutes (Compile sortf rs))"
proof (intro conjI)
  let ?norm = "\<lambda>c :: CompiledHTTPRoute. (if ch_Host c = [] then ''*'' else ch_Host c, if ch_Path c = [] then ''/'' else ch_Path c)"
  have "map (\<lambda>c. httpRouteKey (ch_Host c) (ch_Path c)) cs = map (\<lambda>(h, p). h @ p) (map ?norm cs)" for cs
    by (simp add: httpRouteKey_def Let_def)
  with compiled_keys_distinct(1) [of sortf rs]
  have "distinct (map (\<lambda>(h, p). h @ p) (map ?norm (cc_HTTPRoutes (Compile sortf rs))))" by (simp only:)
  then show "distinct (map ?norm (cc_HTTPRoutes (Compile sortf rs)))" using distinct_map by blast
  show "distinct (map (\<lambda>c. (ct_Port c, ct_SNI c)) (cc_TCPRoutes (Compile sortf rs)))"
    by (rule compiled_keys_distinct)
  have "if ch_RedirectCode c = 0 then ch_Upstreams c \<noteq> [] \<and> list_all up_Healthy (ch_Upstreams c)
      else ch_RedirectURL c \<noteq> [] \<and> ch_Upstreams c = []" if "compile_http_route r = Some c" for r c
    using compile_http_route_fields(4) [OF that] by (auto simp: IsRedirect_def list_all_iff)
  then show "list_all (\<lambda>c. if ch_RedirectCode c = 0 then ch_Upstreams c \<noteq> [] \<and> list_all up_Healthy (ch_Upstreams c)
                 else ch_RedirectURL c \<noteq> [] \<and> ch_Upstreams c = []) (cc_HTTPRoutes (Compile sortf rs))"
    unfolding list_all_iff Compile_simps set_map_filter by blast
  have "ct_Upstreams c \<noteq> [] \<and> list_all up_Healthy (ct_Upstreams c)" if "compile_tcp_route r = Some c" for r c
    using compile_tcp_route_fields(4,5) [OF that] by (auto simp: list_all_iff)
  then show "list_all (\<lambda>c. ct_Upstreams c \<noteq> [] \<and> list_all up_Healthy (ct_Upstreams c)) (cc_TCPRoutes (Compile sortf rs))"
    unfolding list_all_iff Compile_simps set_map_filter by blast
qed

text \<open>C35: the published routes do not depend on the order in which the services were visited, nor on which
  sort is used, provided no two different definitions of one key tie on priority and service name.\<close>

theorem Compile_deterministic:
  assumes "slice_sort s" "slice_sort t" and "set rs = set rs'"
    and "tie_free http_key is_http rs" "tie_free tcp_key is_tcp rs"
  shows "set (cc_HTTPRoutes (Compile s rs)) = set (cc_HTTPRoutes (Compile t rs')) \<and>
    set (cc_TCPRoutes (Compile s rs)) = set (cc_TCPRoutes (Compile t rs'))"
  using winners_agree_eq [OF assms(1-3) assms(4)] winners_agree_eq [OF assms(1-3) assms(5)]
  by (simp add: Compile_simps set_map_filter)

theorem Compile_deterministic_witness:
  "tie_free http_key is_http
     [sample_route ''a'' 0 ''h'' [sample_upstream ''x:1''], sample_route ''b'' 0 ''h'' [sample_upstream ''y:1'']] \<and>
   set (cc_HTTPRoutes (Compile stable_sort
     [sample_route ''a'' 0 ''h'' [sample_upstream ''x:1''], sample_route ''b'' 0 ''h'' [sample_upstream ''y:1'']])) =
   set (cc_HTTPRoutes (Compile stable_sort
     [sample_route ''b'' 0 ''h'' [sample_upstream ''y:1''], sample_route ''a'' 0 ''h'' [sample_upstream ''x:1'']]))"
proof -
  let ?rs = "[sample_route ''a'' 0 ''h'' [sample_upstream ''x:1''], sample_route ''b'' 0 ''h'' [sample_upstream ''y:1'']]"
  have "tie_free http_key is_http ?rs" "tie_free tcp_key is_tcp ?rs"
    by (simp_all add: tie_free_def go_eval)
  then show ?thesis
    using Compile_deterministic [OF stable.slice_sort_axioms stable.slice_sort_axioms, of ?rs
        "[sample_route ''b'' 0 ''h'' [sample_upstream ''y:1''], sample_route ''a'' 0 ''h'' [sample_upstream ''x:1'']]"]
    by (simp add: insert_commute)
qed

text \<open>when two definitions of one service do tie, the order of the input decides which of them is
  published, although \<open>Compile\<close> sorts its input for deterministic conflict resolution.\<close>

theorem Compile_ties_order_dependent:
  "\<exists>a b. mset [a, b] = mset [b, a] \<and> is_http a \<and> is_http b \<and> http_key a = http_key b \<and>
     cc_HTTPRoutes (Compile stable_sort [a, b]) \<noteq> cc_HTTPRoutes (Compile stable_sort [b, a])"
  by (intro exI [of _ "sample_route ''a'' 0 ''h'' [sample_upstream ''x:1'']"]
            exI [of _ "sample_route ''a'' 0 ''h'' [sample_upstream ''y:1'']"])
     (simp add: go_eval http_key_def)

text \<open>the claim key of TCP routes identifies port and server name; that of HTTP routes identifies host and
  path when hosts hold no slash and paths start with one. Without that restriction different routes collide.\<close>

theorem route_keys_identify:
  assumes "CHR ''/'' \<notin> set h" "CHR ''/'' \<notin> set h'"
    and "p = [] \<or> hd p = CHR ''/''" "p' = [] \<or> hd p' = CHR ''/''"
  shows "(httpRouteKey h p = httpRouteKey h' p' \<longleftrightarrow>
     (if h = [] then ''*'' else h) = (if h' = [] then ''*'' else h') \<and>
     (if p = [] then ''/'' else p) = (if p' = [] then ''/'' else p')) \<and>
    (tcpRouteKey port sni = tcpRouteKey port' sni' \<longleftrightarrow> port = port' \<and> sni = sni') \<and>
    httpRouteKey ''a.co'' ''m/x'' = httpRouteKey ''a.com'' ''/x''"
  using httpRouteKey_host_path [OF assms] tcpRouteKey_inj by (simp add: httpRouteKey_def)

theorem route_keys_identify_witness:
  "CHR ''/'' \<notin> set ''a.com'' \<and> (httpRouteKey ''a.com'' ''/x'' = httpRouteKey ''a.com'' ''/y'' \<longleftrightarrow> ''/x'' = ''/y'') \<and>
   (tcpRouteKey 443 ''a'' = tcpRouteKey 443 '''' \<longleftrightarrow> ''a'' = '''')"
  using route_keys_identify [of "''a.com''" "''a.com''" "''/x''" "''/y''" 443 "''a''" 443 "''''"] by simp

end
