(* ===== verification/Connect.thy ===== *)
theory Connect
  imports Route_Types
begin

text \<open>
  \<open>connect.go\<close>: the local bind address of a mesh service is read from the sidecar proxy that Consul
  registers beside the plugin's own service.

  The Consul agent is not part of the program. Its \<open>Service\<close> endpoint is the parameter
  \<open>agent_service\<close>, from a service id to an error message or the registration, which is None when the
  client returns nil. Of the client's structs only the fields used by the plugin are kept.
\<close>

record consul_Upstream =
  cu_DestinationName :: string
  cu_LocalBindAddress :: string
  cu_LocalBindPort :: int

record AgentService =
  as_ID :: string
  as_Service :: string
  as_Port :: int
  as_Tags :: "string list"
  as_Meta :: "(string, string) gomap"
  as_Proxy :: "consul_Upstream list option"

type_synonym agent_service = "string \<Rightarrow> string + AgentService option"

record SidecarResolver =
  sr_serviceName :: string

definition NewSidecarResolver :: "string \<Rightarrow> SidecarResolver" where
  "NewSidecarResolver serviceName = \<lparr>sr_serviceName = serviceName\<rparr>"

definition proxy_upstreams :: "AgentService \<Rightarrow> consul_Upstream list" where
  "proxy_upstreams svc = (case as_Proxy svc of None \<Rightarrow> [] | Some us \<Rightarrow> us)"

fun resolve_loop :: "RouteDefinition \<Rightarrow> string \<Rightarrow> consul_Upstream list \<Rightarrow> string + RouteDefinition" where
  "resolve_loop route proxyServiceID [] =
     Inl (''no upstream entry for service '' @ rd_ServiceName route @ '' in sidecar proxy '' @ proxyServiceID @
          '' (the sidecar'' @ [CHR 0x27] @ ''s upstream list does not include this service)'')"
| "resolve_loop route proxyServiceID (upstream # us) =
     (if cu_DestinationName upstream = rd_ServiceName route then
        let addr = (if cu_LocalBindAddress upstream = [] then ''127.0.0.1'' else cu_LocalBindAddress upstream);
            port = cu_LocalBindPort upstream
        in if port = 0 then Inl (''sidecar upstream for '' @ rd_ServiceName route @ '' has no bind port'')
           else Inr (route\<lparr>rd_Upstreams :=
                  [\<lparr>up_Address = addr @ '':'' @ Itoa port, up_Weight = 1, up_Healthy = True, up_NodeName = []\<rparr>]\<rparr>)
      else resolve_loop route proxyServiceID us)"

definition ResolveUpstreams ::
  "agent_service \<Rightarrow> SidecarResolver \<Rightarrow> RouteDefinition \<Rightarrow> string + RouteDefinition" where
  "ResolveUpstreams agent sr route =
     (let proxyServiceID = sr_serviceName sr @ ''-sidecar-proxy'' in
      case agent proxyServiceID of
        Inl err \<Rightarrow> Inl (''failed to query sidecar proxy '' @ proxyServiceID @ '': '' @ err)
      | Inr None \<Rightarrow> Inl (''sidecar proxy '' @ proxyServiceID @ '' not found'')
      | Inr (Some svc) \<Rightarrow> resolve_loop route proxyServiceID (proxy_upstreams svc))"

lemmas [go_eval] = NewSidecarResolver_def proxy_upstreams_def ResolveUpstreams_def

subsection \<open>Lookup in the sidecar's upstream list\<close>

lemma resolve_loop_Inr:
  "resolve_loop route pid us = Inr route' \<longleftrightarrow>
     (\<exists>u. find (\<lambda>u. cu_DestinationName u = rd_ServiceName route) us = Some u \<and> cu_LocalBindPort u \<noteq> 0 \<and>
        route' = route\<lparr>rd_Upstreams :=
          [\<lparr>up_Address = (if cu_LocalBindAddress u = [] then ''127.0.0.1'' else cu_LocalBindAddress u) @ '':'' @
              Itoa (cu_LocalBindPort u), up_Weight = 1, up_Healthy = True, up_NodeName = []\<rparr>]\<rparr>)"
  by (induction us) (auto simp: Let_def)

text \<open>With distinct destinations the entry found is the one of that name.\<close>

lemma find_destination:
  "distinct (map cu_DestinationName us) \<Longrightarrow> u \<in> set us \<Longrightarrow>
   find (\<lambda>u'. cu_DestinationName u' = cu_DestinationName u) us = Some u"
  by (induction us) (auto simp: rev_image_eqI)

end
