(* ===== verification/Upstream_Manager.thy ===== *)
theory Upstream_Manager
  imports Connect
begin

text \<open>
  \<open>upstream_manager.go\<close>: local ports for the upstreams of the sidecar proxy and the registration
  that carries them. The loop of \<open>allocatePort\<close> has no bound of its own, so it is a partial
  function whose value None means that it does not return; \<open>allocatePort_correct\<close> shows that it
  does return when the port range is not empty.

  The agent is a parameter: \<open>agent_service\<close> answers \<open>Service\<close>, \<open>agent_register\<close> answers
  \<open>ServiceRegister\<close> with an error message or None.
\<close>

subsection \<open>The FNV-1a hash\<close>

text \<open>\<open>hash/fnv\<close>, 32 bits: the offset basis, then one xor and one multiplication for each byte.\<close>

definition fnv32a_step :: "32 word \<Rightarrow> char \<Rightarrow> 32 word" where
  "fnv32a_step h c = (xor h (word_of_nat (byte c))) * 16777619"

definition fnv32a :: "string \<Rightarrow> 32 word" where
  "fnv32a s = foldl fnv32a_step 2166136261 s"

subsection \<open>State\<close>

record UpstreamManager =
  um_serviceName :: string
  um_portStart :: int
  um_portEnd :: int
  um_allocations :: "(string, int) gomap"

definition NewUpstreamManager :: "string \<Rightarrow> int \<Rightarrow> int \<Rightarrow> UpstreamManager" where
  "NewUpstreamManager serviceName portStart portEnd =
     \<lparr>um_serviceName = serviceName, um_portStart = portStart, um_portEnd = portEnd, um_allocations = []\<rparr>"

definition RestoreAllocations :: "UpstreamManager \<Rightarrow> (string, int) gomap \<Rightarrow> UpstreamManager" where
  "RestoreAllocations um allocations =
     um\<lparr>um_allocations := foldl (\<lambda>m (k, v). AList.update k v m) (um_allocations um) allocations\<rparr>"

definition Allocations :: "UpstreamManager \<Rightarrow> (string, int) gomap" where
  "Allocations um = foldl (\<lambda>m (k, v). AList.update k v m) [] (um_allocations um)"

subsection \<open>Port allocation\<close>

definition rangeSize :: "UpstreamManager \<Rightarrow> int" where
  "rangeSize um =
     (let size = wrap64 (um_portEnd um - um_portStart um) in if size \<le> 0 then 10000 else size)"

definition basePort :: "UpstreamManager \<Rightarrow> string \<Rightarrow> int" where
  "basePort um serviceName = wrap64 (um_portStart um + uint (fnv32a serviceName) mod rangeSize um)"

definition next_port :: "int \<Rightarrow> int \<Rightarrow> int \<Rightarrow> int" where
  "next_port portStart portEnd port =
     (let port' = wrap64 (port + 1) in if port' \<ge> portEnd then portStart else port')"

partial_function (option) free_port_loop :: "int list \<Rightarrow> int \<Rightarrow> int \<Rightarrow> int \<Rightarrow> int \<Rightarrow> int option" where
  "free_port_loop usedPorts portStart portEnd base port =
     (if port \<in> set usedPorts then
        let port' = next_port portStart portEnd port in
        if port' = base then Some port' else free_port_loop usedPorts portStart portEnd base port'
      else Some port)"

definition allocatePort :: "UpstreamManager \<Rightarrow> string \<Rightarrow> (int \<times> UpstreamManager) option" where
  "allocatePort um serviceName =
     (case map_of (um_allocations um) serviceName of
        Some port \<Rightarrow> Some (port, um)
      | None \<Rightarrow>
          let base = basePort um serviceName;
              usedPorts = map snd (um_allocations um)
          in case free_port_loop usedPorts (um_portStart um) (um_portEnd um) base base of
               None \<Rightarrow> None
             | Some port \<Rightarrow> Some (port, um\<lparr>um_allocations := AList.update serviceName port (um_allocations um)\<rparr>))"

subsection \<open>Synchronisation with the agent\<close>

record AgentServiceRegistration =
  rg_ID :: string
  rg_Name :: string
  rg_Port :: int
  rg_Tags :: "string list"
  rg_Meta :: "(string, string) gomap"
  rg_SidecarUpstreams :: "consul_Upstream list"

type_synonym agent_register = "AgentServiceRegistration \<Rightarrow> string option"

definition current_upstreams :: "AgentService \<Rightarrow> (string, consul_Upstream) gomap" where
  "current_upstreams svc = foldl (\<lambda>m u. AList.update (cu_DestinationName u) u m) [] (proxy_upstreams svc)"

definition to_add :: "(string, bool) gomap \<Rightarrow> (string, consul_Upstream) gomap \<Rightarrow> string list" where
  "to_add desired current = filter (\<lambda>name. map_of current name = None) (map fst desired)"

definition to_remove :: "(string, bool) gomap \<Rightarrow> (string, consul_Upstream) gomap \<Rightarrow> string list" where
  "to_remove desired current = filter (\<lambda>name. \<not> get_or False desired name) (map fst current)"

fun add_upstreams ::
  "string list \<Rightarrow> UpstreamManager \<times> (string, consul_Upstream) gomap \<Rightarrow>
   (UpstreamManager \<times> (string, consul_Upstream) gomap) option" where
  "add_upstreams [] st = Some st"
| "add_upstreams (name # names) (um, current) =
     (case allocatePort um name of
        None \<Rightarrow> None
      | Some (port, um') \<Rightarrow>
          add_upstreams names (um', AList.update name
            \<lparr>cu_DestinationName = name, cu_LocalBindAddress = [], cu_LocalBindPort = port\<rparr> current))"

fun remove_upstreams ::
  "string list \<Rightarrow> UpstreamManager \<times> (string, consul_Upstream) gomap \<Rightarrow>
   UpstreamManager \<times> (string, consul_Upstream) gomap" where
  "remove_upstreams [] st = st"
| "remove_upstreams (name # names) (um, current) =
     remove_upstreams names
       (um\<lparr>um_allocations := AList.delete name (um_allocations um)\<rparr>, AList.delete name current)"

text \<open>The outcome: the new state, the registration sent to the agent if any, and the returned pair.\<close>

definition SyncUpstreams ::
  "agent_service \<Rightarrow> agent_register \<Rightarrow> UpstreamManager \<Rightarrow> (string, bool) gomap \<Rightarrow>
   (UpstreamManager \<times> AgentServiceRegistration option \<times> (string + bool)) option" where
  "SyncUpstreams agent_service agent_register um desired =
     (case agent_service (um_serviceName um) of
        Inl err \<Rightarrow>
          Some (um, None, Inl (''failed to read service registration '' @ um_serviceName um @ '': '' @ err))
      | Inr None \<Rightarrow> Some (um, None, Inl (''service '' @ um_serviceName um @ '' not registered''))
      | Inr (Some svc) \<Rightarrow>
          let currentUpstreams = current_upstreams svc;
              toAdd = to_add desired currentUpstreams;
              toRemove = to_remove desired currentUpstreams
          in if toAdd = [] \<and> toRemove = [] then Some (um, None, Inr False)
             else case add_upstreams toAdd (um, currentUpstreams) of
                    None \<Rightarrow> None
                  | Some st \<Rightarrow>
                      (case remove_upstreams toRemove st of (um', current') \<Rightarrow>
                         let reg = \<lparr>rg_ID = as_ID svc, rg_Name = as_Service svc, rg_Port = as_Port svc,
                                    rg_Tags = as_Tags svc, rg_Meta = as_Meta svc,
                                    rg_SidecarUpstreams = map snd current'\<rparr>
                         in case agent_register reg of
                              Some err \<Rightarrow> Some (um', Some reg, Inl (''failed to update sidecar upstreams: '' @ err))
                            | None \<Rightarrow> Some (um', Some reg, Inr True)))"

lemmas [go_eval] = fnv32a_step_def fnv32a_def NewUpstreamManager_def RestoreAllocations_def Allocations_def
  rangeSize_def basePort_def next_port_def allocatePort_def current_upstreams_def to_add_def to_remove_def
  SyncUpstreams_def

subsection \<open>The probe sequence\<close>

text \<open>The k-th port that \<open>allocatePort\<close> tries for hash \<open>h\<close> in a range of \<open>m\<close> ports from \<open>start\<close>.\<close>

definition probe :: "int \<Rightarrow> int \<Rightarrow> int \<Rightarrow> nat \<Rightarrow> int" where
  "probe start m h k = start + (h + int k) mod m"

lemma succ_mod: "0 < m \<Longrightarrow> (a + 1) mod m = (if a mod m = m - 1 then 0 else a mod m + 1)" for a m :: int
proof -
  assume m: "0 < m"
  then have r: "0 \<le> a mod m" "a mod m < m" by simp_all
  have "(a + 1) mod m = (a mod m + 1) mod m" by (simp add: mod_add_left_eq)
  also have "\<dots> = (if a mod m = m - 1 then 0 else a mod m + 1)"
  proof (cases "a mod m = m - 1")
    case False
    with r have "a mod m + 1 < m" by linarith
    with False r show ?thesis by (simp add: mod_pos_pos_trivial)
  qed simp
  finally show ?thesis .
qed

lemma probe_bounds: "0 < m \<Longrightarrow> start \<le> probe start m h k \<and> probe start m h k < start + m"
  by (simp add: probe_def)

lemma probe_next:
  assumes "0 < m" "is_int64 start" "is_int64 (start + m)"
  shows "next_port start (start + m) (probe start m h k) = probe start m h (Suc k)"
proof -
  from probe_bounds [OF assms(1), of start h k] assms(2,3)
  have wrap: "wrap64 (probe start m h k + 1) = probe start m h k + 1"
    by (intro wrap64_id) linarith
  have "(h + int (Suc k)) mod m = (if (h + int k) mod m = m - 1 then 0 else (h + int k) mod m + 1)"
    using succ_mod [OF assms(1), of "h + int k"] by (simp add: ac_simps)
  with wrap probe_bounds [OF assms(1), of start h k] show ?thesis
    by (auto simp: next_port_def probe_def Let_def)
qed

lemma probe_cycle: "0 < m \<Longrightarrow> 0 < k \<Longrightarrow> int k \<le> m \<Longrightarrow> probe start m h k = probe start m h 0 \<longleftrightarrow> int k = m"
  by (auto simp: probe_def mod_eq_dvd_iff dest: zdvd_imp_le)

lemma probe_covers:
  assumes "start \<le> p" "p < start + m"
  shows "\<exists>j. int j < m \<and> p = probe start m h j"
proof (intro exI conjI)
  let ?j = "nat ((p - start - h) mod m)"
  from assms have m: "0 < m" by linarith
  then have j: "int ?j = (p - start - h) mod m" by simp
  with m show "int ?j < m" by simp
  have "(h + int ?j) mod m = (p - start) mod m" unfolding j by (simp add: mod_add_right_eq)
  with assms show "p = probe start m h ?j" by (simp add: probe_def mod_pos_pos_trivial)
qed

lemma free_port_loop_probe:
  assumes "0 < m" "is_int64 start" "is_int64 (start + m)" and "int k < m"
  shows "\<exists>i. free_port_loop used start (start + m) (probe start m h 0) (probe start m h k) = Some (probe start m h i) \<and>
     int i < m \<and>
     (k \<le> i \<and> probe start m h i \<notin> set used \<and> (\<forall>j. k \<le> j \<and> j < i \<longrightarrow> probe start m h j \<in> set used) \<or>
      i = 0 \<and> (\<forall>j. k \<le> j \<and> int j < m \<longrightarrow> probe start m h j \<in> set used))"
  using assms(4)
proof (induction "nat m - k" arbitrary: k)
  case 0
  then show ?case using assms(1) by simp
next
  case (Suc d)
  note step = free_port_loop.simps [of used start "start + m" "probe start m h 0" "probe start m h k"]
  consider (free) "probe start m h k \<notin> set used"
    | (last) "probe start m h k \<in> set used" "int (Suc k) = m"
    | (more) "probe start m h k \<in> set used" "int (Suc k) < m"
    using Suc.prems by linarith
  then show ?case
  proof cases
    case free
    with Suc.prems show ?thesis by (intro exI [of _ k]) (auto simp: step)
  next
    case last
    then have "j = k" if "k \<le> j" "int j < m" for j using that by linarith
    with last(1) have all: "\<forall>j. k \<le> j \<and> int j < m \<longrightarrow> probe start m h j \<in> set used" by blast
    have "next_port start (start + m) (probe start m h k) = probe start m h 0"
      using probe_cycle [OF assms(1), of "Suc k" start h] probe_next [OF assms(1-3), of h k] last(2) by simp
    with last(1) all assms(1) show ?thesis by (intro exI [of _ 0]) (simp add: step Let_def)
  next
    case more
    then have "d = nat m - Suc k" using Suc.hyps(2) by simp
    from Suc.hyps(1) [OF this more(2)] obtain i where i:
      "free_port_loop used start (start + m) (probe start m h 0) (probe start m h (Suc k)) = Some (probe start m h i)"
      "int i < m"
      "Suc k \<le> i \<and> probe start m h i \<notin> set used \<and> (\<forall>j. Suc k \<le> j \<and> j < i \<longrightarrow> probe start m h j \<in> set used) \<or>
       i = 0 \<and> (\<forall>j. Suc k \<le> j \<and> int j < m \<longrightarrow> probe start m h j \<in> set used)" by blast
    have "probe start m h (Suc k) \<noteq> probe start m h 0"
      using probe_cycle [OF assms(1), of "Suc k" start h] more(2) by simp
    with more i(1) probe_next [OF assms(1-3), of h k]
    have "free_port_loop used start (start + m) (probe start m h 0) (probe start m h k) = Some (probe start m h i)"
      by (simp add: step Let_def)
    moreover have "probe start m h j \<in> set used" if "k \<le> j" "Suc k \<le> j \<Longrightarrow> probe start m h j \<in> set used" for j
      using that more(1) by (cases "j = k") auto
    ultimately show ?thesis using i(2,3) by (intro exI [of _ i]) auto
  qed
qed

subsection \<open>Allocation\<close>

definition range_ok :: "UpstreamManager \<Rightarrow> bool" where
  "range_ok um \<longleftrightarrow> 0 \<le> um_portStart um \<and> um_portStart um < um_portEnd um \<and> um_portEnd um < 2 ^ 63"

definition port_probe :: "UpstreamManager \<Rightarrow> string \<Rightarrow> nat \<Rightarrow> int" where
  "port_probe um name = probe (um_portStart um) (um_portEnd um - um_portStart um) (uint (fnv32a name))"

lemma range_ok_size: "range_ok um \<Longrightarrow> rangeSize um = um_portEnd um - um_portStart um"
  by (simp add: range_ok_def rangeSize_def wrap64_id Let_def)

lemma basePort_probe: "range_ok um \<Longrightarrow> basePort um name = port_probe um name 0"
proof -
  assume ok: "range_ok um"
  then have "0 < um_portEnd um - um_portStart um" by (simp add: range_ok_def)
  from probe_bounds [OF this, of "um_portStart um" "uint (fnv32a name)" 0] ok
  show ?thesis by (simp add: basePort_def port_probe_def probe_def range_ok_size wrap64_id range_ok_def)
qed

lemma allocatePort_new:
  assumes ok: "range_ok um" and new: "map_of (um_allocations um) name = None"
  shows "\<exists>i. let port = port_probe um name i; used = snd ` set (um_allocations um) in
     allocatePort um name = Some (port, um\<lparr>um_allocations := AList.update name port (um_allocations um)\<rparr>) \<and>
     um_portStart um \<le> port \<and> port < um_portEnd um \<and>
     (if {um_portStart um ..< um_portEnd um} \<subseteq> used then i = 0
      else port \<notin> used \<and> (\<forall>j < i. port_probe um name j \<in> used))"
proof -
  let ?s = "um_portStart um" and ?m = "um_portEnd um - um_portStart um" and ?h = "uint (fnv32a name)"
  let ?used = "map snd (um_allocations um)"
  have m: "0 < ?m" and w: "is_int64 ?s" "is_int64 (?s + ?m)" using ok by (auto simp: range_ok_def)
  obtain i where i: "free_port_loop ?used ?s (?s + ?m) (probe ?s ?m ?h 0) (probe ?s ?m ?h 0) = Some (probe ?s ?m ?h i)"
    "0 \<le> i \<and> probe ?s ?m ?h i \<notin> set ?used \<and> (\<forall>j. 0 \<le> j \<and> j < i \<longrightarrow> probe ?s ?m ?h j \<in> set ?used) \<or>
     i = 0 \<and> (\<forall>j. 0 \<le> j \<and> int j < ?m \<longrightarrow> probe ?s ?m ?h j \<in> set ?used)"
    using free_port_loop_probe [OF m w, of 0 ?used ?h] m by auto
  have full: "(\<forall>j. int j < ?m \<longrightarrow> probe ?s ?m ?h j \<in> set ?used) \<longleftrightarrow> {?s ..< um_portEnd um} \<subseteq> set ?used"
    using probe_covers [of ?s _ ?m ?h] probe_bounds [OF m, of ?s ?h] by fastforce
  have bound: "?s \<le> probe ?s ?m ?h i" "probe ?s ?m ?h i < um_portEnd um"
    using probe_bounds [OF m, of ?s ?h i] by auto
  have "allocatePort um name = Some (probe ?s ?m ?h i, um\<lparr>um_allocations := AList.update name (probe ?s ?m ?h i) (um_allocations um)\<rparr>)"
    using i(1) new by (simp add: allocatePort_def basePort_probe [OF ok] port_probe_def Let_def)
  moreover from i(2) consider
      "probe ?s ?m ?h i \<notin> set ?used" "\<forall>j < i. probe ?s ?m ?h j \<in> set ?used"
    | "i = 0" "{?s ..< um_portEnd um} \<subseteq> set ?used" using full by auto
  then have "if {?s ..< um_portEnd um} \<subseteq> set ?used then i = 0
      else probe ?s ?m ?h i \<notin> set ?used \<and> (\<forall>j < i. probe ?s ?m ?h j \<in> set ?used)"
    using bound by cases auto
  ultimately show ?thesis
    using bound by (intro exI [of _ i]) (simp add: port_probe_def Let_def split: if_splits)
qed

lemma allocatePort_total:
  "range_ok um \<Longrightarrow> \<exists>port um'. allocatePort um name = Some (port, um') \<and>
     um' = um\<lparr>um_allocations := um_allocations um'\<rparr> \<and>
     map_of (um_allocations um') = (map_of (um_allocations um))(name \<mapsto> port) \<and>
     (\<forall>p. map_of (um_allocations um) name = Some p \<longrightarrow> port = p)"
  using allocatePort_new [of um name]
  by (cases "map_of (um_allocations um) name")
    (auto simp: Let_def update_conv' allocatePort_def map_upd_triv)

text \<open>Ports stay inside the range and apart from each other while the range has room.\<close>

definition allocations_ok :: "UpstreamManager \<Rightarrow> bool" where
  "allocations_ok um \<longleftrightarrow>
     gomap_ok (um_allocations um) \<and> distinct (map snd (um_allocations um)) \<and>
     list_all (\<lambda>(n, p). um_portStart um \<le> p \<and> p < um_portEnd um) (um_allocations um)"

lemma update_new: "map_of m k = None \<Longrightarrow> AList.update k v m = m @ [(k, v)]"
  by (induction m) (auto split: if_splits)

lemma allocatePort_invariant:
  assumes "range_ok um" "allocations_ok um"
    and room: "int (length (um_allocations um)) < um_portEnd um - um_portStart um"
    and alloc: "allocatePort um name = Some (port, um')"
  shows "allocations_ok um'"
proof (cases "map_of (um_allocations um) name")
  case None
  have "\<not> {um_portStart um ..< um_portEnd um} \<subseteq> snd ` set (um_allocations um)"
  proof
    assume "{um_portStart um ..< um_portEnd um} \<subseteq> snd ` set (um_allocations um)"
    then have "card {um_portStart um ..< um_portEnd um} \<le> length (um_allocations um)"
      by (metis card_length card_mono finite_set le_trans length_map set_map)
    with room show False by simp
  qed
  with allocatePort_new [OF assms(1) None] alloc assms(2) None show ?thesis
    by (auto simp: Let_def allocations_ok_def update_new map_of_eq_None_iff)
next
  case (Some p)
  with alloc assms(2) show ?thesis by (simp add: allocatePort_def)
qed

text \<open>With an empty range and the start port taken, the loop never leaves the start port.\<close>

lemma free_port_loop_empty_range:
  assumes "free_port_loop used s e base port = Some r"
  shows "used = used0 \<longrightarrow> s = s0 \<longrightarrow> e = e0 \<longrightarrow> base = base0 \<longrightarrow>
     s0 \<in> set used0 \<and> e0 \<le> s0 \<and> base0 \<noteq> s0 \<and> s0 < 2 ^ 63 - 1 \<and> - (2 ^ 63) \<le> s0 \<longrightarrow> port \<noteq> s0"
proof (rule free_port_loop.raw_induct [OF _ assms])
  fix f and us :: "int list" and s e b p r :: int
  assume IH: "\<And>us s e b p r. f us s e b p = Some r \<Longrightarrow> us = used0 \<longrightarrow> s = s0 \<longrightarrow> e = e0 \<longrightarrow> b = base0 \<longrightarrow>
     s0 \<in> set used0 \<and> e0 \<le> s0 \<and> base0 \<noteq> s0 \<and> s0 < 2 ^ 63 - 1 \<and> - (2 ^ 63) \<le> s0 \<longrightarrow> p \<noteq> s0"
    and body: "(if p \<in> set us then let port' = next_port s e p in if port' = b then Some port' else f us s e b port'
      else Some p) = Some r"
  have "next_port s0 e0 s0 = s0" if "e0 \<le> s0" "s0 < 2 ^ 63 - 1" "- (2 ^ 63) \<le> s0"
    using that by (simp add: next_port_def wrap64_id Let_def)
  with IH body show "us = used0 \<longrightarrow> s = s0 \<longrightarrow> e = e0 \<longrightarrow> b = base0 \<longrightarrow>
     s0 \<in> set used0 \<and> e0 \<le> s0 \<and> base0 \<noteq> s0 \<and> s0 < 2 ^ 63 - 1 \<and> - (2 ^ 63) \<le> s0 \<longrightarrow> p \<noteq> s0"
    by (auto simp: Let_def split: if_splits)
qed

subsection \<open>Synchronisation\<close>

definition dests_ok :: "(string, consul_Upstream) gomap \<Rightarrow> bool" where
  "dests_ok cur \<longleftrightarrow> gomap_ok cur \<and> (\<forall>k u. map_of cur k = Some u \<longrightarrow> cu_DestinationName u = k)"

lemma dests_ok_list: "dests_ok cur \<Longrightarrow> map (cu_DestinationName \<circ> snd) cur = map fst cur"
  by (auto simp: dests_ok_def map_of_eq_Some_iff)

lemma dests_ok_update: "dests_ok cur \<Longrightarrow> dests_ok (AList.update (cu_DestinationName u) u cur)"
  by (simp add: dests_ok_def update_conv')

lemma dests_ok_delete: "dests_ok cur \<Longrightarrow> dests_ok (AList.delete k cur)"
  by (auto simp: dests_ok_def delete_conv' map_upd_Some_unfold)

lemma current_upstreams_ok:
  "dests_ok (current_upstreams svc)"
  "keys (current_upstreams svc) = cu_DestinationName ` set (proxy_upstreams svc)"
  "map_of (current_upstreams svc) k = Some u \<Longrightarrow> u \<in> set (proxy_upstreams svc)"
proof -
  let ?f = "foldl (\<lambda>m u. AList.update (cu_DestinationName u) u m) []"
  have *: "dests_ok (?f us) \<and> keys (?f us) = cu_DestinationName ` set us \<and> (\<forall>k u. map_of (?f us) k = Some u \<longrightarrow> u \<in> set us)" for us
    by (induction us rule: rev_induct)
      (auto simp: dests_ok_update dom_update update_conv' map_upd_Some_unfold, auto simp: dests_ok_def)
  then show "dests_ok (current_upstreams svc)" "keys (current_upstreams svc) = cu_DestinationName ` set (proxy_upstreams svc)"
    "map_of (current_upstreams svc) k = Some u \<Longrightarrow> u \<in> set (proxy_upstreams svc)"
    by (auto simp: current_upstreams_def)
qed

definition new_upstream :: "UpstreamManager \<Rightarrow> string \<Rightarrow> consul_Upstream" where
  "new_upstream um name =
     \<lparr>cu_DestinationName = name, cu_LocalBindAddress = [], cu_LocalBindPort = the (map_of (um_allocations um) name)\<rparr>"

text \<open>Adding gives every new name an entry with its allocated port and changes no other entry.\<close>

lemma add_upstreams_correct:
  "range_ok um \<Longrightarrow> dests_ok cur \<Longrightarrow> distinct names \<Longrightarrow>
   \<exists>um' cur'. add_upstreams names (um, cur) = Some (um', cur') \<and> dests_ok cur' \<and>
     um' = um\<lparr>um_allocations := um_allocations um'\<rparr> \<and>
     dom (map_of (um_allocations um')) = dom (map_of (um_allocations um)) \<union> set names \<and>
     map_of (um_allocations um) \<subseteq>\<^sub>m map_of (um_allocations um') \<and>
     (\<forall>k. map_of cur' k = (if k \<in> set names then Some (new_upstream um' k) else map_of cur k))"
proof (induction names arbitrary: um cur)
  case Nil
  then show ?case by simp
next
  case (Cons name names)
  from allocatePort_total [OF Cons.prems(1), of name] obtain port um1 where a:
    "allocatePort um name = Some (port, um1)" "um1 = um\<lparr>um_allocations := um_allocations um1\<rparr>"
    "map_of (um_allocations um1) = (map_of (um_allocations um))(name \<mapsto> port)"
    "\<forall>p. map_of (um_allocations um) name = Some p \<longrightarrow> port = p" by blast
  let ?u = "\<lparr>cu_DestinationName = name, cu_LocalBindAddress = [], cu_LocalBindPort = port\<rparr>"
  let ?cur = "AList.update name ?u cur"
  have "range_ok um1" using Cons.prems(1) by (subst a(2)) (simp add: range_ok_def)
  moreover have "dests_ok ?cur" using dests_ok_update [OF Cons.prems(2), of ?u] by simp
  ultimately obtain um' cur' where b: "add_upstreams names (um1, ?cur) = Some (um', cur')" "dests_ok cur'"
    "um' = um1\<lparr>um_allocations := um_allocations um'\<rparr>"
    "dom (map_of (um_allocations um')) = dom (map_of (um_allocations um1)) \<union> set names"
    "map_of (um_allocations um1) \<subseteq>\<^sub>m map_of (um_allocations um')"
    "\<forall>k. map_of cur' k = (if k \<in> set names then Some (new_upstream um' k) else map_of ?cur k)"
    using Cons.IH [of um1 ?cur] Cons.prems(3) by auto
  have ext: "map_of (um_allocations um) \<subseteq>\<^sub>m map_of (um_allocations um1)"
    using a(3,4) by (auto simp: map_le_def)
  have "map_of (um_allocations um') name = Some port"
    using b(5) a(3) by (auto simp: map_le_def dest: bspec [of _ _ name])
  then have "?u = new_upstream um' name" by (simp add: new_upstream_def)
  then have "map_of cur' k = (if k \<in> set (name # names) then Some (new_upstream um' k) else map_of cur k)" for k
    using b(6) Cons.prems(3) by (auto simp: update_conv')
  moreover have "um' = um\<lparr>um_allocations := um_allocations um'\<rparr>" using a(2) b(3) by (metis UpstreamManager.update_convs(4) UpstreamManager.surjective UpstreamManager.select_convs)
  moreover have "dom (map_of (um_allocations um')) = dom (map_of (um_allocations um)) \<union> set (name # names)"
    using b(4) a(3) by auto
  ultimately show ?case
    using a(1) b(1,2) map_le_trans [OF ext b(5)] by (intro exI [of _ um', OF exI [of _ cur']]) simp
qed

lemma remove_upstreams_correct:
  "remove_upstreams names (um, cur) = (um', cur') \<Longrightarrow>
   um' = um\<lparr>um_allocations := um_allocations um'\<rparr> \<and> (dests_ok cur \<longrightarrow> dests_ok cur') \<and>
   map_of (um_allocations um') = map_of (um_allocations um) |` (- set names) \<and>
   map_of cur' = map_of cur |` (- set names)"
proof (induction names arbitrary: um cur)
  case (Cons name names)
  from Cons.IH [of "um\<lparr>um_allocations := AList.delete name (um_allocations um)\<rparr>" "AList.delete name cur"] Cons.prems
  show ?case
    by (simp add: delete_conv' dests_ok_delete restrict_map_def fun_eq_iff)
qed (simp add: restrict_map_def)

lemma SyncUpstreams_changes:
  assumes ok: "range_ok um" and svc: "agent (um_serviceName um) = Inr (Some svc)"
    and desired: "gomap_ok desired" "list_all snd desired" and reg: "\<And>r. register r = None"
    and differ: "keys desired \<noteq> cu_DestinationName ` set (proxy_upstreams svc)"
  shows "\<exists>um' rg. SyncUpstreams agent register um desired = Some (um', Some rg, Inr True) \<and>
     rg_ID rg = as_ID svc \<and> rg_Name rg = as_Service svc \<and> rg_Port rg = as_Port svc \<and>
     rg_Tags rg = as_Tags svc \<and> rg_Meta rg = as_Meta svc \<and>
     distinct (map cu_DestinationName (rg_SidecarUpstreams rg)) \<and>
     cu_DestinationName ` set (rg_SidecarUpstreams rg) = keys desired \<and>
     (\<forall>u \<in> set (rg_SidecarUpstreams rg). u \<in> set (proxy_upstreams svc) \<or>
        cu_DestinationName u \<notin> cu_DestinationName ` set (proxy_upstreams svc) \<and>
        cu_LocalBindAddress u = [] \<and> map_of (um_allocations um') (cu_DestinationName u) = Some (cu_LocalBindPort u))"
proof -
  let ?cur = "current_upstreams svc"
  let ?add = "to_add desired ?cur" and ?rem = "to_remove desired ?cur"
  note cur = current_upstreams_ok [of svc]
  have want: "get_or False desired k \<longleftrightarrow> k \<in> keys desired" for k
    using desired by (force simp: get_or_def map_of_eq_None_iff list_all_iff split: option.splits dest: map_of_SomeD)
  have add: "set ?add = keys desired - keys ?cur" and rem: "set ?rem = keys ?cur - keys desired"
    by (auto simp: to_add_def to_remove_def want map_of_eq_None_iff)
  have "distinct ?add" using desired(1) by (simp add: to_add_def)
  from add_upstreams_correct [OF ok cur(1) this] obtain um1 cur1 where a:
    "add_upstreams ?add (um, ?cur) = Some (um1, cur1)" "dests_ok cur1"
    "dom (map_of (um_allocations um1)) = dom (map_of (um_allocations um)) \<union> set ?add"
    "\<forall>k. map_of cur1 k = (if k \<in> set ?add then Some (new_upstream um1 k) else map_of ?cur k)" by blast
  obtain um' cur' where r: "remove_upstreams ?rem (um1, cur1) = (um', cur')" by fastforce
  from remove_upstreams_correct [OF r] a(2) have r': "dests_ok cur'"
    "map_of (um_allocations um') = map_of (um_allocations um1) |` (- set ?rem)" "map_of cur' = map_of cur1 |` (- set ?rem)" by auto
  let ?rg = "\<lparr>rg_ID = as_ID svc, rg_Name = as_Service svc, rg_Port = as_Port svc, rg_Tags = as_Tags svc,
     rg_Meta = as_Meta svc, rg_SidecarUpstreams = map snd cur'\<rparr>"
  have "\<not> (?add = [] \<and> ?rem = [])" using differ add rem cur(2) by auto
  then have "SyncUpstreams agent register um desired = Some (um', Some ?rg, Inr True)"
    using svc a(1) r reg by (simp add: SyncUpstreams_def Let_def)
  moreover have names: "map (cu_DestinationName \<circ> snd) cur' = map fst cur'" using dests_ok_list [OF r'(1)] .
  moreover have "distinct (map (cu_DestinationName \<circ> snd) cur')" using r'(1) unfolding names by (simp add: dests_ok_def)
  moreover have "set (map (cu_DestinationName \<circ> snd) cur') = keys desired"
    unfolding names using a(4) r'(3) add rem unfolding set_map dom_map_of_conv_image_fst [symmetric]
    by (auto simp: dom_def restrict_map_def split: if_splits)
  moreover have "u \<in> set (proxy_upstreams svc) \<or> cu_DestinationName u \<notin> cu_DestinationName ` set (proxy_upstreams svc) \<and>
      cu_LocalBindAddress u = [] \<and> map_of (um_allocations um') (cu_DestinationName u) = Some (cu_LocalBindPort u)"
    if "u \<in> snd ` set cur'" for u
  proof -
    from that obtain k where k: "map_of cur' k = Some u" using r'(1) by (auto simp: dests_ok_def)
    with r'(3) have kr: "k \<notin> set ?rem" "map_of cur1 k = Some u" by (auto simp: restrict_map_def split: if_splits)
    show ?thesis
    proof (cases "k \<in> set ?add")
      case True
      with a(3) have "k \<in> dom (map_of (um_allocations um1))" by simp
      with True a(4) kr r'(2) add cur(2) show ?thesis by (auto simp: new_upstream_def)
    next
      case False
      with a(4) kr cur(3) show ?thesis by auto
    qed
  qed
  ultimately show ?thesis
    by (intro exI [of _ um', OF exI [of _ ?rg]]) (simp flip: set_map)
qed

lemma SyncUpstreams_unchanged:
  assumes "agent (um_serviceName um) = Inr (Some svc)" "gomap_ok desired" "list_all snd desired"
    and "keys desired = cu_DestinationName ` set (proxy_upstreams svc)"
  shows "SyncUpstreams agent register um desired = Some (um, None, Inr False)"
proof -
  have "get_or False desired k \<longleftrightarrow> k \<in> keys desired" for k
    using assms(2,3) by (force simp: get_or_def map_of_eq_None_iff list_all_iff split: option.splits dest: map_of_SomeD)
  then have "to_add desired (current_upstreams svc) = []" "to_remove desired (current_upstreams svc) = []"
    using assms(4) current_upstreams_ok(2) [of svc]
    by (auto simp: to_add_def to_remove_def filter_empty_conv map_of_eq_None_iff)
  with assms(1) show ?thesis by (simp add: SyncUpstreams_def)
qed

lemma range_ok_allocations:
  "um' = um\<lparr>um_allocations := a\<rparr> \<Longrightarrow> range_ok um' = range_ok um \<and> um_serviceName um' = um_serviceName um"
  by (simp add: range_ok_def)

lemma SyncUpstreams_total:
  assumes "range_ok um" "gomap_ok desired"
  shows "\<exists>um' reg res. SyncUpstreams agent register um desired = Some (um', reg, res) \<and>
    range_ok um' \<and> um_serviceName um' = um_serviceName um"
proof (cases "\<exists>svc. agent (um_serviceName um) = Inr (Some svc)")
  case True
  then obtain svc where svc: "agent (um_serviceName um) = Inr (Some svc)" by blast
  let ?cur = "current_upstreams svc"
  have "distinct (to_add desired ?cur)" using assms(2) by (simp add: to_add_def)
  from add_upstreams_correct [OF assms(1) current_upstreams_ok(1) [of svc] this] obtain um1 cur1 where
    a: "add_upstreams (to_add desired ?cur) (um, ?cur) = Some (um1, cur1)" and um1: "um1 = um\<lparr>um_allocations := um_allocations um1\<rparr>"
    by metis
  obtain um2 cur2 where r: "remove_upstreams (to_remove desired ?cur) (um1, cur1) = (um2, cur2)" by fastforce
  from remove_upstreams_correct [OF r] have "um2 = um1\<lparr>um_allocations := um_allocations um2\<rparr>" by (rule conjunct1)
  note um2 = range_ok_allocations [OF this] and um1 = range_ok_allocations [OF um1]
  from svc a r um1 um2 assms(1) show ?thesis by (simp add: SyncUpstreams_def Let_def split: option.split)
next
  case False
  with assms(1) show ?thesis by (auto simp: SyncUpstreams_def split: sum.split option.split)
qed

lemma allocatePort_keys: "allocatePort um n = Some (p, um') \<Longrightarrow> keys (um_allocations um) \<subseteq> keys (um_allocations um')"
  unfolding set_map by (cases "map_of (um_allocations um) n") (auto simp: allocatePort_def Let_def dom_update rev_image_eqI split: option.splits)

lemma add_upstreams_keys:
  "add_upstreams ns (um, c) = Some (um', c') \<Longrightarrow> keys (um_allocations um) \<subseteq> keys (um_allocations um')"
proof (induction ns arbitrary: um c)
  case (Cons n ns)
  then obtain p um1 where a: "allocatePort um n = Some (p, um1)" by (auto split: option.splits)
  with Cons.prems Cons.IH [of um1] have "keys (um_allocations um1) \<subseteq> keys (um_allocations um')" by simp
  with allocatePort_keys [OF a] show ?case by (rule order_trans)
qed simp

subsection \<open>Registration and resolution\<close>

text \<open>What the Consul agent documents of a registration with a sidecar: the proxy \<open><id>-sidecar-proxy\<close>
  exists afterwards and has the upstreams of the registration.\<close>

definition sidecar_registered :: "agent_service \<Rightarrow> AgentServiceRegistration \<Rightarrow> bool" where
  "sidecar_registered agent rg \<longleftrightarrow>
     (case agent (rg_ID rg @ ''-sidecar-proxy'') of
        Inr (Some svc) \<Rightarrow> as_Proxy svc = Some (rg_SidecarUpstreams rg)
      | _ \<Rightarrow> False)"

lemma ResolveUpstreams_registered:
  assumes "sidecar_registered agent rg" "distinct (map cu_DestinationName (rg_SidecarUpstreams rg))"
    and "u \<in> set (rg_SidecarUpstreams rg)" "cu_LocalBindPort u \<noteq> 0" "cu_DestinationName u = rd_ServiceName route"
  shows "ResolveUpstreams agent (NewSidecarResolver (rg_ID rg)) route = Inr (route\<lparr>rd_Upstreams :=
    [\<lparr>up_Address = (if cu_LocalBindAddress u = [] then ''127.0.0.1'' else cu_LocalBindAddress u) @ '':'' @
        Itoa (cu_LocalBindPort u), up_Weight = 1, up_Healthy = True, up_NodeName = []\<rparr>]\<rparr>)"
proof -
  have "find (\<lambda>u'. cu_DestinationName u' = rd_ServiceName route) (rg_SidecarUpstreams rg) = Some u"
    using find_destination [OF assms(2,3)] assms(5) by simp
  then have "resolve_loop route pid (rg_SidecarUpstreams rg) = Inr (route\<lparr>rd_Upstreams :=
    [\<lparr>up_Address = (if cu_LocalBindAddress u = [] then ''127.0.0.1'' else cu_LocalBindAddress u) @ '':'' @
        Itoa (cu_LocalBindPort u), up_Weight = 1, up_Healthy = True, up_NodeName = []\<rparr>]\<rparr>)" for pid
    using assms(4) by (simp add: resolve_loop_Inr)
  with assms(1) show ?thesis
    by (auto simp: sidecar_registered_def ResolveUpstreams_def NewSidecarResolver_def proxy_upstreams_def Let_def
        split: sum.splits option.splits)
qed

subsection \<open>Properties\<close>

text \<open>C29: with a port range that is not empty, \<open>allocatePort\<close> returns. A service that has a port keeps it. A
  new one gets a port of the range: the first one free in the cyclic order that starts at the port its
  FNV-1a hash selects, or, only when every port of the range is taken, the port of the hash itself. While the range
  has room, all ports stay in the range and no two services share one.\<close>

theorem allocatePort_correct:
  assumes "range_ok um"
  shows "\<exists>port um'. allocatePort um name = Some (port, um') \<and>
    (case map_of (um_allocations um) name of
       Some p \<Rightarrow> port = p \<and> um' = um
     | None \<Rightarrow>
         um' = um\<lparr>um_allocations := AList.update name port (um_allocations um)\<rparr> \<and>
         um_portStart um \<le> port \<and> port < um_portEnd um \<and>
         (\<exists>i. port = port_probe um name i \<and>
            (if {um_portStart um ..< um_portEnd um} \<subseteq> snd ` set (um_allocations um) then i = 0
             else port \<notin> snd ` set (um_allocations um) \<and>
                  (\<forall>j < i. port_probe um name j \<in> snd ` set (um_allocations um))))) \<and>
    (allocations_ok um \<and> int (length (um_allocations um)) < um_portEnd um - um_portStart um \<longrightarrow> allocations_ok um')"
proof (cases "map_of (um_allocations um) name")
  case None
  with allocatePort_new [OF assms] obtain i where
    "let port = port_probe um name i; used = snd ` set (um_allocations um) in
     allocatePort um name = Some (port, um\<lparr>um_allocations := AList.update name port (um_allocations um)\<rparr>) \<and>
     um_portStart um \<le> port \<and> port < um_portEnd um \<and>
     (if {um_portStart um ..< um_portEnd um} \<subseteq> used then i = 0
      else port \<notin> used \<and> (\<forall>j < i. port_probe um name j \<in> used))" by blast
  note spec = this [unfolded Let_def]
  with allocatePort_invariant [OF assms] spec show ?thesis unfolding None option.case by blast
next
  case (Some p)
  then show ?thesis by (simp add: allocatePort_def)
qed

theorem allocatePort_correct_witness:
  "range_ok (NewUpstreamManager ''caddy'' 19000 29000) \<and>
   (\<exists>port um'. allocatePort (NewUpstreamManager ''caddy'' 19000 29000) ''web'' = Some (port, um') \<and>
      19000 \<le> port \<and> port < 29000 \<and> um_allocations um' = [(''web'', port)])"
  using allocatePort_correct [of "NewUpstreamManager ''caddy'' 19000 29000" "''web''"]
  by (auto simp: range_ok_def NewUpstreamManager_def)

text \<open>an empty port range, which the configuration does not rule out, lets \<open>allocatePort\<close> run forever: the
  second probe is the start port, and when that port is taken no further port is ever tried.\<close>

theorem allocatePort_empty_range_diverges:
  assumes "um_portEnd um \<le> um_portStart um" "0 \<le> um_portStart um" "um_portStart um < 2 ^ 62"
    and "map_of (um_allocations um) name = None"
    and "um_portStart um \<in> snd ` set (um_allocations um)" "basePort um name \<in> snd ` set (um_allocations um)"
    and "basePort um name \<noteq> um_portStart um"
  shows "allocatePort um name = None"
proof -
  let ?used = "map snd (um_allocations um)" and ?s = "um_portStart um" and ?e = "um_portEnd um" and ?b = "basePort um name"
  have "rangeSize um > 0" by (simp add: rangeSize_def Let_def)
  have mod: "0 \<le> uint (fnv32a name) mod rangeSize um" "uint (fnv32a name) mod rangeSize um < 2 ^ 32"
    using \<open>rangeSize um > 0\<close> zmod_le_nonneg_dividend [of "uint (fnv32a name)" "rangeSize um"] uint_bounded [of "fnv32a name"]
    by auto
  have b: "?b = ?s + uint (fnv32a name) mod rangeSize um"
    unfolding basePort_def using mod assms(2,3) by (intro wrap64_id) auto
  have "next_port ?s ?e ?b = ?s"
    using assms(1-3) mod b by (simp add: next_port_def wrap64_id Let_def)
  then have "free_port_loop ?used ?s ?e ?b ?b = free_port_loop ?used ?s ?e ?b ?s"
    using assms(6,7) by (subst free_port_loop.simps) (simp add: Let_def)
  also have "\<dots> = None"
    using free_port_loop_empty_range [of ?used ?s ?e ?b ?s _ ?used ?s ?e ?b] assms
    by (cases "free_port_loop ?used ?s ?e ?b ?s") auto
  finally show ?thesis using assms(4) by (simp add: allocatePort_def Let_def)
qed

lemma basePort_sample: "basePort (NewUpstreamManager ''caddy'' 200 200) ''a'' = 2420"
  by code_simp

theorem allocatePort_empty_range_diverges_witness:
  "allocatePort ((NewUpstreamManager ''caddy'' 200 200)\<lparr>um_allocations := [(''x'', 200), (''y'', 2420)]\<rparr>) ''a'' = None"
proof (rule allocatePort_empty_range_diverges)
  let ?um = "(NewUpstreamManager ''caddy'' 200 200)\<lparr>um_allocations := [(''x'', 200), (''y'', 2420)]\<rparr>"
  have "basePort ?um ''a'' = 2420"
    using basePort_sample by (simp add: basePort_def rangeSize_def NewUpstreamManager_def)
  then show "basePort ?um ''a'' \<in> snd ` set (um_allocations ?um)" "basePort ?um ''a'' \<noteq> um_portStart ?um"
    by (simp_all add: NewUpstreamManager_def)
qed (simp_all add: NewUpstreamManager_def)


definition sample_service :: "consul_Upstream list option \<Rightarrow> AgentService" where
  "sample_service proxy =
     \<lparr>as_ID = ''caddy'', as_Service = ''caddy'', as_Port = 80, as_Tags = [], as_Meta = [], as_Proxy = proxy\<rparr>"


text \<open>C31: once the registration sent by \<open>SyncUpstreams\<close> is in force, every desired service whose port is not 0
  resolves to one healthy upstream, its bind address in the registration (127.0.0.1 when none is given) and port.\<close>

theorem SyncUpstreams_then_resolve:
  assumes "range_ok um" "agent (um_serviceName um) = Inr (Some svc)"
    and "gomap_ok desired" "list_all snd desired" "\<And>r. register r = None"
    and "SyncUpstreams agent register um desired = Some (um', Some rg, Inr True)"
    and "sidecar_registered agent' rg" and "rd_ServiceName route \<in> keys desired"
    and "\<forall>u \<in> set (rg_SidecarUpstreams rg). cu_LocalBindPort u \<noteq> 0"
  shows "\<exists>u. u \<in> set (rg_SidecarUpstreams rg) \<and> cu_DestinationName u = rd_ServiceName route \<and>
    ResolveUpstreams agent' (NewSidecarResolver (as_ID svc)) route = Inr (route\<lparr>rd_Upstreams :=
      [\<lparr>up_Address = (if cu_LocalBindAddress u = [] then ''127.0.0.1'' else cu_LocalBindAddress u) @ '':'' @
          Itoa (cu_LocalBindPort u), up_Weight = 1, up_Healthy = True, up_NodeName = []\<rparr>]\<rparr>)"
proof -
  have "keys desired \<noteq> cu_DestinationName ` set (proxy_upstreams svc)"
    using SyncUpstreams_unchanged [of agent, OF assms(2-4)] assms(6) by auto
  from SyncUpstreams_changes [where agent = agent and register = register, OF assms(1-5) this] assms(6) have rg: "rg_ID rg = as_ID svc"
    "distinct (map cu_DestinationName (rg_SidecarUpstreams rg))"
    "cu_DestinationName ` set (rg_SidecarUpstreams rg) = keys desired" by auto
  with assms(8) obtain u where u: "u \<in> set (rg_SidecarUpstreams rg)" "cu_DestinationName u = rd_ServiceName route"
    by (metis imageE)
  with ResolveUpstreams_registered [OF assms(7) rg(2) u(1) _ u(2)] assms(9) rg(1) show ?thesis by metis
qed

theorem SyncUpstreams_then_resolve_witness:
  "ResolveUpstreams (\<lambda>_. Inr (Some (sample_service (Some
       [\<lparr>cu_DestinationName = ''web'', cu_LocalBindAddress = [], cu_LocalBindPort = 26825\<rparr>]))))
     (NewSidecarResolver ''caddy'') (zero_route\<lparr>rd_ServiceName := ''web''\<rparr>) =
   Inr (zero_route\<lparr>rd_ServiceName := ''web'', rd_Upstreams :=
     [\<lparr>up_Address = ''127.0.0.1:26825'', up_Weight = 1, up_Healthy = True, up_NodeName = []\<rparr>]\<rparr>)"
proof -
  let ?um = "NewUpstreamManager ''caddy'' 19000 29000" and ?agent = "\<lambda>_. Inr (Some (sample_service None))"
  let ?u = "\<lparr>cu_DestinationName = ''web'', cu_LocalBindAddress = [], cu_LocalBindPort = 26825\<rparr>"
  have base: "basePort ?um ''web'' = 26825" by code_simp
  have alloc: "allocatePort ?um ''web'' = Some (26825, ?um\<lparr>um_allocations := [(''web'', 26825)]\<rparr>)"
  proof -
    have "um_allocations ?um = []" by (simp add: NewUpstreamManager_def)
    then show ?thesis by (simp add: allocatePort_def base free_port_loop.simps Let_def)
  qed
  let ?rg = "\<lparr>rg_ID = ''caddy'', rg_Name = ''caddy'', rg_Port = 80, rg_Tags = [], rg_Meta = [], rg_SidecarUpstreams = [?u]\<rparr>"
  have sync: "SyncUpstreams ?agent (\<lambda>_. None) ?um [(''web'', True)] =
      Some (?um\<lparr>um_allocations := [(''web'', 26825)]\<rparr>, Some ?rg, Inr True)"
    using alloc by (simp add: SyncUpstreams_def sample_service_def current_upstreams_def proxy_upstreams_def to_add_def to_remove_def)
  have ok: "range_ok ?um" by (simp add: range_ok_def NewUpstreamManager_def)
  have sidecar: "sidecar_registered (\<lambda>_. Inr (Some (sample_service (Some [?u])))) ?rg"
    by (simp add: sidecar_registered_def sample_service_def)
  have k: "rd_ServiceName (zero_route\<lparr>rd_ServiceName := ''web''\<rparr>) \<in> keys [(''web'', True)]"
    and p: "\<forall>u \<in> set (rg_SidecarUpstreams ?rg). cu_LocalBindPort u \<noteq> 0"
    and d: "gomap_ok [(''web'', True)]" "list_all snd [(''web'', True)]" by simp_all
  obtain u where u: "u \<in> set (rg_SidecarUpstreams ?rg)"
    and res: "ResolveUpstreams (\<lambda>_. Inr (Some (sample_service (Some [?u])))) (NewSidecarResolver (as_ID (sample_service None)))
      (zero_route\<lparr>rd_ServiceName := ''web''\<rparr>) = Inr ((zero_route\<lparr>rd_ServiceName := ''web''\<rparr>)\<lparr>rd_Upstreams :=
      [\<lparr>up_Address = (if cu_LocalBindAddress u = [] then ''127.0.0.1'' else cu_LocalBindAddress u) @ '':'' @
          Itoa (cu_LocalBindPort u), up_Weight = 1, up_Healthy = True, up_NodeName = []\<rparr>]\<rparr>)"
    using SyncUpstreams_then_resolve [where agent = ?agent, OF ok refl d refl sync sidecar k p] by blast
  from u have "cu_LocalBindAddress u = []" "cu_LocalBindPort u = 26825" by simp_all
  note res [unfolded this]
  moreover have "Itoa 26825 = ''26825''" by (simp add: Itoa_def nat_digits.simps digit_chars)
  moreover have "as_ID (sample_service None) = ''caddy''" by (simp add: sample_service_def)
  ultimately show ?thesis by simp
qed

text \<open>when the registration that \<open>SyncUpstreams\<close> reads carries no proxy configuration, which is the case
  for a service that is not itself a proxy, nothing counts as stale: an empty desired set sends nothing and leaves
  old sidecar upstreams and port allocations in place, and a set that is not empty is sent on every call.\<close>

theorem SyncUpstreams_without_proxy:
  assumes "agent (um_serviceName um) = Inr (Some svc)" "as_Proxy svc = None"
  shows "SyncUpstreams agent register um [] = Some (um, None, Inr False) \<and>
    (SyncUpstreams agent register um desired = Some (um', rg, res) \<and> desired \<noteq> [] \<longrightarrow>
       rg \<noteq> None \<and> keys (um_allocations um) \<subseteq> keys (um_allocations um'))"
proof -
  have cur: "current_upstreams svc = []" using assms(2) by (simp add: current_upstreams_def proxy_upstreams_def)
  have none: "to_add d [] = map fst d" "to_remove d [] = []" for d
    by (simp_all add: to_add_def to_remove_def)
  show ?thesis
    using assms(1)
    by (auto simp: SyncUpstreams_def cur none Let_def image_subset_iff split: option.splits
        dest!: add_upstreams_keys [unfolded set_map])
qed

theorem SyncUpstreams_without_proxy_witness:
  "SyncUpstreams (\<lambda>_. Inr (Some (sample_service None))) (\<lambda>_. None)
     ((NewUpstreamManager ''caddy'' 19000 29000)\<lparr>um_allocations := [(''old'', 19005)]\<rparr>) []
   = Some ((NewUpstreamManager ''caddy'' 19000 29000)\<lparr>um_allocations := [(''old'', 19005)]\<rparr>, None, Inr False)"
  using SyncUpstreams_without_proxy [of "\<lambda>_. Inr (Some (sample_service None))"] by (simp add: sample_service_def)

end
