(* ===== verification/TCP_SNI.thy ===== *)
theory TCP_SNI
  imports Go_Prelude "HOL-Library.Sublist"
begin

text \<open>
  \<open>tcp_sni.go\<close>: the server name of a TLS ClientHello is read from the first bytes of a connection, which
  are then replayed. Bytes are \<^typ>\<open>char\<close>s and byte slices are strings.

  The reader \<open>golang.org/x/crypto/cryptobyte\<close> is not part of the program: its operations are the
  fields of a record passed to \<open>extractSNI\<close>, each returning the rest of the input (and the value
  read), or None for the Go result false. The locale \<open>cryptobyte_reader\<close> states what the package documents of
  them. The loops over extensions and names have no bound but the one those laws give, so they are
  partial functions, shown to return.
\<close>

subsection \<open>Byte readers\<close>

record cryptobyte =
  cb_Skip :: "nat \<Rightarrow> string \<Rightarrow> string option"
  cb_ReadUint8 :: "string \<Rightarrow> (nat \<times> string) option"
  cb_ReadUint16 :: "string \<Rightarrow> (nat \<times> string) option"
  cb_ReadUint8LengthPrefixed :: "string \<Rightarrow> (string \<times> string) option"
  cb_ReadUint16LengthPrefixed :: "string \<Rightarrow> (string \<times> string) option"

definition tlsRecordTypeHandshake :: nat where "tlsRecordTypeHandshake = 0x16"
definition tlsHandshakeClientHello :: nat where "tlsHandshakeClientHello = 0x01"
definition tlsRecordHeaderLen :: nat where "tlsRecordHeaderLen = 5"
definition maxClientHelloRecord :: nat where "maxClientHelloRecord = 16384"
definition extensionServerName :: nat where "extensionServerName = 0"

lemmas tls_consts [go_eval] = tlsRecordTypeHandshake_def tlsHandshakeClientHello_def tlsRecordHeaderLen_def
  maxClientHelloRecord_def extensionServerName_def

subsection \<open>Extracting the server name\<close>

text \<open>The loop over the names of a server name list: Some of the returned pair, or None when the list
  ends without a host name and the loop over the extensions goes on.\<close>

partial_function (option) name_list_loop ::
  "cryptobyte \<Rightarrow> string \<Rightarrow> (string \<times> bool) option option" where
  "name_list_loop cb nameList =
     (if nameList = [] then Some None
      else case cb_ReadUint8 cb nameList of
             None \<Rightarrow> Some (Some ([], False))
           | Some (nameType, nameList1) \<Rightarrow>
               (case cb_ReadUint16LengthPrefixed cb nameList1 of
                  None \<Rightarrow> Some (Some ([], False))
                | Some (serverName, nameList2) \<Rightarrow>
                    if serverName = [] then Some (Some ([], False))
                    else if nameType = 0 then Some (Some (serverName, True))
                    else name_list_loop cb nameList2))"

partial_function (option) extension_loop :: "cryptobyte \<Rightarrow> string \<Rightarrow> (string \<times> bool) option" where
  "extension_loop cb extensions =
     (if extensions = [] then Some ([], False)
      else case cb_ReadUint16 cb extensions of
             None \<Rightarrow> Some ([], False)
           | Some (extType, extensions1) \<Rightarrow>
               (case cb_ReadUint16LengthPrefixed cb extensions1 of
                  None \<Rightarrow> Some ([], False)
                | Some (extData, extensions2) \<Rightarrow>
                    if extType \<noteq> extensionServerName then extension_loop cb extensions2
                    else case cb_ReadUint16LengthPrefixed cb extData of
                           None \<Rightarrow> Some ([], False)
                         | Some (nameList, extData') \<Rightarrow>
                             if nameList = [] then Some ([], False)
                             else case name_list_loop cb nameList of
                                    None \<Rightarrow> None
                                  | Some (Some r) \<Rightarrow> Some r
                                  | Some None \<Rightarrow> extension_loop cb extensions2))"

definition extractSNI :: "cryptobyte \<Rightarrow> string \<Rightarrow> (string \<times> bool) option" where
  "extractSNI cb hs =
     (case cb_Skip cb 4 hs of None \<Rightarrow> Some ([], False) | Some s1 \<Rightarrow>
      case cb_Skip cb 2 s1 of None \<Rightarrow> Some ([], False) | Some s2 \<Rightarrow>
      case cb_Skip cb 32 s2 of None \<Rightarrow> Some ([], False) | Some s3 \<Rightarrow>
      case cb_ReadUint8LengthPrefixed cb s3 of None \<Rightarrow> Some ([], False) | Some (sessionID, s4) \<Rightarrow>
      case cb_ReadUint16LengthPrefixed cb s4 of None \<Rightarrow> Some ([], False) | Some (cipherSuites, s5) \<Rightarrow>
      case cb_ReadUint8LengthPrefixed cb s5 of None \<Rightarrow> Some ([], False) | Some (compressionMethods, s6) \<Rightarrow>
        if s6 = [] then Some ([], False)
        else case cb_ReadUint16LengthPrefixed cb s6 of None \<Rightarrow> Some ([], False) | Some (extensions, s7) \<Rightarrow>
               extension_loop cb extensions)"

subsection \<open>Connections\<close>

text \<open>
  The receiving side of a connection: the bytes that arrive before the peer closes or the read
  deadline passes, how many of them each further \<open>Read\<close> delivers at most (at least one, as long as bytes are left),
  and the error reported after them.
\<close>

record conn =
  cn_in :: string
  cn_chunks :: "nat list"
  cn_err :: string

definition conn_Read :: "conn \<Rightarrow> nat \<Rightarrow> string \<times> conn" where
  "conn_Read c n =
     (case cn_chunks c of
        [] \<Rightarrow> (take n (cn_in c), c\<lparr>cn_in := drop n (cn_in c)\<rparr>)
      | k # ks \<Rightarrow> let m = min n (Suc k)
                  in (take m (cn_in c), c\<lparr>cn_in := drop m (cn_in c), cn_chunks := ks\<rparr>))"

text \<open>\<open>io.ReadFull\<close>: the whole buffer, or the error after fewer bytes, which are gone.\<close>

definition ReadFull :: "conn \<Rightarrow> nat \<Rightarrow> (string + string) \<times> conn" where
  "ReadFull c n =
     (if n \<le> length (cn_in c) then (Inr (take n (cn_in c)), c\<lparr>cn_in := drop n (cn_in c)\<rparr>)
      else (Inl (cn_err c), c\<lparr>cn_in := []\<rparr>))"

record peek_result =
  pk_sni :: string
  pk_buffered :: string
  pk_isTLS :: bool
  pk_err :: "string option"

definition record_len :: "string \<Rightarrow> nat" where
  "record_len hdr = byte (hdr ! 3) * 256 + byte (hdr ! 4)"

definition peekClientHelloSNI :: "cryptobyte \<Rightarrow> conn \<Rightarrow> (peek_result \<times> conn) option" where
  "peekClientHelloSNI cb c =
     (case ReadFull c tlsRecordHeaderLen of
        (Inl err, c1) \<Rightarrow> Some (\<lparr>pk_sni = [], pk_buffered = [], pk_isTLS = False, pk_err = Some err\<rparr>, c1)
      | (Inr hdr, c1) \<Rightarrow>
          if byte (hdr ! 0) \<noteq> tlsRecordTypeHandshake then
            Some (\<lparr>pk_sni = [], pk_buffered = hdr, pk_isTLS = False, pk_err = None\<rparr>, c1)
          else
            let recLen = record_len hdr in
            if recLen = 0 \<or> recLen > maxClientHelloRecord then
              Some (\<lparr>pk_sni = [], pk_buffered = hdr, pk_isTLS = False, pk_err = None\<rparr>, c1)
            else
              case ReadFull c1 recLen of
                (Inl err, c2) \<Rightarrow> Some (\<lparr>pk_sni = [], pk_buffered = hdr, pk_isTLS = True, pk_err = Some err\<rparr>, c2)
              | (Inr body, c2) \<Rightarrow>
                  if length body < 4 \<or> byte (body ! 0) \<noteq> tlsHandshakeClientHello then
                    Some (\<lparr>pk_sni = [], pk_buffered = hdr @ body, pk_isTLS = True, pk_err = None\<rparr>, c2)
                  else case extractSNI cb body of
                         None \<Rightarrow> None
                       | Some (sni, ok) \<Rightarrow>
                           Some (\<lparr>pk_sni = sni, pk_buffered = hdr @ body, pk_isTLS = True, pk_err = None\<rparr>, c2))"

subsection \<open>Replaying the prefix\<close>

record prefixConn =
  px_Conn :: conn
  px_prefix :: string
  px_off :: nat

datatype client_conn = PlainConn conn | PrefixedConn prefixConn

definition newPrefixConn :: "conn \<Rightarrow> string \<Rightarrow> client_conn" where
  "newPrefixConn c pre =
     (if pre = [] then PlainConn c
      else PrefixedConn \<lparr>px_Conn = c, px_prefix = pre, px_off = 0\<rparr>)"

definition prefixConn_Read :: "prefixConn \<Rightarrow> nat \<Rightarrow> string \<times> prefixConn" where
  "prefixConn_Read p n =
     (if px_off p < length (px_prefix p) then
        let data = take n (drop (px_off p) (px_prefix p))
        in (data, p\<lparr>px_off := px_off p + length data\<rparr>)
      else case conn_Read (px_Conn p) n of (data, c) \<Rightarrow> (data, p\<lparr>px_Conn := c\<rparr>))"

definition client_Read :: "client_conn \<Rightarrow> nat \<Rightarrow> string \<times> client_conn" where
  "client_Read c n =
     (case c of
        PlainConn c \<Rightarrow> (case conn_Read c n of (data, c') \<Rightarrow> (data, PlainConn c'))
      | PrefixedConn p \<Rightarrow> (case prefixConn_Read p n of (data, p') \<Rightarrow> (data, PrefixedConn p')))"

lemmas [go_eval] = extractSNI_def conn_Read_def ReadFull_def record_len_def peekClientHelloSNI_def
  newPrefixConn_def prefixConn_Read_def client_Read_def

subsection \<open>The contract of the byte reader\<close>

locale cryptobyte_reader =
  fixes cb :: cryptobyte
  assumes skip: "cb_Skip cb n s = (if n \<le> length s then Some (drop n s) else None)"
    and read8: "cb_ReadUint8 cb s = (case s of [] \<Rightarrow> None | b # r \<Rightarrow> Some (byte b, r))"
    and read16: "cb_ReadUint16 cb s = (case s of b1 # b2 # r \<Rightarrow> Some (byte b1 * 256 + byte b2, r) | _ \<Rightarrow> None)"
    and prefixed8: "cb_ReadUint8LengthPrefixed cb s =
      (case s of [] \<Rightarrow> None
       | b # r \<Rightarrow> if byte b \<le> length r then Some (take (byte b) r, drop (byte b) r) else None)"
    and prefixed16: "cb_ReadUint16LengthPrefixed cb s =
      (case s of
         b1 # b2 # r \<Rightarrow>
           (let n = byte b1 * 256 + byte b2 in if n \<le> length r then Some (take n r, drop n r) else None)
       | _ \<Rightarrow> None)"
begin

lemma read8_Some: "cb_ReadUint8 cb s = Some (v, r) \<Longrightarrow> \<exists>p. p \<noteq> [] \<and> s = p @ r"
  by (auto simp: read8 split: list.splits)

lemma read16_Some: "cb_ReadUint16 cb s = Some (v, r) \<Longrightarrow> \<exists>p. p \<noteq> [] \<and> s = p @ r"
  by (auto simp: read16 split: list.splits)

lemma prefixed8_Some: "cb_ReadUint8LengthPrefixed cb s = Some (d, r) \<Longrightarrow> \<exists>p. p \<noteq> [] \<and> s = p @ d @ r"
  by (auto simp: prefixed8 split: list.splits if_splits intro!: exI [of _ "[_]"])

lemma prefixed16_Some: "cb_ReadUint16LengthPrefixed cb s = Some (d, r) \<Longrightarrow> \<exists>p. p \<noteq> [] \<and> s = p @ d @ r"
  by (auto simp: prefixed16 Let_def split: list.splits if_splits intro!: exI [of _ "[_, _]"])

lemma skip_Some: "cb_Skip cb n s = Some r \<Longrightarrow> \<exists>p. s = p @ r"
  by (auto simp: skip split: if_splits) (metis append_take_drop_id)

text \<open>The loops return, and what they return as a name is a part of the input that is not empty.\<close>

lemma name_list_loop_safe:
  "\<exists>r. name_list_loop cb s = Some r \<and> (\<forall>n ok. r = Some (n, ok) \<longrightarrow> (if ok then n \<noteq> [] \<and> sublist n s else n = []))"
proof (induction s rule: length_induct)
  case (1 s)
  show ?case
  proof (cases "s \<noteq> [] \<and> (\<exists>t s1 d s2. cb_ReadUint8 cb s = Some (t, s1) \<and>
      cb_ReadUint16LengthPrefixed cb s1 = Some (d, s2) \<and> d \<noteq> [])")
    case False
    then show ?thesis by (subst name_list_loop.simps) (auto split: option.splits)
  next
    case True
    then obtain t s1 d s2 where r: "s \<noteq> []" "cb_ReadUint8 cb s = Some (t, s1)"
      "cb_ReadUint16LengthPrefixed cb s1 = Some (d, s2)" "d \<noteq> []" by blast
    from read8_Some [OF r(2)] prefixed16_Some [OF r(3)] obtain p q where pq: "s = p @ q @ d @ s2" "p \<noteq> []" by auto
    then have "sublist d s" "sublist n s2 \<Longrightarrow> sublist n s" for n
      by (auto simp: sublist_def) (metis append.assoc)+
    moreover from pq have "length s2 < length s" by (cases p) auto
    ultimately show ?thesis
      using 1 [rule_format, of s2] r by (subst name_list_loop.simps) fastforce
  qed
qed

end

lemma sublist_within: "sublist n d \<Longrightarrow> sublist n (p @ d @ q)"
  by (metis append.assoc sublist_def)

lemma sublist_tail: "sublist n q \<Longrightarrow> sublist n (p @ q)"
  by (metis sublist_append)

definition sni_safe :: "string \<Rightarrow> (string \<times> bool) option \<Rightarrow> bool" where
  "sni_safe s res \<longleftrightarrow>
     (case res of None \<Rightarrow> False | Some (n, ok) \<Rightarrow> if ok then n \<noteq> [] \<and> sublist n s else n = [])"

lemma sni_safe_none [simp]: "sni_safe s (Some ([], False))"
  by (simp add: sni_safe_def)

lemma sni_safe_tail: "sni_safe q res \<Longrightarrow> sni_safe (p @ q) res"
  by (auto simp: sni_safe_def sublist_tail split: option.splits if_splits)

lemma sni_safe_inside: "sni_safe d res \<Longrightarrow> sni_safe (p @ d @ q) res"
  by (auto simp: sni_safe_def sublist_within split: option.splits if_splits)

context cryptobyte_reader
begin

lemma extension_loop_safe: "sni_safe s (extension_loop cb s)"
proof (induction s rule: length_induct)
  case (1 s)
  show ?case
  proof (cases "s \<noteq> [] \<and> (\<exists>t s1 d s2. cb_ReadUint16 cb s = Some (t, s1) \<and> cb_ReadUint16LengthPrefixed cb s1 = Some (d, s2))")
    case False
    then show ?thesis by (subst extension_loop.simps) (auto split: option.splits)
  next
    case True
    then obtain t s1 d s2 where r: "s \<noteq> []" "cb_ReadUint16 cb s = Some (t, s1)"
      "cb_ReadUint16LengthPrefixed cb s1 = Some (d, s2)" by blast
    from read16_Some [OF r(2)] prefixed16_Some [OF r(3)] obtain p q where pq: "s = p @ q @ d @ s2" "p \<noteq> []" by auto
    then have "length s2 < length s" by (cases p) auto
    then have rest: "sni_safe s (extension_loop cb s2)"
      using 1 sni_safe_tail [of s2 _ "p @ q @ d"] pq(1) by auto
    show ?thesis
    proof (cases "t = extensionServerName \<and> (\<exists>names d'. cb_ReadUint16LengthPrefixed cb d = Some (names, d') \<and> names \<noteq> [])")
      case False
      with r rest show ?thesis by (subst extension_loop.simps) (auto split: option.splits)
    next
      case True
      then obtain names d' where n: "t = extensionServerName" "cb_ReadUint16LengthPrefixed cb d = Some (names, d')" "names \<noteq> []"
        by blast
      from prefixed16_Some [OF n(2)] obtain p' where "d = p' @ names @ d'" by auto
      then have names: "sni_safe names res \<Longrightarrow> sni_safe s res" for res
        using sni_safe_inside [of names res "p @ q @ p'" "d' @ s2"] pq(1) by simp
      obtain r' where r': "name_list_loop cb names = Some r'"
        "\<forall>n ok. r' = Some (n, ok) \<longrightarrow> (if ok then n \<noteq> [] \<and> sublist n names else n = [])"
        using name_list_loop_safe by blast
      then have "sni_safe s (Some x)" if "r' = Some x" for x
        using that by (intro names) (auto simp: sni_safe_def split: prod.splits)
      with r n r'(1) rest show ?thesis
        by (subst extension_loop.simps) (auto split: option.splits)
    qed
  qed
qed

lemma reader_safe:
  "cb_Skip cb n s = Some r \<Longrightarrow> sni_safe r res \<Longrightarrow> sni_safe s res"
  "cb_ReadUint8LengthPrefixed cb s = Some (d, r) \<Longrightarrow> sni_safe r res \<Longrightarrow> sni_safe s res"
  "cb_ReadUint16LengthPrefixed cb s = Some (d, r) \<Longrightarrow> sni_safe r res \<Longrightarrow> sni_safe s res"
  using skip_Some [of n s r] prefixed8_Some [of s d r] prefixed16_Some [of s d r]
    sni_safe_tail [of r res] by (auto simp: sni_safe_tail)

lemma inner_safe: "cb_ReadUint16LengthPrefixed cb s = Some (d, r) \<Longrightarrow> sni_safe d res \<Longrightarrow> sni_safe s res"
  using prefixed16_Some [of s d r] sni_safe_inside by auto

lemma extractSNI_safe: "sni_safe hs (extractSNI cb hs)"
  unfolding extractSNI_def
  by (simp split: option.split) (meson reader_safe inner_safe extension_loop_safe)

end

subsection \<open>Encoded messages\<close>

text \<open>The wire format of RFC 8446 and RFC 6066: a ClientHello with its extensions.\<close>

definition u16 :: "nat \<Rightarrow> string" where
  "u16 n = [char_of (n div 256), char_of (n mod 256)]"

definition lp8 :: "string \<Rightarrow> string" where
  "lp8 d = char_of (length d) # d"

definition lp16 :: "string \<Rightarrow> string" where
  "lp16 d = u16 (length d) @ d"

datatype hello_ext = ServerName "(nat \<times> string) list" | OtherExt nat string

definition enc_name :: "nat \<times> string \<Rightarrow> string" where
  "enc_name e = char_of (fst e) # lp16 (snd e)"

fun ext_type :: "hello_ext \<Rightarrow> nat" where
  "ext_type (ServerName ns) = extensionServerName"
| "ext_type (OtherExt t d) = t"

fun ext_data :: "hello_ext \<Rightarrow> string" where
  "ext_data (ServerName ns) = lp16 (concat (map enc_name ns))"
| "ext_data (OtherExt t d) = d"

definition enc_ext :: "hello_ext \<Rightarrow> string" where
  "enc_ext e = u16 (ext_type e) @ lp16 (ext_data e)"

record client_hello =
  hl_header :: string
  hl_version :: string
  hl_random :: string
  hl_session :: string
  hl_ciphers :: string
  hl_compression :: string
  hl_extensions :: "hello_ext list"

definition enc_hello :: "client_hello \<Rightarrow> string" where
  "enc_hello h = hl_header h @ hl_version h @ hl_random h @ lp8 (hl_session h) @ lp16 (hl_ciphers h) @
     lp8 (hl_compression h) @ lp16 (concat (map enc_ext (hl_extensions h)))"

fun ext_ok :: "hello_ext \<Rightarrow> bool" where
  "ext_ok (ServerName ns) \<longleftrightarrow>
     ns \<noteq> [] \<and> length (concat (map enc_name ns)) + 2 < 65536 \<and> list_all (\<lambda>(t, n). t < 256 \<and> n \<noteq> []) ns"
| "ext_ok (OtherExt t d) \<longleftrightarrow> t \<noteq> extensionServerName \<and> t < 65536 \<and> length d < 65536"

definition hello_ok :: "client_hello \<Rightarrow> bool" where
  "hello_ok h \<longleftrightarrow> length (hl_header h) = 4 \<and> length (hl_version h) = 2 \<and> length (hl_random h) = 32 \<and>
     length (hl_session h) < 256 \<and> length (hl_ciphers h) < 65536 \<and> length (hl_compression h) < 256 \<and>
     length (concat (map enc_ext (hl_extensions h))) < 65536 \<and> list_all ext_ok (hl_extensions h)"

text \<open>The host names a message carries, in order.\<close>

fun ext_hosts :: "hello_ext \<Rightarrow> string list" where
  "ext_hosts (ServerName ns) = map snd (filter (\<lambda>(t, n). t = 0) ns)"
| "ext_hosts (OtherExt t d) = []"

definition hello_hosts :: "client_hello \<Rightarrow> string list" where
  "hello_hosts h = concat (map ext_hosts (hl_extensions h))"

definition first_host :: "string list \<Rightarrow> string \<times> bool" where
  "first_host hs = (case hs of [] \<Rightarrow> ([], False) | h # _ \<Rightarrow> (h, True))"

lemma first_host_append: "first_host (a @ b) = (case a of [] \<Rightarrow> first_host b | h # _ \<Rightarrow> (h, True))"
  by (simp add: first_host_def split: list.split)

lemma first_host_Cons [simp]: "first_host (h # hs) = (h, True)"
  by (simp add: first_host_def)

lemma length_u16 [simp]: "length (u16 n) = 2"
  by (simp add: u16_def)

lemma lp16_nonempty [simp]: "lp16 d \<noteq> []"
  by (simp add: lp16_def u16_def)

lemma name_length: "n \<in> set ns \<Longrightarrow> length (snd n) \<le> length (concat (map enc_name ns))"
  by (induction ns) (auto simp: enc_name_def lp16_def)

context cryptobyte_reader
begin

lemma read16_u16: "n < 65536 \<Longrightarrow> cb_ReadUint16 cb (u16 n @ r) = Some (n, r)"
  by (simp add: read16 u16_def)

lemma read8_char: "t < 256 \<Longrightarrow> cb_ReadUint8 cb (char_of t # r) = Some (t, r)"
  by (simp add: read8)

lemma prefixed8_lp8: "length d < 256 \<Longrightarrow> cb_ReadUint8LengthPrefixed cb (lp8 d @ r) = Some (d, r)"
  by (simp add: prefixed8 lp8_def)

lemma prefixed16_lp16: "length d < 65536 \<Longrightarrow> cb_ReadUint16LengthPrefixed cb (lp16 d @ r) = Some (d, r)"
  by (simp add: prefixed16 lp16_def u16_def Let_def)

lemma name_list_loop_names:
  "list_all (\<lambda>(t, n). t < 256 \<and> n \<noteq> [] \<and> length n < 65536) ns \<Longrightarrow>
   name_list_loop cb (concat (map enc_name ns)) =
     Some (case map snd (filter (\<lambda>(t, n). t = 0) ns) of [] \<Rightarrow> None | n # _ \<Rightarrow> Some (n, True))"
proof (induction ns)
  case Nil
  then show ?case by (subst name_list_loop.simps) simp
next
  case (Cons e ns)
  obtain t n where e: "e = (t, n)" by fastforce
  with Cons.prems have wf: "t < 256" "n \<noteq> []" "length n < 65536" by auto
  have "concat (map enc_name (e # ns)) = char_of t # lp16 n @ concat (map enc_name ns)"
    by (simp add: e enc_name_def)
  with wf Cons show ?case
    by (subst name_list_loop.simps) (simp add: e read8_char prefixed16_lp16)
qed

lemma extension_loop_exts:
  "list_all ext_ok es \<Longrightarrow> extension_loop cb (concat (map enc_ext es)) = Some (first_host (concat (map ext_hosts es)))"
proof (induction es)
  case Nil
  then show ?case by (subst extension_loop.simps) (simp add: first_host_def)
next
  case (Cons e es)
  have enc: "concat (map enc_ext (e # es)) = u16 (ext_type e) @ lp16 (ext_data e) @ concat (map enc_ext es)"
    by (simp add: enc_ext_def)
  have "u16 x @ y \<noteq> []" for x y by (simp add: u16_def)
  show ?case
  proof (cases e)
    case (OtherExt t d)
    with Cons \<open>\<And>x y. u16 x @ y \<noteq> []\<close> show ?thesis
      unfolding enc by (subst extension_loop.simps) (simp add: read16_u16 prefixed16_lp16)
  next
    case (ServerName ns)
    let ?names = "concat (map enc_name ns)"
    from Cons.prems ServerName have wf: "length ?names < 65534" "ns \<noteq> []" "list_all (\<lambda>(t, n). t < 256 \<and> n \<noteq> []) ns" by auto
    have "list_all (\<lambda>(t, n). t < 256 \<and> n \<noteq> [] \<and> length n < 65536) ns"
      using wf(1,3) name_length [of _ ns] by (fastforce simp: list_all_iff)
    note loop = name_list_loop_names [OF this]
    have "?names \<noteq> []" using wf(2) by (cases ns) (auto simp: enc_name_def)
    moreover have "length (lp16 ?names) < 65536" using wf(1) by (simp add: lp16_def)
    moreover have "cb_ReadUint16LengthPrefixed cb (lp16 ?names) = Some (?names, [])"
      using prefixed16_lp16 [of ?names "[]"] wf(1) by simp
    ultimately show ?thesis
      using Cons loop ServerName \<open>\<And>x y. u16 x @ y \<noteq> []\<close>
      unfolding enc by (subst extension_loop.simps, cases "map snd (filter (\<lambda>(t, n). t = 0) ns)")
        (simp_all add: read16_u16 prefixed16_lp16 extensionServerName_def first_host_append
          del: concat_eq_Nil_conv map_is_Nil_conv)
  qed
qed

lemma extractSNI_hello: "hello_ok h \<Longrightarrow> extractSNI cb (enc_hello h) = Some (first_host (hello_hosts h))"
  using prefixed16_lp16 [of "concat (map enc_ext (hl_extensions h))" "[]"]
  by (simp add: extractSNI_def enc_hello_def hello_ok_def hello_hosts_def skip prefixed8_lp8 prefixed16_lp16
      extension_loop_exts)

end

text \<open>A reader that follows the documentation.\<close>

definition std_cryptobyte :: cryptobyte where
  "std_cryptobyte =
     \<lparr>cb_Skip = (\<lambda>n s. if n \<le> length s then Some (drop n s) else None),
      cb_ReadUint8 = (\<lambda>s. case s of [] \<Rightarrow> None | b # r \<Rightarrow> Some (byte b, r)),
      cb_ReadUint16 = (\<lambda>s. case s of b1 # b2 # r \<Rightarrow> Some (byte b1 * 256 + byte b2, r) | _ \<Rightarrow> None),
      cb_ReadUint8LengthPrefixed =
        (\<lambda>s. case s of [] \<Rightarrow> None
         | b # r \<Rightarrow> if byte b \<le> length r then Some (take (byte b) r, drop (byte b) r) else None),
      cb_ReadUint16LengthPrefixed =
        (\<lambda>s. case s of
           b1 # b2 # r \<Rightarrow>
             (let n = byte b1 * 256 + byte b2 in if n \<le> length r then Some (take n r, drop n r) else None)
         | _ \<Rightarrow> None)\<rparr>"

interpretation std: cryptobyte_reader std_cryptobyte
  by unfold_locales (simp_all add: std_cryptobyte_def)

subsection \<open>Byte sources\<close>

text \<open>What the proxy relies on when it reads a connection: no byte is lost, invented or reordered, and
  a read makes progress while bytes are left.\<close>

locale byte_source =
  fixes read :: "'c \<Rightarrow> nat \<Rightarrow> string \<times> 'c" and pending :: "'c \<Rightarrow> string"
  assumes read_conserves: "read c n = (data, c') \<Longrightarrow> pending c = data @ pending c'"
    and read_bounded: "read c n = (data, c') \<Longrightarrow> length data \<le> n"
    and read_progress: "read c n = (data, c') \<Longrightarrow> 0 < n \<Longrightarrow> pending c \<noteq> [] \<Longrightarrow> data \<noteq> []"

fun reads :: "('c \<Rightarrow> nat \<Rightarrow> string \<times> 'c) \<Rightarrow> 'c \<Rightarrow> nat list \<Rightarrow> string \<times> 'c" where
  "reads read c [] = ([], c)"
| "reads read c (n # ns) =
     (case read c n of (data, c') \<Rightarrow> case reads read c' ns of (rest, c'') \<Rightarrow> (data @ rest, c''))"

context byte_source
begin

lemma reads_conserve: "reads read c ns = (data, c') \<Longrightarrow> pending c = data @ pending c'"
  by (induction ns arbitrary: c data) (auto split: prod.splits dest: read_conserves)

lemma reads_complete:
  "reads read c ns = (data, c') \<Longrightarrow> list_all (\<lambda>n. 0 < n) ns \<Longrightarrow> length (pending c) \<le> length ns \<Longrightarrow> pending c' = []"
proof (induction ns arbitrary: c data)
  case (Cons n ns)
  obtain d c1 where r: "read c n = (d, c1)" by fastforce
  then have eq: "pending c = d @ pending c1" by (rule read_conserves)
  have "length (pending c1) \<le> length ns"
  proof (cases "pending c")
    case (Cons b bs)
    with r have "d \<noteq> []" using Cons.prems read_progress by fastforce
    with eq Cons.prems(3) show ?thesis by (cases d) auto
  qed (use eq in auto)
  with Cons r show ?case by (auto split: prod.splits)
qed simp

lemma reads_all:
  assumes "list_all (\<lambda>n. 0 < n) ns" "length (pending c) \<le> length ns"
  shows "fst (reads read c ns) = pending c"
proof -
  obtain data c' where r: "reads read c ns = (data, c')" by fastforce
  from reads_conserve [OF r] reads_complete [OF r assms] r show ?thesis by simp
qed

end

definition prefix_pending :: "prefixConn \<Rightarrow> string" where
  "prefix_pending p = drop (px_off p) (px_prefix p) @ cn_in (px_Conn p)"

definition client_pending :: "client_conn \<Rightarrow> string" where
  "client_pending c = (case c of PlainConn c \<Rightarrow> cn_in c | PrefixedConn p \<Rightarrow> prefix_pending p)"

interpretation raw: byte_source conn_Read cn_in
  by unfold_locales (auto simp: conn_Read_def Let_def split: list.splits)

lemma prefixConn_Read_cases:
  assumes "prefixConn_Read p n = (data, p')"
  obtains (prefix) "px_off p < length (px_prefix p)" "data = take n (drop (px_off p) (px_prefix p))"
      "p' = p\<lparr>px_off := px_off p + length data\<rparr>"
    | (live) c where "length (px_prefix p) \<le> px_off p" "conn_Read (px_Conn p) n = (data, c)" "p' = p\<lparr>px_Conn := c\<rparr>"
  using assms by (auto simp: prefixConn_Read_def Let_def not_less split: if_splits prod.splits)

lemma take_drop_length: "take n xs @ drop (length (take n xs)) xs = xs"
  by (cases "n \<le> length xs") (simp_all add: min_def)

interpretation prefixed: byte_source prefixConn_Read prefix_pending
proof unfold_locales
  fix p n data p' assume r: "prefixConn_Read p n = (data, p')"
  then show "prefix_pending p = data @ prefix_pending p'"
  proof (cases rule: prefixConn_Read_cases)
    case prefix
    have "drop (px_off p) (px_prefix p) = data @ drop (length data) (drop (px_off p) (px_prefix p))"
      unfolding prefix(2) by (rule take_drop_length [symmetric])
    then show ?thesis by (simp add: prefix_pending_def prefix(3) add.commute)
  next
    case live
    with raw.read_conserves [OF live(2)] show ?thesis by (simp add: prefix_pending_def)
  qed
  show "length data \<le> n"
    using r by (cases rule: prefixConn_Read_cases) (auto dest: raw.read_bounded)
  show "data \<noteq> []" if "0 < n" "prefix_pending p \<noteq> []"
    using r that by (cases rule: prefixConn_Read_cases) (auto simp: prefix_pending_def dest: raw.read_progress)
qed

interpretation client: byte_source client_Read client_pending
proof unfold_locales
  fix c n data c' assume r: "client_Read c n = (data, c')"
  then show "client_pending c = data @ client_pending c'" "length data \<le> n"
    by (auto simp: client_Read_def client_pending_def split: client_conn.splits prod.splits
        dest: raw.read_conserves raw.read_bounded prefixed.read_conserves prefixed.read_bounded)
  show "data \<noteq> []" if "0 < n" "client_pending c \<noteq> []"
    using r that by (auto simp: client_Read_def client_pending_def split: client_conn.splits prod.splits
        dest: raw.read_progress prefixed.read_progress)
qed

lemma newPrefixConn_pending: "client_pending (newPrefixConn c pre) = pre @ cn_in c"
  by (simp add: newPrefixConn_def client_pending_def prefix_pending_def)

subsection \<open>Peeking\<close>

text \<open>The cases in which the stream ends inside the first record.\<close>

definition record_plausible :: "string \<Rightarrow> bool" where
  "record_plausible s \<longleftrightarrow> byte (s ! 0) = tlsRecordTypeHandshake \<and> 0 < record_len s \<and> record_len s \<le> maxClientHelloRecord"

definition first_record_cut :: "string \<Rightarrow> bool" where
  "first_record_cut s \<longleftrightarrow> length s < 5 \<or> record_plausible s \<and> length s < 5 + record_len s"

lemma record_len_take [simp]: "5 \<le> length s \<Longrightarrow> record_len (take 5 s) = record_len s"
  by (simp add: record_len_def)

lemma peek_cases:
  assumes "cryptobyte_reader cb"
  shows "\<exists>res c'. peekClientHelloSNI cb c = Some (res, c') \<and>
    (if first_record_cut (cn_in c) then pk_err res = Some (cn_err c) \<and> pk_sni res = [] \<and> cn_in c' = []
     else pk_err res = None \<and> pk_buffered res @ cn_in c' = cn_in c \<and>
          (if record_plausible (cn_in c) then pk_isTLS res \<and>
             pk_buffered res = take (5 + record_len (cn_in c)) (cn_in c) \<and>
             (if 4 \<le> record_len (cn_in c) \<and> byte (cn_in c ! 5) = tlsHandshakeClientHello
              then \<exists>ok. extractSNI cb (drop 5 (pk_buffered res)) = Some (pk_sni res, ok)
              else pk_sni res = [])
           else \<not> pk_isTLS res \<and> pk_sni res = [] \<and> pk_buffered res = take 5 (cn_in c)))"
proof -
  let ?s = "cn_in c" and ?n = "record_len (cn_in c)"
  consider (short) "length ?s < 5" | (plain) "5 \<le> length ?s" "\<not> record_plausible ?s"
    | (cut) "5 \<le> length ?s" "record_plausible ?s" "length ?s < 5 + ?n"
    | (full) "5 + ?n \<le> length ?s" "record_plausible ?s" by linarith
  then show ?thesis
  proof cases
    case short
    then show ?thesis by (simp add: peekClientHelloSNI_def ReadFull_def first_record_cut_def tlsRecordHeaderLen_def)
  next
    case plain
    then show ?thesis
      by (auto simp: peekClientHelloSNI_def ReadFull_def first_record_cut_def tlsRecordHeaderLen_def Let_def record_plausible_def)
  next
    case cut
    then show ?thesis
      by (auto simp: peekClientHelloSNI_def ReadFull_def first_record_cut_def tlsRecordHeaderLen_def Let_def record_plausible_def)
  next
    case full
    let ?body = "take ?n (drop 5 ?s)"
    have take: "take (5 + ?n) ?s = take 5 ?s @ ?body" by (rule take_add)
    obtain sni ok where e: "extractSNI cb ?body = Some (sni, ok)"
      using cryptobyte_reader.extractSNI_safe [OF assms, of ?body] by (auto simp: sni_safe_def split: option.splits)
    from full have body: "length ?body = ?n" "0 < ?n \<Longrightarrow> ?body ! 0 = ?s ! 5" by auto
    have rest: "?body @ drop ?n (drop 5 ?s) = drop 5 ?s" by (rule append_take_drop_id)
    show ?thesis
      using full body e rest
      by (auto simp: peekClientHelloSNI_def ReadFull_def first_record_cut_def tlsRecordHeaderLen_def Let_def
          record_plausible_def take min_def)
  qed
qed

definition tls_record :: "char \<Rightarrow> char \<Rightarrow> string \<Rightarrow> string" where
  "tls_record v1 v2 body = char_of (0x16 :: nat) # v1 # v2 # u16 (length body) @ body"

lemma tls_record_simps:
  assumes "0 < length body" "length body \<le> 16384"
  shows "record_len (tls_record v1 v2 body @ rest) = length body" "record_plausible (tls_record v1 v2 body @ rest)"
    "drop 5 (tls_record v1 v2 body @ rest) = body @ rest" "length (tls_record v1 v2 body) = 5 + length body"
  using assms
  by (simp_all add: tls_record_def record_len_def record_plausible_def u16_def tlsRecordTypeHandshake_def maxClientHelloRecord_def)

subsection \<open>Properties\<close>



text \<open>C27: from an encoded ClientHello, \<open>extractSNI\<close> recovers the first host name of its server name
  extensions, whatever other extensions and name types surround it, and reports none when there is none.\<close>

theorem extractSNI_roundtrip:
  assumes "cryptobyte_reader cb" and "hello_ok h"
  shows "extractSNI cb (enc_hello h) =
    Some (case hello_hosts h of [] \<Rightarrow> ([], False) | host # _ \<Rightarrow> (host, True))"
  using cryptobyte_reader.extractSNI_hello [OF assms] by (simp add: first_host_def)

definition sample_hello :: client_hello where
  "sample_hello =
     \<lparr>hl_header = CHR 0x01 # ''hhh'', hl_version = ''vv'', hl_random = replicate 32 (CHR ''r''), hl_session = [],
      hl_ciphers = ''cc'', hl_compression = ''z'',
      hl_extensions = [OtherExt 16 ''alpn'', ServerName [(1, ''x''), (0, ''a.io'')]]\<rparr>"

lemma sample_hello_ok: "hello_ok sample_hello"
  by (simp add: hello_ok_def sample_hello_def enc_ext_def enc_name_def lp16_def u16_def extensionServerName_def)

theorem extractSNI_roundtrip_witness:
  "hello_ok sample_hello \<and> extractSNI std_cryptobyte (enc_hello sample_hello) = Some (''a.io'', True)"
  using extractSNI_roundtrip [OF std.cryptobyte_reader_axioms sample_hello_ok] sample_hello_ok
  by (simp add: sample_hello_def hello_hosts_def)

text \<open>C23: \<open>peekClientHelloSNI\<close> returns for every stream. It reports an error exactly when the stream ends
  inside the first record. Otherwise the bytes it returns followed by the bytes left are the stream, they are the
  five header bytes when the header is not that of a plausible handshake record and the whole record when it is,
  and a server name is reported only for a record that starts with a ClientHello, from which it was extracted.\<close>

theorem peekClientHelloSNI_correct:
  assumes "cryptobyte_reader cb"
  shows "\<exists>res c'. peekClientHelloSNI cb c = Some (res, c') \<and>
    (if first_record_cut (cn_in c) then pk_err res = Some (cn_err c) \<and> pk_sni res = [] \<and> cn_in c' = []
     else pk_err res = None \<and> pk_buffered res @ cn_in c' = cn_in c \<and>
          (if record_plausible (cn_in c) then pk_isTLS res \<and>
             pk_buffered res = take (5 + record_len (cn_in c)) (cn_in c) \<and>
             (if 4 \<le> record_len (cn_in c) \<and> byte (cn_in c ! 5) = tlsHandshakeClientHello
              then \<exists>ok. extractSNI cb (drop 5 (pk_buffered res)) = Some (pk_sni res, ok)
              else pk_sni res = [])
           else \<not> pk_isTLS res \<and> pk_sni res = [] \<and> pk_buffered res = take 5 (cn_in c)))"
  by (rule peek_cases [OF assms])

theorem peekClientHelloSNI_correct_witness:
  "\<exists>res c'. peekClientHelloSNI std_cryptobyte \<lparr>cn_in = ''GET / HTTP'', cn_chunks = [], cn_err = ''EOF''\<rparr> = Some (res, c') \<and>
     \<not> pk_isTLS res \<and> pk_buffered res = ''GET /'' \<and> pk_buffered res @ cn_in c' = ''GET / HTTP''"
  using peekClientHelloSNI_correct [OF std.cryptobyte_reader_axioms,
      of "\<lparr>cn_in = ''GET / HTTP'', cn_chunks = [], cn_err = ''EOF''\<rparr>"]
  by (auto simp: first_record_cut_def record_plausible_def tlsRecordTypeHandshake_def)

text \<open>C28: TLS passthrough is verbatim. After a successful peek, the wrapped connection delivers exactly the
  original byte stream, in whatever portions it is read and however the network delivers the rest; and when the stream
  starts with a record holding an encoded ClientHello, the peek reports its first host name.\<close>

theorem peek_replay_verbatim:
  assumes "cryptobyte_reader cb" and "peekClientHelloSNI cb c = Some (res, c')" "pk_err res = None"
    and "list_all (\<lambda>n. 0 < n) ns" "length (cn_in c) \<le> length ns"
    and "hello_ok h" "byte (enc_hello h ! 0) = 1" "length (enc_hello h) \<le> 16384"
  shows "fst (reads client_Read (newPrefixConn c' (pk_buffered res)) ns) = cn_in c \<and>
    (cn_in c = tls_record v1 v2 (enc_hello h) @ rest \<longrightarrow>
       pk_isTLS res \<and> pk_buffered res = tls_record v1 v2 (enc_hello h) \<and> cn_in c' = rest \<and>
       pk_sni res = (case hello_hosts h of [] \<Rightarrow> [] | host # _ \<Rightarrow> host))"
proof
  from peek_cases [OF assms(1), of c] assms(2,3)
  have stream: "pk_buffered res @ cn_in c' = cn_in c" by (auto split: if_splits)
  with client.reads_all [OF assms(4), of "newPrefixConn c' (pk_buffered res)"] assms(5)
  show "fst (reads client_Read (newPrefixConn c' (pk_buffered res)) ns) = cn_in c"
    by (simp add: newPrefixConn_pending)
  have len: "4 \<le> length (enc_hello h)" using assms(6) by (simp add: enc_hello_def hello_ok_def)
  show "cn_in c = tls_record v1 v2 (enc_hello h) @ rest \<longrightarrow>
       pk_isTLS res \<and> pk_buffered res = tls_record v1 v2 (enc_hello h) \<and> cn_in c' = rest \<and>
       pk_sni res = (case hello_hosts h of [] \<Rightarrow> [] | host # _ \<Rightarrow> host)"
  proof
    assume s: "cn_in c = tls_record v1 v2 (enc_hello h) @ rest"
    have "0 < length (enc_hello h)" using len by linarith
    note rec = tls_record_simps [OF this assms(8), of v1 v2]
    have "\<not> first_record_cut (cn_in c)" using rec by (simp add: s first_record_cut_def)
    moreover have "byte (cn_in c ! 5) = tlsHandshakeClientHello"
      using assms(7) len by (cases "enc_hello h") (simp_all add: s tls_record_def u16_def tlsHandshakeClientHello_def)
    ultimately have "pk_isTLS res" and b: "pk_buffered res = tls_record v1 v2 (enc_hello h)"
      and sni: "\<exists>ok. extractSNI cb (drop 5 (pk_buffered res)) = Some (pk_sni res, ok)"
      using peek_cases [OF assms(1), of c] assms(2) rec len by (auto simp: s)
    moreover have "drop 5 (pk_buffered res) = enc_hello h" using rec(3) [of "[]"] b by simp
    ultimately show "pk_isTLS res \<and> pk_buffered res = tls_record v1 v2 (enc_hello h) \<and> cn_in c' = rest \<and>
       pk_sni res = (case hello_hosts h of [] \<Rightarrow> [] | host # _ \<Rightarrow> host)"
      using stream s cryptobyte_reader.extractSNI_hello [OF assms(1,6)]
      by (auto simp: first_host_def split: list.splits)
  qed
qed

definition sample_conn :: conn where
  "sample_conn =
     \<lparr>cn_in = tls_record (CHR 0x03) (CHR 0x01) (enc_hello sample_hello) @ ''payload'', cn_chunks = [3, 0, 9], cn_err = ''EOF''\<rparr>"

theorem peek_replay_verbatim_witness:
  "\<exists>res c'. peekClientHelloSNI std_cryptobyte sample_conn = Some (res, c') \<and> pk_err res = None \<and>
     fst (reads client_Read (newPrefixConn c' (pk_buffered res)) (replicate 200 7)) = cn_in sample_conn \<and>
     pk_sni res = ''a.io'' \<and> cn_in c' = ''payload''"
proof -
  have len: "length (enc_hello sample_hello) = 72"
    by (simp add: enc_hello_def sample_hello_def enc_ext_def enc_name_def lp16_def lp8_def u16_def)
  have first: "byte (enc_hello sample_hello ! 0) = 1" by (simp add: enc_hello_def sample_hello_def)
  from tls_record_simps [of "enc_hello sample_hello"] len
  have "\<not> first_record_cut (cn_in sample_conn)" "length (cn_in sample_conn) = 84"
    by (simp_all add: sample_conn_def first_record_cut_def)
  with peek_cases [OF std.cryptobyte_reader_axioms, of sample_conn] obtain res c' where
    r: "peekClientHelloSNI std_cryptobyte sample_conn = Some (res, c')" "pk_err res = None" by auto
  from peek_replay_verbatim [OF std.cryptobyte_reader_axioms r, of "replicate 200 7" sample_hello "CHR 0x03" "CHR 0x01" "''payload''"]
    \<open>length (cn_in sample_conn) = 84\<close> sample_hello_ok first len r
  show ?thesis
    by (auto simp: list_all_iff hello_hosts_def) (auto simp: sample_conn_def sample_hello_def)
qed

end
