(* ===== verification/Metrics.thy ===== *)
theory Metrics
  imports Go_Prelude
begin

text \<open>
  \<open>metrics.go\<close>: the collector and its recorders. A disabled collector is nil, here None, and every
  recorder leaves it alone. A Prometheus counter or gauge is the number it shows (the sources only
  add one, subtract one, add or set whole numbers), a vector of them is a map from label values to numbers, the
  histogram is the list of its observations. Prometheus itself is not part of the program: what
  \<open>Register\<close> says of a label list is the parameter \<open>register_err\<close>.
\<close>

record RouteRequests =
  rr_labels :: "string list"
  rr_counts :: "(string list, int) gomap"

record MetricsCollector =
  mc_ServicesTotal :: int
  mc_RoutesTotal :: "(string, int) gomap"
  mc_UpstreamsHealthy :: "(string, int) gomap"
  mc_UpstreamsTotal :: "(string, int) gomap"
  mc_ReconcileDuration :: "int list"
  mc_ReconcileErrors :: int
  mc_WatcherErrors :: int
  mc_ConflictsTotal :: "(string, int) gomap"
  mc_DebounceEvents :: int
  mc_TCPListenersActive :: int
  mc_TCPListenerOpens :: int
  mc_TCPListenerCloses :: int
  mc_TCPListenErrors :: int
  mc_TCPConnectionsTotal :: int
  mc_TCPConnectionsActive :: int
  mc_TCPNoRoute :: int
  mc_TCPNoUpstream :: int
  mc_TCPUpstreamDialErrors :: int
  mc_TCPForceClosed :: int
  mc_routeRequests :: "RouteRequests option"

definition newMetricsCollector :: MetricsCollector where
  "newMetricsCollector =
     \<lparr>mc_ServicesTotal = 0, mc_RoutesTotal = [], mc_UpstreamsHealthy = [], mc_UpstreamsTotal = [],
      mc_ReconcileDuration = [], mc_ReconcileErrors = 0, mc_WatcherErrors = 0,
      mc_ConflictsTotal = [], mc_DebounceEvents = 0, mc_TCPListenersActive = 0, mc_TCPListenerOpens = 0,
      mc_TCPListenerCloses = 0, mc_TCPListenErrors = 0, mc_TCPConnectionsTotal = 0,
      mc_TCPConnectionsActive = 0, mc_TCPNoRoute = 0, mc_TCPNoUpstream = 0, mc_TCPUpstreamDialErrors = 0,
      mc_TCPForceClosed = 0, mc_routeRequests = None\<rparr>"

type_synonym metrics = "MetricsCollector option"

text \<open>The global collector is created once and then reused.\<close>

definition GetOrCreateGlobalMetrics :: "metrics \<Rightarrow> MetricsCollector \<times> metrics" where
  "GetOrCreateGlobalMetrics globalMetrics =
     (case globalMetrics of
        Some m \<Rightarrow> (m, Some m)
      | None \<Rightarrow> (newMetricsCollector, Some newMetricsCollector))"

subsection \<open>Recorders\<close>

definition IncDebounce :: "metrics \<Rightarrow> metrics" where
  "IncDebounce = map_option (\<lambda>m. m\<lparr>mc_DebounceEvents := mc_DebounceEvents m + 1\<rparr>)"

definition ObserveReconcile :: "int \<Rightarrow> metrics \<Rightarrow> metrics" where
  "ObserveReconcile d = map_option (\<lambda>m. m\<lparr>mc_ReconcileDuration := mc_ReconcileDuration m @ [d]\<rparr>)"

definition IncReconcileError :: "metrics \<Rightarrow> metrics" where
  "IncReconcileError = map_option (\<lambda>m. m\<lparr>mc_ReconcileErrors := mc_ReconcileErrors m + 1\<rparr>)"

definition IncConflict :: "string \<Rightarrow> metrics \<Rightarrow> metrics" where
  "IncConflict typ =
     map_option (\<lambda>m. m\<lparr>mc_ConflictsTotal := AList.update typ (get_or 0 (mc_ConflictsTotal m) typ + 1) (mc_ConflictsTotal m)\<rparr>)"

definition SetServicesTotal :: "int \<Rightarrow> metrics \<Rightarrow> metrics" where
  "SetServicesTotal n = map_option (\<lambda>m. m\<lparr>mc_ServicesTotal := n\<rparr>)"

definition SetRoutesTotal :: "string \<Rightarrow> int \<Rightarrow> metrics \<Rightarrow> metrics" where
  "SetRoutesTotal protocol n = map_option (\<lambda>m. m\<lparr>mc_RoutesTotal := AList.update protocol n (mc_RoutesTotal m)\<rparr>)"

definition SetTCPListenersActive :: "int \<Rightarrow> metrics \<Rightarrow> metrics" where
  "SetTCPListenersActive n = map_option (\<lambda>m. m\<lparr>mc_TCPListenersActive := n\<rparr>)"

definition IncTCPListenerOpen :: "metrics \<Rightarrow> metrics" where
  "IncTCPListenerOpen = map_option (\<lambda>m. m\<lparr>mc_TCPListenerOpens := mc_TCPListenerOpens m + 1\<rparr>)"

definition IncTCPListenerClose :: "metrics \<Rightarrow> metrics" where
  "IncTCPListenerClose = map_option (\<lambda>m. m\<lparr>mc_TCPListenerCloses := mc_TCPListenerCloses m + 1\<rparr>)"

definition IncTCPListenError :: "metrics \<Rightarrow> metrics" where
  "IncTCPListenError = map_option (\<lambda>m. m\<lparr>mc_TCPListenErrors := mc_TCPListenErrors m + 1\<rparr>)"

definition IncTCPConnAccepted :: "metrics \<Rightarrow> metrics" where
  "IncTCPConnAccepted =
     map_option (\<lambda>m. m\<lparr>mc_TCPConnectionsTotal := mc_TCPConnectionsTotal m + 1,
                       mc_TCPConnectionsActive := mc_TCPConnectionsActive m + 1\<rparr>)"

definition DecTCPConnActive :: "metrics \<Rightarrow> metrics" where
  "DecTCPConnActive = map_option (\<lambda>m. m\<lparr>mc_TCPConnectionsActive := mc_TCPConnectionsActive m - 1\<rparr>)"

definition AddTCPForceClosed :: "int \<Rightarrow> metrics \<Rightarrow> metrics" where
  "AddTCPForceClosed n =
     (if n \<le> 0 then id else map_option (\<lambda>m. m\<lparr>mc_TCPForceClosed := mc_TCPForceClosed m + n\<rparr>))"

definition IncTCPNoRoute :: "metrics \<Rightarrow> metrics" where
  "IncTCPNoRoute = map_option (\<lambda>m. m\<lparr>mc_TCPNoRoute := mc_TCPNoRoute m + 1\<rparr>)"

definition IncTCPNoUpstream :: "metrics \<Rightarrow> metrics" where
  "IncTCPNoUpstream = map_option (\<lambda>m. m\<lparr>mc_TCPNoUpstream := mc_TCPNoUpstream m + 1\<rparr>)"

definition IncTCPDialError :: "metrics \<Rightarrow> metrics" where
  "IncTCPDialError = map_option (\<lambda>m. m\<lparr>mc_TCPUpstreamDialErrors := mc_TCPUpstreamDialErrors m + 1\<rparr>)"

subsection \<open>The per-route request counter\<close>

definition route_labels :: "string list \<Rightarrow> string list" where
  "route_labels extraLabels = [''service''] @ extraLabels @ [''class'', ''error'']"

text \<open>The result is an error, or the label names of the counter to use (None when metrics are off).\<close>

definition RouteRequestsCounter ::
  "(string list \<Rightarrow> string option) \<Rightarrow> metrics \<Rightarrow> string list \<Rightarrow> (string + string list option) \<times> metrics" where
  "RouteRequestsCounter register_err mo extraLabels =
     (case mo of
        None \<Rightarrow> (Inr None, None)
      | Some m \<Rightarrow>
          let labels = route_labels extraLabels in
          if (case mc_routeRequests m of None \<Rightarrow> False | Some rr \<Rightarrow> rr_labels rr = labels)
          then (Inr (Some labels), Some m)
          else let m' = m\<lparr>mc_routeRequests := None\<rparr> in
               case register_err labels of
                 Some err \<Rightarrow> (Inl err, Some m')
               | None \<Rightarrow> (Inr (Some labels), Some (m'\<lparr>mc_routeRequests := Some \<lparr>rr_labels = labels, rr_counts = []\<rparr>\<rparr>)))"

text \<open>\<open>WithLabelValues(values...).Inc()\<close> on that counter.\<close>

definition IncRouteRequests :: "string list \<Rightarrow> metrics \<Rightarrow> metrics" where
  "IncRouteRequests values =
     map_option (\<lambda>m. m\<lparr>mc_routeRequests := map_option (\<lambda>rr. rr\<lparr>rr_counts :=
        AList.update values (get_or 0 (rr_counts rr) values + 1) (rr_counts rr)\<rparr>) (mc_routeRequests m)\<rparr>)"

subsection \<open>What a scrape shows\<close>

text \<open>
  A metric family as it is registered: its name, its label names, and the samples by label values. How Prometheus prints a
  family (buckets of the histogram, order of the families) is not part of the program.
\<close>

datatype sample = Value int | Observations "int list"

record family =
  mf_name :: string
  mf_labels :: "string list"
  mf_samples :: "(string list \<times> sample) list"

definition single :: "string \<Rightarrow> int \<Rightarrow> family" where
  "single name v = \<lparr>mf_name = name, mf_labels = [], mf_samples = [([], Value v)]\<rparr>"

definition vector :: "string \<Rightarrow> string list \<Rightarrow> (string, int) gomap \<Rightarrow> family" where
  "vector name labels m = \<lparr>mf_name = name, mf_labels = labels, mf_samples = map (\<lambda>(l, v). ([l], Value v)) m\<rparr>"

definition RouteRequestsMetric :: string where
  "RouteRequestsMetric = ''caddy_consul_route_requests_total''"

text \<open>The collector's own registry, in the order of \<open>MustRegister\<close>.\<close>

definition registered_families :: "MetricsCollector \<Rightarrow> family list" where
  "registered_families m =
     [single ''caddy_consul_services_total'' (mc_ServicesTotal m),
      vector ''caddy_consul_routes_total'' [''protocol''] (mc_RoutesTotal m),
      vector ''caddy_consul_upstreams_healthy'' [''service''] (mc_UpstreamsHealthy m),
      vector ''caddy_consul_upstreams_total'' [''service''] (mc_UpstreamsTotal m),
      \<lparr>mf_name = ''caddy_consul_reconcile_duration_seconds'', mf_labels = [], mf_samples = [([], Observations (mc_ReconcileDuration m))]\<rparr>,
      single ''caddy_consul_reconcile_errors_total'' (mc_ReconcileErrors m),
      single ''caddy_consul_watcher_errors_total'' (mc_WatcherErrors m),
      vector ''caddy_consul_conflicts_total'' [''type''] (mc_ConflictsTotal m),
      single ''caddy_consul_debounce_events_total'' (mc_DebounceEvents m),
      single ''caddy_consul_tcp_listeners_active'' (mc_TCPListenersActive m),
      single ''caddy_consul_tcp_listener_opens_total'' (mc_TCPListenerOpens m),
      single ''caddy_consul_tcp_listener_closes_total'' (mc_TCPListenerCloses m),
      single ''caddy_consul_tcp_listen_errors_total'' (mc_TCPListenErrors m),
      single ''caddy_consul_tcp_connections_total'' (mc_TCPConnectionsTotal m),
      single ''caddy_consul_tcp_connections_active'' (mc_TCPConnectionsActive m),
      single ''caddy_consul_tcp_no_route_total'' (mc_TCPNoRoute m),
      single ''caddy_consul_tcp_no_upstream_total'' (mc_TCPNoUpstream m),
      single ''caddy_consul_tcp_upstream_dial_errors_total'' (mc_TCPUpstreamDialErrors m),
      single ''caddy_consul_tcp_force_closed_total'' (mc_TCPForceClosed m)]"

definition gatherer :: "MetricsCollector \<Rightarrow> family list" where
  "gatherer m =
     (case mc_routeRequests m of
        None \<Rightarrow> registered_families m
      | Some rr \<Rightarrow> registered_families m @ [\<lparr>mf_name = RouteRequestsMetric, mf_labels = rr_labels rr,
          mf_samples = map (map_prod id Value) (rr_counts rr)\<rparr>])"

lemmas recorder_defs [go_eval] = IncDebounce_def ObserveReconcile_def IncReconcileError_def IncConflict_def
  SetServicesTotal_def SetRoutesTotal_def SetTCPListenersActive_def IncTCPListenerOpen_def
  IncTCPListenerClose_def IncTCPListenError_def IncTCPConnAccepted_def DecTCPConnActive_def
  AddTCPForceClosed_def IncTCPNoRoute_def IncTCPNoUpstream_def IncTCPDialError_def IncRouteRequests_def

lemmas family_defs [go_eval] = single_def vector_def RouteRequestsMetric_def registered_families_def gatherer_def

lemmas [go_eval] = newMetricsCollector_def GetOrCreateGlobalMetrics_def route_labels_def RouteRequestsCounter_def

subsection \<open>Facts\<close>

text \<open>No two families share a name, so \<open>MustRegister\<close> does not panic and a scrape does not fail on a duplicate.\<close>

lemma gatherer_names_distinct: "distinct (map mf_name (gatherer m))"
  by (cases "mc_routeRequests m") (simp_all add: family_defs)

text \<open>The per-route counter shows the counts kept under its label values.\<close>

lemma gatherer_route_requests:
  "\<lparr>mf_name = RouteRequestsMetric, mf_labels = ls, mf_samples = ss\<rparr> \<in> set (gatherer m) \<longleftrightarrow>
   (\<exists>rr. mc_routeRequests m = Some rr \<and> ls = rr_labels rr \<and> ss = map (map_prod id Value) (rr_counts rr))"
  by (cases "mc_routeRequests m") (auto simp: family_defs)

lemma route_labels_inj: "route_labels a = route_labels b \<longleftrightarrow> a = b"
  by (simp add: route_labels_def)

text \<open>Asking again for the same labels keeps the counts; only a changed label set resets them.\<close>

lemma RouteRequestsCounter_same:
  "mc_routeRequests m = Some rr \<Longrightarrow> rr_labels rr = route_labels a \<Longrightarrow>
   RouteRequestsCounter reg (Some m) a = (Inr (Some (route_labels a)), Some m)"
  by (simp add: RouteRequestsCounter_def)

lemma RouteRequestsCounter_new:
  "(\<And>rr. mc_routeRequests m = Some rr \<Longrightarrow> rr_labels rr \<noteq> route_labels a) \<Longrightarrow> reg (route_labels a) = None \<Longrightarrow>
   RouteRequestsCounter reg (Some m) a =
     (Inr (Some (route_labels a)), Some (m\<lparr>mc_routeRequests := Some \<lparr>rr_labels = route_labels a, rr_counts = []\<rparr>\<rparr>))"
  by (cases "mc_routeRequests m") (simp_all add: RouteRequestsCounter_def Let_def)

end
