(* ===== verification/TCP_Proxy.thy ===== *)
theory TCP_Proxy
  imports TCP_Table TCP_SNI Metrics
begin

text \<open>
  \<open>tcp_proxy.go\<close>: one accepted connection is matched to a route, an upstream is drawn by weight,
  dialled, and the two connections are copied into each other.

  Outside the program, hence parameters: \<open>rnd\<close>, the draw of \<open>rand.Intn\<close> (\<open>intn\<close> states its
  range), and \<open>dial\<close>, which is \<open>net.DialTimeout\<close> with its result: an error message or the receiving side
  of the upstream connection.
\<close>

subsection \<open>Choice of an upstream\<close>

definition upstream_weight :: "Upstream \<Rightarrow> int" where
  "upstream_weight u = (let w = up_Weight u in if w \<le> 0 then 1 else w)"

definition total_weight :: "Upstream list \<Rightarrow> int" where
  "total_weight healthy = foldl (\<lambda>total u. wrap64 (total + upstream_weight u)) 0 healthy"

fun pick_loop :: "int \<Rightarrow> Upstream list \<Rightarrow> Upstream option" where
  "pick_loop n [] = None"
| "pick_loop n (u # us) = (let w = upstream_weight u in if n < w then Some u else pick_loop (n - w) us)"

definition pickUpstream :: "(int \<Rightarrow> int) \<Rightarrow> Upstream list \<Rightarrow> Upstream option" where
  "pickUpstream rnd ups =
     (let healthy = filter up_Healthy ups; total = total_weight healthy in
      if healthy = [] then None
      else if length healthy = 1 \<or> total \<le> 0 then Some (healthy ! nat (rnd (int (length healthy))))
      else case pick_loop (rnd total) healthy of
             Some u \<Rightarrow> Some u
           | None \<Rightarrow> Some (last healthy))"

subsection \<open>Handling a connection\<close>

text \<open>How \<open>handle\<close> ends. Every ending closes the client connection.\<close>

datatype handle_end =
    PortGone
  | PeekFailed string
  | NoRoute string
  | NoUpstream CompiledTCPRoute
  | DialFailed CompiledTCPRoute Upstream string
  | Proxied CompiledTCPRoute Upstream client_conn conn

record tcpProxy =
  tp_table :: TCPTable
  tp_metrics :: metrics
  tp_peekTimeout :: int
  tp_dialTimeout :: int

definition defaultTCPPeekTimeout :: int where "defaultTCPPeekTimeout = 5000000000"
definition defaultTCPDialTimeout :: int where "defaultTCPDialTimeout = 10000000000"

definition newTCPProxy :: "TCPTable \<Rightarrow> metrics \<Rightarrow> int \<Rightarrow> int \<Rightarrow> tcpProxy" where
  "newTCPProxy table metrics peekTimeout dialTimeout =
     \<lparr>tp_table = table, tp_metrics = metrics,
      tp_peekTimeout = (if peekTimeout \<le> 0 then defaultTCPPeekTimeout else peekTimeout),
      tp_dialTimeout = (if dialTimeout \<le> 0 then defaultTCPDialTimeout else dialTimeout)\<rparr>"

definition handle_routed ::
  "(int \<Rightarrow> int) \<Rightarrow> (string \<Rightarrow> string + conn) \<Rightarrow> tcpProxy \<Rightarrow> tcpPortRoutes \<Rightarrow> client_conn \<Rightarrow> string \<Rightarrow>
   handle_end \<times> tcpProxy" where
  "handle_routed rnd dial p pr client sni =
     (case tcp_match pr sni of
        None \<Rightarrow> (NoRoute sni, p\<lparr>tp_metrics := IncTCPNoRoute (tp_metrics p)\<rparr>)
      | Some route \<Rightarrow>
          (case pickUpstream rnd (ct_Upstreams route) of
             None \<Rightarrow> (NoUpstream route, p\<lparr>tp_metrics := IncTCPNoUpstream (tp_metrics p)\<rparr>)
           | Some upstream \<Rightarrow>
               (case dial (up_Address upstream) of
                  Inl err \<Rightarrow> (DialFailed route upstream err, p\<lparr>tp_metrics := IncTCPDialError (tp_metrics p)\<rparr>)
                | Inr up \<Rightarrow> (Proxied route upstream client up, p))))"

definition handle ::
  "cryptobyte \<Rightarrow> (int \<Rightarrow> int) \<Rightarrow> (string \<Rightarrow> string + conn) \<Rightarrow> tcpProxy \<Rightarrow> int \<Rightarrow> conn \<Rightarrow>
   (handle_end \<times> tcpProxy) option" where
  "handle cb rnd dial p port down =
     (case TCPTable_Lookup (tp_table p) port of
        None \<Rightarrow> Some (PortGone, p)
      | Some pr \<Rightarrow>
          if pr_anySNI pr then
            (case peekClientHelloSNI cb down of
               None \<Rightarrow> None
             | Some (res, down') \<Rightarrow>
                 (case pk_err res of
                    Some err \<Rightarrow> Some (PeekFailed err, p)
                  | None \<Rightarrow> Some (handle_routed rnd dial p pr (newPrefixConn down' (pk_buffered res)) (pk_sni res))))
          else Some (handle_routed rnd dial p pr (PlainConn down) []))"

lemmas [go_eval] = upstream_weight_def total_weight_def pickUpstream_def handle_routed_def handle_def defaultTCPPeekTimeout_def
  defaultTCPDialTimeout_def newTCPProxy_def

text \<open>Neither timeout of a proxy is zero or negative, which would mean no deadline at all.\<close>

lemma newTCPProxy_deadlines: "0 < tp_peekTimeout (newTCPProxy t m a b)" "0 < tp_dialTimeout (newTCPProxy t m a b)"
  by (simp_all add: newTCPProxy_def defaultTCPPeekTimeout_def defaultTCPDialTimeout_def)

subsection \<open>Copying in both directions\<close>

text \<open>
  \<open>proxyBidir\<close> runs two goroutines. The state holds for each direction what is still to be read, what has been
  written and whether the copy has ended, at which point the write half of the target is closed;
  \<open>bd_closed\<close> is set by the two final \<open>Close\<close> calls after \<open>wg.Wait\<close>. A step is one read and write of one goroutine,
  the end of one copy (at the end of the data or on a read or write error, which \<open>io.Copy\<close> reports the same
  way to this code: its result is dropped), or the final close.
\<close>

record bidir =
  bd_client :: client_conn
  bd_upstream :: conn
  bd_to_up :: string
  bd_to_client :: string
  bd_up_done :: bool
  bd_client_done :: bool
  bd_closed :: bool

definition bidir_start :: "client_conn \<Rightarrow> conn \<Rightarrow> bidir" where
  "bidir_start client up =
     \<lparr>bd_client = client, bd_upstream = up, bd_to_up = [], bd_to_client = [],
      bd_up_done = False, bd_client_done = False, bd_closed = False\<rparr>"

inductive proxyBidir :: "bidir \<Rightarrow> bidir \<Rightarrow> bool" where
  copy_up:
    "\<lbrakk>\<not> bd_up_done s; client_Read (bd_client s) n = (data, c'); data \<noteq> []\<rbrakk> \<Longrightarrow>
     proxyBidir s (s\<lparr>bd_client := c', bd_to_up := bd_to_up s @ data\<rparr>)"
| copy_client:
    "\<lbrakk>\<not> bd_client_done s; conn_Read (bd_upstream s) n = (data, u'); data \<noteq> []\<rbrakk> \<Longrightarrow>
     proxyBidir s (s\<lparr>bd_upstream := u', bd_to_client := bd_to_client s @ data\<rparr>)"
| end_up:
    "\<lbrakk>\<not> bd_up_done s\<rbrakk> \<Longrightarrow> proxyBidir s (s\<lparr>bd_up_done := True\<rparr>)"
| end_client:
    "\<lbrakk>\<not> bd_client_done s\<rbrakk> \<Longrightarrow> proxyBidir s (s\<lparr>bd_client_done := True\<rparr>)"
| close_both:
    "\<lbrakk>bd_up_done s; bd_client_done s; \<not> bd_closed s\<rbrakk> \<Longrightarrow> proxyBidir s (s\<lparr>bd_closed := True\<rparr>)"

text \<open>What the half-close at the end of a copy does, for a connection whose underlying \<open>net.Conn\<close> has a \<open>CloseWrite\<close> or not.
  A prefixed connection has the method itself, and forwards it when it can.\<close>

datatype half_close = WriteHalfClosed | ReadDeadlineSet | NothingDone

definition CloseWrite :: "bool \<Rightarrow> prefixConn \<Rightarrow> half_close" where
  "CloseWrite hasCloseWrite p = (if hasCloseWrite then WriteHalfClosed else NothingDone)"

definition halfCloseWrite :: "bool \<Rightarrow> client_conn \<Rightarrow> half_close" where
  "halfCloseWrite hasCloseWrite c =
     (case c of
        PlainConn _ \<Rightarrow> if hasCloseWrite then WriteHalfClosed else ReadDeadlineSet
      | PrefixedConn p \<Rightarrow> CloseWrite hasCloseWrite p)"

text \<open>On a TCP connection the peer sees the end of the data, replayed prefix or not. On a connection without half-close the other
  copy is woken by a deadline, but not behind a prefix, where nothing happens.\<close>

lemma halfCloseWrite_cases:
  "halfCloseWrite True (newPrefixConn c pre) = WriteHalfClosed"
  "halfCloseWrite False (newPrefixConn c pre) = (if pre = [] then ReadDeadlineSet else NothingDone)"
  by (simp_all add: halfCloseWrite_def CloseWrite_def newPrefixConn_def)

inductive_cases proxyBidir_cases: "proxyBidir s s'"

subsection \<open>Weighted choice\<close>

text \<open>What \<open>rand.Intn\<close> documents: a draw from the half-open interval below its argument.\<close>

definition intn :: "(int \<Rightarrow> int) \<Rightarrow> bool" where
  "intn rnd \<longleftrightarrow> (\<forall>n > 0. 0 \<le> rnd n \<and> rnd n < n)"

definition weight_sum :: "Upstream list \<Rightarrow> int" where
  "weight_sum us = sum_list (map upstream_weight us)"

lemma upstream_weight_pos: "0 < upstream_weight u"
  by (simp add: upstream_weight_def Let_def)

lemma weight_sum_nonneg: "0 \<le> weight_sum us"
  by (induction us) (simp_all add: weight_sum_def upstream_weight_pos add_nonneg_nonneg order_less_imp_le)

lemma weight_sum_take_le: "weight_sum (take k us) \<le> weight_sum us"
  using weight_sum_nonneg [of "drop k us"]
  by (metis append_take_drop_id le_add_same_cancel1 map_append sum_list_append weight_sum_def)

text \<open>Without overflow the accumulated total is the sum of the weights.\<close>

lemma total_weight_sum: "weight_sum us < 2 ^ 63 \<Longrightarrow> total_weight us = weight_sum us"
proof (induction us rule: rev_induct)
  case (snoc u us)
  have "0 \<le> weight_sum us" by (rule weight_sum_nonneg)
  moreover have "weight_sum (us @ [u]) = weight_sum us + upstream_weight u" by (simp add: weight_sum_def)
  ultimately show ?case
    using snoc upstream_weight_pos [of u] by (simp add: total_weight_def wrap64_id)
qed (simp add: weight_sum_def total_weight_def)

lemma pick_loop_index:
  "i < length us \<Longrightarrow> weight_sum (take i us) \<le> n \<Longrightarrow> n < weight_sum (take (Suc i) us) \<Longrightarrow> pick_loop n us = Some (us ! i)"
proof (induction us arbitrary: i n)
  case (Cons u us)
  show ?case
  proof (cases i)
    case 0
    with Cons.prems show ?thesis by (simp add: weight_sum_def Let_def)
  next
    case (Suc j)
    with Cons.prems have "upstream_weight u + weight_sum (take j us) \<le> n"
      "n < upstream_weight u + weight_sum (take (Suc j) us)" by (simp_all add: weight_sum_def)
    moreover have "0 \<le> weight_sum (take j us)" by (rule weight_sum_nonneg)
    ultimately show ?thesis using Cons.IH [of j "n - upstream_weight u"] Cons.prems(1) Suc by (simp add: Let_def)
  qed
qed simp

lemma pick_loop_member: "pick_loop n us = Some u \<Longrightarrow> u \<in> set us"
  by (induction us arbitrary: n) (auto simp: Let_def split: if_splits)

text \<open>Whatever the weights, the choice is one of the healthy upstreams, if there is one.\<close>

lemma pickUpstream_healthy:
  assumes "intn rnd"
  shows "case pickUpstream rnd ups of
           None \<Rightarrow> \<forall>u \<in> set ups. \<not> up_Healthy u
         | Some u \<Rightarrow> u \<in> set ups \<and> up_Healthy u"
proof (cases "filter up_Healthy ups = []")
  case True
  then show ?thesis by (simp add: pickUpstream_def filter_empty_conv)
next
  case False
  let ?hs = "filter up_Healthy ups"
  from False have "nat (rnd (int (length ?hs))) < length ?hs"
    using assms by (auto simp: intn_def nat_less_iff)
  then have "?hs ! nat (rnd (int (length ?hs))) \<in> set ?hs" by (rule nth_mem)
  moreover from False have "last ?hs \<in> set ?hs" by (rule last_in_set)
  moreover have "u \<in> set ?hs" if "pick_loop n ?hs = Some u" for n u using that by (rule pick_loop_member)
  ultimately have "\<exists>u. pickUpstream rnd ups = Some u \<and> u \<in> set ?hs"
    using False by (auto simp: pickUpstream_def Let_def simp del: set_filter split: option.split)
  then show ?thesis by auto
qed

subsection \<open>The connection handler\<close>

text \<open>What each ending of \<open>handle\<close> says about the routes, the upstreams and the stream.\<close>

definition ending_ok ::
  "(string \<Rightarrow> string + conn) \<Rightarrow> TCPTable \<Rightarrow> int \<Rightarrow> conn \<Rightarrow> string \<Rightarrow> handle_end \<Rightarrow> bool" where
  "ending_ok dial t port down sni e \<longleftrightarrow>
     (case e of
        PortGone \<Rightarrow> TCPTable_Lookup t port = None
      | PeekFailed err \<Rightarrow> first_record_cut (cn_in down) \<and> err = cn_err down
      | NoRoute sni' \<Rightarrow> sni' = sni \<and> tcp_route t port sni = None
      | NoUpstream route \<Rightarrow> tcp_route t port sni = Some route \<and> (\<forall>u \<in> set (ct_Upstreams route). \<not> up_Healthy u)
      | DialFailed route u err \<Rightarrow>
          tcp_route t port sni = Some route \<and> u \<in> set (ct_Upstreams route) \<and> up_Healthy u \<and> dial (up_Address u) = Inl err
      | Proxied route u client up \<Rightarrow>
          tcp_route t port sni = Some route \<and> u \<in> set (ct_Upstreams route) \<and> up_Healthy u \<and>
          dial (up_Address u) = Inr up \<and> client_pending client = cn_in down)"

definition ending_metrics :: "handle_end \<Rightarrow> metrics \<Rightarrow> metrics" where
  "ending_metrics e =
     (case e of NoRoute _ \<Rightarrow> IncTCPNoRoute | NoUpstream _ \<Rightarrow> IncTCPNoUpstream | DialFailed _ _ _ \<Rightarrow> IncTCPDialError | _ \<Rightarrow> id)"

lemma handle_routed_correct:
  assumes "intn rnd" "TCPTable_Lookup (tp_table p) port = Some pr" "client_pending client = cn_in down"
    and "handle_routed rnd dial p pr client sni = (e, p')"
  shows "ending_ok dial (tp_table p) port down sni e \<and> p' = p\<lparr>tp_metrics := ending_metrics e (tp_metrics p)\<rparr>"
proof -
  have route: "tcp_route (tp_table p) port sni = tcp_match pr sni" using assms(2) by (simp add: tcp_route_def)
  show ?thesis
  proof (cases "tcp_match pr sni")
    case None
    with assms(4) route show ?thesis by (auto simp: handle_routed_def ending_ok_def ending_metrics_def)
  next
    case (Some r)
    with assms(3,4) route pickUpstream_healthy [OF assms(1), of "ct_Upstreams r"] show ?thesis
      by (cases "pickUpstream rnd (ct_Upstreams r)"; cases "dial (up_Address (the (pickUpstream rnd (ct_Upstreams r))))")
        (auto simp: handle_routed_def ending_ok_def ending_metrics_def)
  qed
qed

subsection \<open>The copy loop\<close>

definition bidir_measure :: "bidir \<Rightarrow> nat" where
  "bidir_measure s =
     length (client_pending (bd_client s)) + length (cn_in (bd_upstream s)) +
     of_bool (\<not> bd_up_done s) + of_bool (\<not> bd_client_done s) + of_bool (\<not> bd_closed s)"

lemma proxyBidir_decreases: "proxyBidir s s' \<Longrightarrow> bidir_measure s' < bidir_measure s"
proof (induction rule: proxyBidir.induct)
  case (copy_up s n data c')
  from client.read_conserves [OF copy_up(2)] copy_up(3) show ?case by (simp add: bidir_measure_def)
next
  case (copy_client s n data u')
  from raw.read_conserves [OF copy_client(2)] copy_client(3) show ?case by (simp add: bidir_measure_def)
qed (auto simp: bidir_measure_def)

lemma proxyBidir_invariant:
  assumes "proxyBidir\<^sup>*\<^sup>* (bidir_start client up) s"
  shows "client_pending client = bd_to_up s @ client_pending (bd_client s) \<and>
    cn_in up = bd_to_client s @ cn_in (bd_upstream s) \<and> (bd_closed s \<longrightarrow> bd_up_done s \<and> bd_client_done s)"
  using assms
proof (induction rule: rtranclp_induct)
  case (step s s')
  from step(2,3) show ?case
    by (cases rule: proxyBidir.cases) (auto dest: client.read_conserves raw.read_conserves)
qed (simp add: bidir_start_def)

lemma proxyBidir_not_stuck: "\<not> bd_closed s \<Longrightarrow> \<exists>s'. proxyBidir s s'"
  using proxyBidir.end_up proxyBidir.end_client proxyBidir.close_both by metis

interpretation copying: settling proxyBidir bd_closed bidir_measure "\<lambda>_. True"
  using proxyBidir_decreases proxyBidir_not_stuck by unfold_locales auto

subsection \<open>Properties\<close>

text \<open>C25: \<open>pickUpstream\<close> picks only healthy upstreams and fails only when none is healthy, whatever the weights,
  even when their sum overflows. When it does not overflow and several upstreams are healthy, the draws below
  the total weight are divided among them in consecutive intervals whose lengths are their weights (1 for a
  weight that is not positive), so each is drawn in proportion to its weight.\<close>

theorem pickUpstream_correct:
  assumes "intn rnd"
  shows "(case pickUpstream rnd ups of
            None \<Rightarrow> \<forall>u \<in> set ups. \<not> up_Healthy u
          | Some u \<Rightarrow> u \<in> set ups \<and> up_Healthy u) \<and>
    (\<forall>i. let hs = filter up_Healthy ups in
       1 < length hs \<and> weight_sum hs < 2 ^ 63 \<and> i < length hs \<and>
       weight_sum (take i hs) \<le> rnd (weight_sum hs) \<and> rnd (weight_sum hs) < weight_sum (take i hs) + upstream_weight (hs ! i) \<longrightarrow>
       pickUpstream rnd ups = Some (hs ! i))"
proof (intro conjI allI)
  show "case pickUpstream rnd ups of
            None \<Rightarrow> \<forall>u \<in> set ups. \<not> up_Healthy u
          | Some u \<Rightarrow> u \<in> set ups \<and> up_Healthy u" by (rule pickUpstream_healthy [OF assms])
  fix i
  let ?hs = "filter up_Healthy ups"
  have "pickUpstream rnd ups = Some (?hs ! i)"
    if *: "1 < length ?hs" "weight_sum ?hs < 2 ^ 63" "i < length ?hs" "weight_sum (take i ?hs) \<le> rnd (weight_sum ?hs)"
      "rnd (weight_sum ?hs) < weight_sum (take i ?hs) + upstream_weight (?hs ! i)"
  proof -
    have "rnd (weight_sum ?hs) < weight_sum (take (Suc i) ?hs)"
      using *(3,5) by (simp add: take_Suc_conv_app_nth weight_sum_def)
    with * have "pick_loop (rnd (weight_sum ?hs)) ?hs = Some (?hs ! i)" by (intro pick_loop_index)
    moreover have "0 < weight_sum ?hs"
      using weight_sum_take_le [of "Suc i" ?hs] weight_sum_nonneg [of "take i ?hs"] upstream_weight_pos [of "?hs ! i"] *(3)
      by (simp add: take_Suc_conv_app_nth weight_sum_def)
    moreover have "length ?hs \<noteq> 1" "?hs \<noteq> []" using *(1) by auto
    ultimately show ?thesis
      using total_weight_sum [OF *(2)] unfolding pickUpstream_def Let_def by simp
  qed
  then show "let hs = filter up_Healthy ups in
       1 < length hs \<and> weight_sum hs < 2 ^ 63 \<and> i < length hs \<and>
       weight_sum (take i hs) \<le> rnd (weight_sum hs) \<and> rnd (weight_sum hs) < weight_sum (take i hs) + upstream_weight (hs ! i) \<longrightarrow>
       pickUpstream rnd ups = Some (hs ! i)" by (simp only: Let_def) blast
qed

definition weighted :: "string \<Rightarrow> int \<Rightarrow> bool \<Rightarrow> Upstream" where
  "weighted addr w h = \<lparr>up_Address = addr, up_Weight = w, up_Healthy = h, up_NodeName = []\<rparr>"

theorem pickUpstream_correct_witness:
  "intn (\<lambda>n. n - 1) \<and>
   pickUpstream (\<lambda>n. n - 1) [weighted ''a:1'' 2 True, weighted ''b:1'' 9 False, weighted ''c:1'' 3 True]
     = Some (weighted ''c:1'' 3 True)"
  using pickUpstream_correct [of "\<lambda>n. n - 1" "[weighted ''a:1'' 2 True, weighted ''b:1'' 9 False, weighted ''c:1'' 3 True]"]
  by (auto simp: intn_def weighted_def weight_sum_def upstream_weight_def Let_def dest!: spec [of _ 1])

text \<open>C23: \<open>handle\<close> returns for every connection, and its ending is right: the port's routes are matched with the
  server name of the ClientHello when one of them needs it and with none otherwise; the connection is proxied only
  to a healthy upstream of the matched route that was dialled, with a client stream identical to what the client sent;
  every other ending has the cause its name gives, and exactly the endings without route, upstream or connection
  count one in their metric.\<close>

theorem handle_correct:
  assumes "cryptobyte_reader cb" "intn rnd"
  shows "\<exists>e p' sni. handle cb rnd dial p port down = Some (e, p') \<and>
    ending_ok dial (tp_table p) port down sni e \<and> p' = p\<lparr>tp_metrics := ending_metrics e (tp_metrics p)\<rparr> \<and>
    (case TCPTable_Lookup (tp_table p) port of
       None \<Rightarrow> e = PortGone
     | Some pr \<Rightarrow>
         if pr_anySNI pr then \<exists>res down'. peekClientHelloSNI cb down = Some (res, down') \<and> sni = pk_sni res else sni = [])"
proof (cases "TCPTable_Lookup (tp_table p) port")
  case None
  then show ?thesis by (simp add: handle_def ending_ok_def ending_metrics_def)
next
  case (Some pr)
  show ?thesis
  proof (cases "pr_anySNI pr")
    case False
    obtain e p' where h: "handle_routed rnd dial p pr (PlainConn down) [] = (e, p')" by fastforce
    have "client_pending (PlainConn down) = cn_in down" by (simp add: client_pending_def)
    from handle_routed_correct [OF assms(2) Some this h] Some False h show ?thesis by (auto simp: handle_def)
  next
    case True
    obtain res down' where pk: "peekClientHelloSNI cb down = Some (res, down')"
      "if first_record_cut (cn_in down) then pk_err res = Some (cn_err down)
       else pk_err res = None \<and> pk_buffered res @ cn_in down' = cn_in down"
      using peek_cases [OF assms(1), of down] by (auto split: if_splits)
    show ?thesis
    proof (cases "first_record_cut (cn_in down)")
      case cut: True
      with pk have "handle cb rnd dial p port down = Some (PeekFailed (cn_err down), p)"
        using Some True by (simp add: handle_def)
      with cut Some True pk(1) show ?thesis by (auto simp: ending_ok_def ending_metrics_def)
    next
      case False
      let ?client = "newPrefixConn down' (pk_buffered res)"
      obtain e p' where h: "handle_routed rnd dial p pr ?client (pk_sni res) = (e, p')" by fastforce
      have "client_pending ?client = cn_in down" using pk(2) False by (simp add: newPrefixConn_pending)
      from handle_routed_correct [OF assms(2) Some this h] Some True h pk False show ?thesis by (auto simp: handle_def)
    qed
  qed
qed

theorem handle_correct_witness:
  "intn (\<lambda>n. 0) \<and>
   (\<exists>e p'. handle std_cryptobyte (\<lambda>n. 0) (\<lambda>_. Inl ''refused'') (newTCPProxy NewTCPTable None 0 0) 443 sample_conn
      = Some (e, p') \<and> e = PortGone)"
  using handle_correct [OF std.cryptobyte_reader_axioms, of "\<lambda>n. 0" "\<lambda>_. Inl ''refused''"
      "(newTCPProxy NewTCPTable None 0 0)" 443 sample_conn]
  by (auto simp: intn_def TCPTable_Lookup_def NewTCPTable_def newTCPProxy_def)



end
