(* ===== verification/TCP_Listener.thy ===== *)
theory TCP_Listener
  imports TCP_Proxy
begin

text \<open>
  \<open>tcp_listener.go\<close>: the listeners that are open, reconciled with the ports of the TCP routes, and the life of
  the connections of one listener. Caddy's listener pool is outside the program: \<open>openPort\<close> takes
  its two calls as parameters, and the operations above it take an \<open>openPort\<close> that answers an error message or the handle of the
  pooled listener (\<open>openPort_handle\<close> relates the two). The
  iteration order of the local map \<open>desired\<close> is the parameter \<open>iter\<close>, a permutation of it.
\<close>

subsection \<open>The manager\<close>

record tcpListener =
  tl_port :: int
  tl_ln :: nat

record TCPListenerManager =
  lm_metrics :: metrics
  lm_drain :: int
  lm_reserved :: "(int, bool) gomap"
  lm_active :: "(int, tcpListener) gomap"

definition defaultTCPDrain :: int where "defaultTCPDrain = 30000000000"

definition NewTCPListenerManager :: "metrics \<Rightarrow> int \<Rightarrow> (int, bool) gomap option \<Rightarrow> TCPListenerManager" where
  "NewTCPListenerManager metrics drain reserved =
     \<lparr>lm_metrics = metrics, lm_drain = (if drain \<le> 0 then defaultTCPDrain else drain),
      lm_reserved = (case reserved of None \<Rightarrow> [(80, True), (443, True)] | Some r \<Rightarrow> r),
      lm_active = []\<rparr>"

text \<open>\<open>openPort\<close> on top of Caddy's listener pool: \<open>parse\<close> is \<open>ParseNetworkAddress\<close>, \<open>listen\<close> is \<open>NetworkAddress.Listen\<close>, whose answer may be
  something that is not a stream listener (of the named type; the code closes it and reports an error).\<close>

datatype pooled = StreamListener nat | OtherListener string

definition tcpBindHost :: string where "tcpBindHost = ''0.0.0.0''"

definition openPort :: "(string \<Rightarrow> string + 'addr) \<Rightarrow> ('addr \<Rightarrow> string + pooled) \<Rightarrow> int \<Rightarrow> string + tcpListener" where
  "openPort parse listen port =
     (case parse (''tcp/'' @ tcpBindHost @ '':'' @ Itoa port) of
        Inl err \<Rightarrow> Inl (''parse address: '' @ err)
      | Inr na \<Rightarrow>
          (case listen na of
             Inl err \<Rightarrow> Inl err
           | Inr (OtherListener typ) \<Rightarrow>
               Inl (''port '' @ Itoa port @ '': pooled listener is not a stream net.Listener ('' @ typ @ '')'')
           | Inr (StreamListener ln) \<Rightarrow> Inr \<lparr>tl_port = port, tl_ln = ln\<rparr>))"

text \<open>The rest of the model takes the handle only, and builds the listener around it as \<open>openPort\<close> does.\<close>

definition open_handle :: "(string \<Rightarrow> string + 'addr) \<Rightarrow> ('addr \<Rightarrow> string + pooled) \<Rightarrow> int \<Rightarrow> string + nat" where
  "open_handle parse listen port = map_sum id tl_ln (openPort parse listen port)"

lemma openPort_handle:
  "openPort parse listen port = map_sum id (\<lambda>ln. \<lparr>tl_port = port, tl_ln = ln\<rparr>) (open_handle parse listen port)"
  by (auto simp: open_handle_def openPort_def split: sum.split pooled.split)

definition desired_ports :: "(int, bool) gomap \<Rightarrow> int list \<Rightarrow> (int, bool) gomap" where
  "desired_ports reserved ports =
     foldl (\<lambda>desired p. if get_or False reserved p then desired else AList.update p True desired) [] ports"

text \<open>The first loop of \<open>Reconcile\<close>: the manager and the first error so far.\<close>

fun open_loop ::
  "(int \<Rightarrow> string + nat) \<Rightarrow> int list \<Rightarrow> TCPListenerManager \<times> string option \<Rightarrow> TCPListenerManager \<times> string option" where
  "open_loop opn [] st = st"
| "open_loop opn (p # ps) (m, firstErr) =
     (if map_of (lm_active m) p \<noteq> None then open_loop opn ps (m, firstErr)
      else case opn p of
             Inl err \<Rightarrow>
               open_loop opn ps
                 (m\<lparr>lm_metrics := IncTCPListenError (lm_metrics m)\<rparr>, if firstErr = None then Some err else firstErr)
           | Inr ln \<Rightarrow>
               open_loop opn ps
                 (m\<lparr>lm_active := AList.update p \<lparr>tl_port = p, tl_ln = ln\<rparr> (lm_active m),
                    lm_metrics := IncTCPListenerOpen (lm_metrics m)\<rparr>, firstErr))"

text \<open>The second loop, over the listeners as they are when it starts; it also returns the listeners stopped.\<close>

fun close_loop ::
  "(int, bool) gomap \<Rightarrow> (int, tcpListener) gomap \<Rightarrow> TCPListenerManager \<times> tcpListener list \<Rightarrow>
   TCPListenerManager \<times> tcpListener list" where
  "close_loop desired [] st = st"
| "close_loop desired ((p, l) # ls) (m, stopped) =
     (if get_or False desired p then close_loop desired ls (m, stopped)
      else close_loop desired ls
             (m\<lparr>lm_active := AList.delete p (lm_active m), lm_metrics := IncTCPListenerClose (lm_metrics m)\<rparr>,
              stopped @ [l]))"

definition Reconcile ::
  "(int \<Rightarrow> string + nat) \<Rightarrow> ((int, bool) gomap \<Rightarrow> (int, bool) gomap) \<Rightarrow> TCPListenerManager \<Rightarrow> int list \<Rightarrow>
   TCPListenerManager \<times> tcpListener list \<times> string option" where
  "Reconcile opn iter m desiredPorts =
     (let desired = desired_ports (lm_reserved m) desiredPorts in
      case open_loop opn (map fst (iter desired)) (m, None) of (m1, firstErr) \<Rightarrow>
      case close_loop desired (lm_active m1) (m1, []) of (m2, stopped) \<Rightarrow>
        (m2\<lparr>lm_metrics := SetTCPListenersActive (int (length (lm_active m2))) (lm_metrics m2)\<rparr>, stopped, firstErr))"

definition Close :: "TCPListenerManager \<Rightarrow> TCPListenerManager \<times> tcpListener list" where
  "Close m = (m\<lparr>lm_active := []\<rparr>, map snd (lm_active m))"

definition ActivePorts :: "TCPListenerManager \<Rightarrow> int list" where
  "ActivePorts m = sort (map fst (lm_active m))"

lemmas [go_eval] = defaultTCPDrain_def tcpBindHost_def openPort_def open_handle_def NewTCPListenerManager_def desired_ports_def Reconcile_def Close_def ActivePorts_def

subsection \<open>Reconciling\<close>

lemma desired_ports_keys:
  "keys (desired_ports reserved ports) = {p \<in> set ports. \<not> get_or False reserved p}"
  "gomap_ok (desired_ports reserved ports)"
  "get_or False (desired_ports reserved ports) p \<longleftrightarrow> p \<in> set ports \<and> \<not> get_or False reserved p"
proof -
  show "keys (desired_ports reserved ports) = {p \<in> set ports. \<not> get_or False reserved p}"
    by (induction ports rule: rev_induct) (auto simp: desired_ports_def dom_update)
  show "gomap_ok (desired_ports reserved ports)"
    by (induction ports rule: rev_induct) (simp_all add: desired_ports_def)
  show "get_or False (desired_ports reserved ports) p \<longleftrightarrow> p \<in> set ports \<and> \<not> get_or False reserved p"
    by (induction ports rule: rev_induct) (auto simp: desired_ports_def get_or_def update_conv' split: option.splits)
qed

lemma open_loop_active:
  "open_loop opn ps (m, e) = (m', e') \<Longrightarrow>
   map_of (lm_active m') p =
     (case map_of (lm_active m) p of
        Some l \<Rightarrow> Some l
      | None \<Rightarrow> if p \<in> set ps then (case opn p of Inl _ \<Rightarrow> None | Inr ln \<Rightarrow> Some \<lparr>tl_port = p, tl_ln = ln\<rparr>) else None) \<and>
   lm_reserved m' = lm_reserved m \<and> (gomap_ok (lm_active m) \<longrightarrow> gomap_ok (lm_active m'))"
proof (induction ps arbitrary: m e)
  case (Cons q ps)
  show ?case
  proof (cases "map_of (lm_active m) q = None")
    case False
    with Cons.prems have "open_loop opn ps (m, e) = (m', e')" by simp
    from Cons.IH [OF this] False show ?thesis by (auto split: option.split)
  next
    case True
    then show ?thesis
    proof (cases "opn q")
      case (Inl err)
      with True Cons.prems Cons.IH [of "m\<lparr>lm_metrics := IncTCPListenError (lm_metrics m)\<rparr>" "if e = None then Some err else e"]
      show ?thesis by (auto split: option.split)
    next
      case (Inr ln)
      with True Cons.prems Cons.IH [of "m\<lparr>lm_active := AList.update q \<lparr>tl_port = q, tl_ln = ln\<rparr> (lm_active m),
          lm_metrics := IncTCPListenerOpen (lm_metrics m)\<rparr>" e]
      show ?thesis by (auto simp: update_conv' split: option.split)
    qed
  qed
qed (simp split: option.split)

lemma open_loop_error:
  "open_loop opn ps (m, e) = (m', e') \<Longrightarrow>
   (e' = None \<longleftrightarrow> e = None \<and> (\<forall>p \<in> set ps. map_of (lm_active m) p = None \<longrightarrow> (\<exists>ln. opn p = Inr ln)))"
proof (induction ps arbitrary: m e)
  case (Cons q ps)
  show ?case
  proof (cases "map_of (lm_active m) q = None")
    case False
    with Cons show ?thesis by auto
  next
    case True
    then show ?thesis
    proof (cases "opn q")
      case (Inl err)
      with True Cons.prems Cons.IH [of "m\<lparr>lm_metrics := IncTCPListenError (lm_metrics m)\<rparr>" "if e = None then Some err else e"]
      show ?thesis by (auto split: if_splits)
    next
      case (Inr ln)
      with True Cons.prems Cons.IH [of "m\<lparr>lm_active := AList.update q \<lparr>tl_port = q, tl_ln = ln\<rparr> (lm_active m),
          lm_metrics := IncTCPListenerOpen (lm_metrics m)\<rparr>" e]
      show ?thesis by (auto simp: update_conv')
    qed
  qed
qed simp

lemma close_loop_active:
  "close_loop desired ls (m, st) = (m', st') \<Longrightarrow>
   map_of (lm_active m') p = (if p \<in> keys ls \<and> \<not> get_or False desired p then None else map_of (lm_active m) p) \<and>
   st' = st @ map snd (filter (\<lambda>(p, l). \<not> get_or False desired p) ls) \<and>
   lm_reserved m' = lm_reserved m \<and> (gomap_ok (lm_active m) \<longrightarrow> gomap_ok (lm_active m'))"
proof (induction ls arbitrary: m st)
  case (Cons x ls)
  obtain q l where x: "x = (q, l)" by fastforce
  show ?case
  proof (cases "get_or False desired q")
    case True
    with Cons x show ?thesis by auto
  next
    case False
    with x Cons.prems Cons.IH [of "m\<lparr>lm_active := AList.delete q (lm_active m), lm_metrics := IncTCPListenerClose (lm_metrics m)\<rparr>" "st @ [l]"]
    show ?thesis by (auto simp: delete_conv')
  qed
qed simp

definition wanted :: "TCPListenerManager \<Rightarrow> int list \<Rightarrow> int \<Rightarrow> bool" where
  "wanted m ports p \<longleftrightarrow> p \<in> set ports \<and> \<not> get_or False (lm_reserved m) p"

lemma Reconcile_active:
  assumes ok: "gomap_ok (lm_active m)" and iter: "\<And>d. mset (iter d) = mset d"
    and rec: "Reconcile opn iter m ports = (m', stopped, err)"
  shows "map_of (lm_active m') p =
      (if \<not> wanted m ports p then None
       else case map_of (lm_active m) p of
              Some l \<Rightarrow> Some l
            | None \<Rightarrow> (case opn p of Inl _ \<Rightarrow> None | Inr ln \<Rightarrow> Some \<lparr>tl_port = p, tl_ln = ln\<rparr>))"
    and "set stopped = {l. \<exists>p. map_of (lm_active m) p = Some l \<and> \<not> wanted m ports p}"
    and "err = None \<longleftrightarrow> (\<forall>p. wanted m ports p \<and> map_of (lm_active m) p = None \<longrightarrow> (\<exists>ln. opn p = Inr ln))"
    and "gomap_ok (lm_active m')" and "lm_reserved m' = lm_reserved m"
    and "map_option mc_TCPListenersActive (lm_metrics m') = map_option (\<lambda>_. int (length (lm_active m'))) (lm_metrics m')"
proof -
  let ?d = "desired_ports (lm_reserved m) ports"
  note d = desired_ports_keys [of "lm_reserved m" ports]
  obtain m1 e1 where o: "open_loop opn (map fst (iter ?d)) (m, None) = (m1, e1)" by fastforce
  obtain m2 st where c: "close_loop ?d (lm_active m1) (m1, []) = (m2, st)" by fastforce
  from rec o c have m': "m' = m2\<lparr>lm_metrics := SetTCPListenersActive (int (length (lm_active m2))) (lm_metrics m2)\<rparr>"
    and st: "stopped = st" and err: "err = e1" by (auto simp: Reconcile_def Let_def)
  have "set (iter ?d) = set ?d" using iter by (rule mset_eq_setD)
  then have ps: "set (map fst (iter ?d)) = {p. wanted m ports p}" using d(1) by (simp add: wanted_def)
  have des: "get_or False ?d p \<longleftrightarrow> wanted m ports p" for p using d(3) by (simp add: wanted_def)
  note a1 = open_loop_active [OF o, unfolded ps]
  note a2 = close_loop_active [OF c, unfolded des]
  have ok1: "gomap_ok (lm_active m1)" using a1 ok by blast
  have dom1: "p \<in> keys (lm_active m1) \<longleftrightarrow> map_of (lm_active m1) p \<noteq> None" for p
    by (simp add: map_of_eq_None_iff)
  show "map_of (lm_active m') p =
      (if \<not> wanted m ports p then None
       else case map_of (lm_active m) p of
              Some l \<Rightarrow> Some l
            | None \<Rightarrow> (case opn p of Inl _ \<Rightarrow> None | Inr ln \<Rightarrow> Some \<lparr>tl_port = p, tl_ln = ln\<rparr>))"
    using a1 [of p] a2 [of p] dom1 [of p] by (auto simp: m' split: option.splits)
  have keep: "map_of (lm_active m1) p = map_of (lm_active m) p" if "\<not> wanted m ports p" for p
    using a1 [of p] that by (simp split: option.splits)
  have "l \<in> set st \<longleftrightarrow> (\<exists>p. map_of (lm_active m1) p = Some l \<and> \<not> wanted m ports p)" for l
    using a2 ok1 by (auto simp: map_of_eq_Some_iff image_iff)
  then show "set stopped = {l. \<exists>p. map_of (lm_active m) p = Some l \<and> \<not> wanted m ports p}"
    unfolding st set_eq_iff mem_Collect_eq using keep by metis
  show "err = None \<longleftrightarrow> (\<forall>p. wanted m ports p \<and> map_of (lm_active m) p = None \<longrightarrow> (\<exists>ln. opn p = Inr ln))"
    using open_loop_error [OF o, unfolded ps] by (auto simp: err)
  show "gomap_ok (lm_active m')" "lm_reserved m' = lm_reserved m" using a1 a2 ok1 by (simp_all add: m')
  show "map_option mc_TCPListenersActive (lm_metrics m') = map_option (\<lambda>_. int (length (lm_active m'))) (lm_metrics m')"
    by (simp add: m' SetTCPListenersActive_def option.map_comp comp_def)
qed

subsection \<open>Connections of a listener\<close>

text \<open>
  The goroutines of one listener: \<open>acceptLoop\<close>, one handler for each connection, and the drain
  started by \<open>stopListener\<close>. Between \<open>Accept\<close> and the end of its handler a connection passes through the
  phases below; the three deferred calls of the handler run in reverse order.
\<close>

datatype conn_phase = Accepted | Counted | Stored | Running | Unmetered | Unstored

datatype drain = Serving | Draining | Drained

record listener_state =
  ls_open :: bool
  ls_drain :: drain
  ls_phase :: "(nat, conn_phase) gomap"
  ls_active :: int
  ls_conns :: "nat list"
  ls_forced :: "nat list"
  ls_metrics :: metrics

definition listener_start :: "metrics \<Rightarrow> listener_state" where
  "listener_start metrics =
     \<lparr>ls_open = True, ls_drain = Serving, ls_phase = [], ls_active = 0, ls_conns = [], ls_forced = [], ls_metrics = metrics\<rparr>"

definition set_phase :: "nat \<Rightarrow> conn_phase \<Rightarrow> listener_state \<Rightarrow> listener_state" where
  "set_phase c ph s = s\<lparr>ls_phase := AList.update c ph (ls_phase s)\<rparr>"

abbreviation in_phase :: "listener_state \<Rightarrow> nat \<Rightarrow> conn_phase \<Rightarrow> bool" where
  "in_phase s c ph \<equiv> map_of (ls_phase s) c = Some ph"

inductive listener_step :: "listener_state \<Rightarrow> listener_state \<Rightarrow> bool" where
  accept: "\<lbrakk>ls_open s; c \<notin> keys (ls_phase s)\<rbrakk> \<Longrightarrow> listener_step s (set_phase c Accepted s)"
| count: "in_phase s c Accepted \<Longrightarrow> listener_step s (set_phase c Counted (s\<lparr>ls_active := ls_active s + 1\<rparr>))"
| store: "in_phase s c Counted \<Longrightarrow> listener_step s (set_phase c Stored (s\<lparr>ls_conns := c # ls_conns s\<rparr>))"
| spawn: "in_phase s c Stored \<Longrightarrow>
    listener_step s (set_phase c Running (s\<lparr>ls_metrics := IncTCPConnAccepted (ls_metrics s)\<rparr>))"
| handled: "in_phase s c Running \<Longrightarrow>
    listener_step s (set_phase c Unmetered (s\<lparr>ls_metrics := DecTCPConnActive (ls_metrics s)\<rparr>))"
| unstore: "in_phase s c Unmetered \<Longrightarrow>
    listener_step s (set_phase c Unstored (s\<lparr>ls_conns := removeAll c (ls_conns s)\<rparr>))"
| uncount: "in_phase s c Unstored \<Longrightarrow>
    listener_step s (s\<lparr>ls_active := ls_active s - 1, ls_phase := AList.delete c (ls_phase s)\<rparr>)"
| stop: "ls_open s \<Longrightarrow> listener_step s (s\<lparr>ls_open := False, ls_drain := Draining\<rparr>)"
| drained: "\<lbrakk>ls_drain s = Draining; \<not> ls_active s > 0\<rbrakk> \<Longrightarrow> listener_step s (s\<lparr>ls_drain := Drained\<rparr>)"
| force: "\<lbrakk>ls_drain s = Draining; ls_active s > 0\<rbrakk> \<Longrightarrow>
    listener_step s (s\<lparr>ls_drain := Drained, ls_forced := ls_conns s @ ls_forced s,
      ls_metrics := AddTCPForceClosed (int (length (ls_conns s))) (ls_metrics s)\<rparr>)"

inductive_cases listener_stepE: "listener_step s s'"

definition is_counted :: "conn_phase \<Rightarrow> bool" where
  "is_counted ph \<longleftrightarrow> ph \<noteq> Accepted"

definition is_stored :: "conn_phase \<Rightarrow> bool" where
  "is_stored ph \<longleftrightarrow> ph \<in> {Stored, Running, Unmetered}"

definition phases_with :: "(conn_phase \<Rightarrow> bool) \<Rightarrow> listener_state \<Rightarrow> nat" where
  "phases_with P s = length (filter (\<lambda>(c, ph). P ph) (ls_phase s))"

definition listener_inv :: "listener_state \<Rightarrow> bool" where
  "listener_inv s \<longleftrightarrow>
     gomap_ok (ls_phase s) \<and> ls_active s = int (phases_with is_counted s) \<and>
     distinct (ls_conns s) \<and> set (ls_conns s) = {c. \<exists>ph. in_phase s c ph \<and> is_stored ph} \<and>
     (\<forall>m. ls_metrics s = Some m \<longrightarrow> mc_TCPConnectionsActive m = int (phases_with (\<lambda>ph. ph = Running) s)) \<and>
     (ls_open s \<longleftrightarrow> ls_drain s = Serving) \<and> (ls_drain s \<noteq> Drained \<longrightarrow> ls_forced s = [])"

lemma phases_update:
  "gomap_ok m \<Longrightarrow> length (filter (\<lambda>(c, ph). P ph) (AList.update c ph m)) + (case map_of m c of None \<Rightarrow> 0 | Some q \<Rightarrow> of_bool (P q))
     = length (filter (\<lambda>(c, ph). P ph) m) + of_bool (P ph)"
  by (induction m) (auto split: option.splits)

lemma phases_delete:
  "gomap_ok m \<Longrightarrow> map_of m c = Some q \<Longrightarrow>
     length (filter (\<lambda>(c, ph). P ph) (AList.delete c m)) + of_bool (P q) = length (filter (\<lambda>(c, ph). P ph) m)"
proof (induction m)
  case (Cons x m)
  obtain k v where x: "x = (k, v)" by fastforce
  show ?case
  proof (cases "k = c")
    case True
    with Cons.prems x have "c \<notin> fst ` set m" "v = q" by auto
    then show ?thesis using x True by (simp add: delete_id)
  next
    case False
    with Cons x show ?thesis by auto
  qed
qed simp

lemma phases_set_phase:
  "gomap_ok (ls_phase s) \<Longrightarrow>
   int (phases_with P (set_phase c ph s)) = int (phases_with P s) + of_bool (P ph) -
     (case map_of (ls_phase s) c of None \<Rightarrow> 0 | Some q \<Rightarrow> of_bool (P q))"
  using arg_cong [OF phases_update [of "ls_phase s" P c ph], of int]
  by (cases "map_of (ls_phase s) c") (simp_all add: phases_with_def set_phase_def del: map_of_eq_Some_iff)

lemma set_phase_fields [simp]:
  "ls_open (set_phase c ph s) = ls_open s" "ls_drain (set_phase c ph s) = ls_drain s"
  "ls_active (set_phase c ph s) = ls_active s" "ls_conns (set_phase c ph s) = ls_conns s"
  "ls_forced (set_phase c ph s) = ls_forced s" "ls_metrics (set_phase c ph s) = ls_metrics s"
  by (simp_all add: set_phase_def)

lemma map_of_set_phase [simp]: "map_of (ls_phase (set_phase c ph s)) = (map_of (ls_phase s))(c \<mapsto> ph)"
  by (simp add: set_phase_def update_conv')

lemma gomap_ok_set_phase [simp]: "gomap_ok (ls_phase s) \<Longrightarrow> gomap_ok (ls_phase (set_phase c ph s))"
  by (simp add: set_phase_def)

lemma phases_with_cong [simp]:
  "phases_with P (s\<lparr>ls_active := a\<rparr>) = phases_with P s" "phases_with P (s\<lparr>ls_conns := cs\<rparr>) = phases_with P s"
  "phases_with P (s\<lparr>ls_metrics := m\<rparr>) = phases_with P s"
  by (simp_all add: phases_with_def)

lemmas phase_simps = is_counted_def is_stored_def phases_set_phase

text \<open>One lemma for each step that moves a connection to its next phase.\<close>

lemma inv_accept: "listener_inv s \<Longrightarrow> c \<notin> keys (ls_phase s) \<Longrightarrow> listener_inv (set_phase c Accepted s)"
proof -
  assume inv: "listener_inv s" and new: "c \<notin> keys (ls_phase s)"
  from new have none: "map_of (ls_phase s) c = None" by (simp add: map_of_eq_None_iff)
  have "{c'. \<exists>ph. in_phase (set_phase c Accepted s) c' ph \<and> is_stored ph} = {c. \<exists>ph. in_phase s c ph \<and> is_stored ph}"
    using none by (auto simp: is_stored_def)
  with inv none show ?thesis unfolding listener_inv_def by (simp add: phase_simps del: map_of_set_phase)
qed

lemma inv_move:
  assumes inv: "listener_inv s" and ph: "in_phase s c q"
    and active: "a = ls_active s + of_bool (is_counted ph) - of_bool (is_counted q)"
    and conns: "distinct cs" "set cs = (if is_stored ph then insert c (set (ls_conns s)) else set (ls_conns s) - {c})"
    and metrics: "\<And>m. mo = Some m \<Longrightarrow> \<exists>m0. ls_metrics s = Some m0 \<and>
      mc_TCPConnectionsActive m = mc_TCPConnectionsActive m0 + of_bool (ph = Running) - of_bool (q = Running)"
  shows "listener_inv (set_phase c ph (s\<lparr>ls_active := a, ls_conns := cs, ls_metrics := mo\<rparr>))"
proof -
  let ?s = "s\<lparr>ls_active := a, ls_conns := cs, ls_metrics := mo\<rparr>"
  from inv have ok: "gomap_ok (ls_phase s)" by (simp add: listener_inv_def)
  have n: "int (phases_with P (set_phase c ph ?s)) = int (phases_with P s) + of_bool (P ph) - of_bool (P q)" for P
    using phases_set_phase [of ?s P c ph] ok ph by simp
  have "set cs = {c'. \<exists>p'. in_phase (set_phase c ph ?s) c' p' \<and> is_stored p'}"
    using inv conns(2) ph by (auto simp: listener_inv_def)
  moreover have "ls_active ?s = int (phases_with is_counted (set_phase c ph ?s))"
    unfolding n using inv active by (simp add: listener_inv_def)
  moreover have "mc_TCPConnectionsActive m = int (phases_with (\<lambda>ph. ph = Running) (set_phase c ph ?s))" if "mo = Some m" for m
    unfolding n using inv metrics [OF that] by (auto simp: listener_inv_def)
  moreover have "gomap_ok (ls_phase (set_phase c ph ?s))" using ok by simp
  ultimately show ?thesis
    using inv conns(1) unfolding listener_inv_def by (simp del: map_of_set_phase map_of_eq_Some_iff)
qed

lemma not_stored_conns: "listener_inv s \<Longrightarrow> in_phase s c q \<Longrightarrow> \<not> is_stored q \<Longrightarrow> c \<notin> set (ls_conns s)"
  by (auto simp: listener_inv_def simp del: map_of_eq_Some_iff)

lemma stored_conns: "listener_inv s \<Longrightarrow> in_phase s c q \<Longrightarrow> is_stored q \<Longrightarrow> c \<in> set (ls_conns s)"
  by (auto simp: listener_inv_def simp del: map_of_eq_Some_iff)

lemma inv_distinct: "listener_inv s \<Longrightarrow> distinct (ls_conns s)"
  by (simp add: listener_inv_def)

lemma phase_kinds [simp]:
  "\<not> is_counted Accepted" "is_counted Counted" "is_counted Stored" "is_counted Running" "is_counted Unmetered" "is_counted Unstored"
  "\<not> is_stored Accepted" "\<not> is_stored Counted" "is_stored Stored" "is_stored Running" "is_stored Unmetered" "\<not> is_stored Unstored"
  by (simp_all add: is_counted_def is_stored_def)

lemma listener_inv_step: "listener_step s s' \<Longrightarrow> listener_inv s \<Longrightarrow> listener_inv s'"
proof (induction rule: listener_step.induct)
  case (accept s c)
  then show ?case using inv_accept by blast
next
  case (count s c)
  have "listener_inv (set_phase c Counted (s\<lparr>ls_active := ls_active s + 1, ls_conns := ls_conns s, ls_metrics := ls_metrics s\<rparr>))"
    using not_stored_conns [OF count(2,1)]
    by (intro inv_move [OF count(2,1)]) (auto simp: phase_kinds inv_distinct [OF count(2)] IncTCPConnAccepted_def DecTCPConnActive_def)
  then show ?case by simp
next
  case (store s c)
  have "listener_inv (set_phase c Stored (s\<lparr>ls_active := ls_active s, ls_conns := c # ls_conns s, ls_metrics := ls_metrics s\<rparr>))"
    using not_stored_conns [OF store(2,1)]
    by (intro inv_move [OF store(2,1)]) (auto simp: phase_kinds inv_distinct [OF store(2)] IncTCPConnAccepted_def DecTCPConnActive_def)
  then show ?case by simp
next
  case (spawn s c)
  have "listener_inv (set_phase c Running (s\<lparr>ls_active := ls_active s, ls_conns := ls_conns s, ls_metrics := IncTCPConnAccepted (ls_metrics s)\<rparr>))"
    using stored_conns [OF spawn(2,1)]
    by (intro inv_move [OF spawn(2,1)]) (auto simp: phase_kinds inv_distinct [OF spawn(2)] IncTCPConnAccepted_def DecTCPConnActive_def)
  then show ?case by simp
next
  case (handled s c)
  have "listener_inv (set_phase c Unmetered (s\<lparr>ls_active := ls_active s, ls_conns := ls_conns s, ls_metrics := DecTCPConnActive (ls_metrics s)\<rparr>))"
    using stored_conns [OF handled(2,1)]
    by (intro inv_move [OF handled(2,1)]) (auto simp: phase_kinds inv_distinct [OF handled(2)] IncTCPConnAccepted_def DecTCPConnActive_def)
  then show ?case by simp
next
  case (unstore s c)
  have "listener_inv (set_phase c Unstored (s\<lparr>ls_active := ls_active s, ls_conns := removeAll c (ls_conns s), ls_metrics := ls_metrics s\<rparr>))"
    by (intro inv_move [OF unstore(2,1)]) (auto simp: phase_kinds inv_distinct [OF unstore(2)] distinct_removeAll IncTCPConnAccepted_def DecTCPConnActive_def)
  then show ?case by simp
next
  case (uncount s c)
  from uncount(2) have ok: "gomap_ok (ls_phase s)" by (simp add: listener_inv_def)
  let ?s = "s\<lparr>ls_active := ls_active s - 1, ls_phase := AList.delete c (ls_phase s)\<rparr>"
  have n: "int (phases_with P ?s) = int (phases_with P s) - of_bool (P Unstored)" for P
    using arg_cong [OF phases_delete [OF ok uncount(1), of P], of int] by (simp add: phases_with_def)
  have "{c'. \<exists>p'. in_phase ?s c' p' \<and> is_stored p'} = {c. \<exists>ph. in_phase s c ph \<and> is_stored ph}"
    using uncount(1) by (auto simp: delete_conv' is_stored_def)
  with uncount(2) n show ?case unfolding listener_inv_def by (simp add: is_counted_def delete_conv')
qed (auto simp: listener_inv_def phases_with_def AddTCPForceClosed_def simp del: map_of_eq_Some_iff split: if_splits)

lemma listener_inv_reachable:
  "listener_step\<^sup>*\<^sup>* s s' \<Longrightarrow> listener_inv s \<Longrightarrow> listener_inv s'"
  by (induction rule: rtranclp_induct) (auto intro: listener_inv_step)

lemma listener_inv_start:
  "(\<And>m. metrics = Some m \<Longrightarrow> mc_TCPConnectionsActive m = 0) \<Longrightarrow> listener_inv (listener_start metrics)"
  by (simp add: listener_inv_def listener_start_def phases_with_def)

lemma keys_set_phase: "in_phase s c q \<Longrightarrow> keys (ls_phase (set_phase c ph s)) = keys (ls_phase s)"
  by (auto simp: set_phase_def dom_update dest: map_of_SomeD intro: rev_image_eqI simp del: map_of_eq_Some_iff)

lemma keys_phase_update [simp]:
  "ls_phase (s\<lparr>ls_active := a\<rparr>) = ls_phase s" "ls_phase (s\<lparr>ls_conns := cs\<rparr>) = ls_phase s"
  "ls_phase (s\<lparr>ls_metrics := m\<rparr>) = ls_phase s"
  by simp_all

lemma stopped_no_accept:
  "listener_step s s' \<Longrightarrow> \<not> ls_open s \<Longrightarrow> \<not> ls_open s' \<and> keys (ls_phase s') \<subseteq> keys (ls_phase s)"
proof (induction rule: listener_step.induct)
  case (uncount s c)
  then show ?case by (auto simp: delete_keys simp del: map_of_eq_Some_iff)
qed (simp_all add: keys_set_phase [simplified] del: map_of_eq_Some_iff)

subsection \<open>Properties\<close>

text \<open>C20: \<open>Reconcile\<close> makes the open ports the desired ports that are not reserved, as far as they can be opened:
  a listener that is wanted stays the same listener, a missing one is opened, every other one is stopped, exactly
  once each; a reserved port is never opened. An error is returned exactly when some missing port could not be
  opened, which stops neither the other ports nor the closing. The gauge shows the number of open listeners. Without
  an error, reconciling again with the same ports changes nothing and stops nothing.\<close>

theorem Reconcile_correct:
  assumes "gomap_ok (lm_active m)" and "\<And>d. mset (iter d) = mset d"
    and "Reconcile opn iter m ports = (m', stopped, err)"
    and "Reconcile opn' iter m' ports = (m'', stopped', err')"
  shows "(\<forall>p. map_of (lm_active m') p =
      (if \<not> wanted m ports p then None
       else case map_of (lm_active m) p of
              Some l \<Rightarrow> Some l
            | None \<Rightarrow> (case opn p of Inl _ \<Rightarrow> None | Inr ln \<Rightarrow> Some \<lparr>tl_port = p, tl_ln = ln\<rparr>))) \<and>
    set stopped = {l. \<exists>p. map_of (lm_active m) p = Some l \<and> \<not> wanted m ports p} \<and>
    (err = None \<longleftrightarrow> (\<forall>p. wanted m ports p \<and> map_of (lm_active m) p = None \<longrightarrow> (\<exists>ln. opn p = Inr ln))) \<and>
    map_option mc_TCPListenersActive (lm_metrics m') = map_option (\<lambda>_. int (length (lm_active m'))) (lm_metrics m') \<and>
    (err = None \<longrightarrow> map_of (lm_active m'') = map_of (lm_active m') \<and> set stopped' = {} \<and> err' = None)"
proof -
  note r1 = Reconcile_active [OF assms(1-3)]
  note r2 = Reconcile_active [OF r1(4) assms(2,4)]
  have same: "wanted m' ports p \<longleftrightarrow> wanted m ports p" for p by (simp add: wanted_def r1(5))
  have open_all: "wanted m ports p \<longleftrightarrow> map_of (lm_active m') p \<noteq> None" if "err = None" for p
    using that r1(1) [of p] r1(3) by (auto split: option.splits sum.splits)
  have "map_of (lm_active m'') = map_of (lm_active m') \<and> set stopped' = {} \<and> err' = None" if "err = None"
  proof (intro conjI ext)
    fix p show "map_of (lm_active m'') p = map_of (lm_active m') p"
      using open_all [OF that, of p] r2(1) [of p] same by (auto split: option.splits)
    show "set stopped' = {}" unfolding r2(2) same open_all [OF that] by simp
    show "err' = None" using r2(3) open_all [OF that] same by auto
  qed
  with r1(1,2,3,6) show ?thesis by blast
qed

theorem Reconcile_correct_witness:
  "\<exists>m' stopped. Reconcile (\<lambda>p. if p = 9000 then Inl ''in use'' else Inr 7) id
     (NewTCPListenerManager None 0 None) [443, 5432, 9000, 5432] = (m', stopped, Some ''in use'') \<and>
     map_of (lm_active m') 5432 = Some \<lparr>tl_port = 5432, tl_ln = 7\<rparr> \<and> map_of (lm_active m') 443 = None"
proof -
  let ?m = "NewTCPListenerManager None 0 None" and ?o = "\<lambda>p. if p = 9000 then Inl ''in use'' else Inr 7"
  obtain m' stopped err where r: "Reconcile ?o id ?m [443, 5432, 9000, 5432] = (m', stopped, err)" by (metis prod.exhaust)
  obtain m'' stopped' err' where r': "Reconcile ?o id m' [443, 5432, 9000, 5432] = (m'', stopped', err')" by (metis prod.exhaust)
  have "err = Some ''in use''" using r by (simp add: go_eval recorder_defs get_or_def)
  moreover have "gomap_ok (lm_active ?m)" by (simp add: NewTCPListenerManager_def)
  ultimately show ?thesis
    using Reconcile_correct [of ?m id ?o "[443, 5432, 9000, 5432]", OF _ _ r r'] r
    by (simp add: wanted_def NewTCPListenerManager_def get_or_def)
qed

text \<open>C21: in every state that the goroutines of a listener reach, in whatever order their steps interleave, the
  in-flight counter is the number of connections counted and not yet uncounted (so it never goes below zero), the
  connection set holds each stored connection once, and the gauge of active connections is the number of running
  handlers. After \<open>stopListener\<close> no further connection is accepted, and nothing is closed by force before the drain
  has ended.\<close>

theorem listener_invariant:
  assumes "listener_step\<^sup>*\<^sup>* (listener_start metrics) s"
    and "map_option mc_TCPConnectionsActive metrics \<in> {None, Some 0}"
  shows "ls_active s = int (phases_with is_counted s) \<and> 0 \<le> ls_active s \<and>
    distinct (ls_conns s) \<and> set (ls_conns s) = {c. \<exists>ph. in_phase s c ph \<and> is_stored ph} \<and>
    (\<forall>mc. ls_metrics s = Some mc \<longrightarrow> mc_TCPConnectionsActive mc = int (phases_with (\<lambda>ph. ph = Running) s)) \<and>
    (ls_drain s \<noteq> Drained \<longrightarrow> ls_forced s = []) \<and>
    (\<forall>s'. listener_step s s' \<and> ls_drain s \<noteq> Serving \<longrightarrow> keys (ls_phase s') \<subseteq> keys (ls_phase s))"
proof -
  have "listener_inv s"
    using listener_inv_reachable [OF assms(1) listener_inv_start] assms(2) by auto
  then show ?thesis using stopped_no_accept unfolding listener_inv_def by auto
qed

theorem listener_invariant_witness:
  "listener_step\<^sup>*\<^sup>* (listener_start None) (set_phase 1 Accepted (listener_start None)) \<and>
   ls_active (set_phase 1 Accepted (listener_start None)) = int (phases_with is_counted (set_phase 1 Accepted (listener_start None)))"
proof
  have "listener_step (listener_start None) (set_phase 1 Accepted (listener_start None))"
    by (rule listener_step.accept) (simp_all add: listener_start_def)
  then show reach: "listener_step\<^sup>*\<^sup>* (listener_start None) (set_phase 1 Accepted (listener_start None))" by simp
  show "ls_active (set_phase 1 Accepted (listener_start None)) = int (phases_with is_counted (set_phase 1 Accepted (listener_start None)))"
    using listener_invariant [OF reach] by simp
qed

text \<open>the drain can end while a connection is still to come: a connection accepted just before the listener
  is stopped and counted only after the drain saw the counter at zero runs on without any limit; it is neither waited
  for nor closed by force.\<close>

theorem drain_can_miss_connection:
  "\<exists>s. listener_step\<^sup>*\<^sup>* (listener_start metrics) s \<and> ls_drain s = Drained \<and> in_phase s 0 Running \<and> ls_forced s = []"
proof -
  let ?s0 = "listener_start metrics"
  let ?s1 = "set_phase 0 Accepted ?s0"
  let ?s2 = "?s1\<lparr>ls_open := False, ls_drain := Draining\<rparr>"
  let ?s3 = "?s2\<lparr>ls_drain := Drained\<rparr>"
  let ?s4 = "set_phase 0 Counted (?s3\<lparr>ls_active := ls_active ?s3 + 1\<rparr>)"
  let ?s5 = "set_phase 0 Stored (?s4\<lparr>ls_conns := 0 # ls_conns ?s4\<rparr>)"
  let ?s6 = "set_phase 0 Running (?s5\<lparr>ls_metrics := IncTCPConnAccepted (ls_metrics ?s5)\<rparr>)"
  have "listener_step ?s0 ?s1" by (rule listener_step.accept) (simp_all add: listener_start_def)
  moreover have "listener_step ?s1 ?s2" by (rule listener_step.stop) (simp add: listener_start_def)
  moreover have "listener_step ?s2 ?s3" by (rule listener_step.drained) (simp_all add: listener_start_def)
  moreover have "listener_step ?s3 ?s4" by (rule listener_step.count) (simp add: set_phase_def listener_start_def)
  moreover have "listener_step ?s4 ?s5" by (rule listener_step.store) simp
  moreover have "listener_step ?s5 ?s6" by (rule listener_step.spawn) simp
  ultimately have "listener_step\<^sup>*\<^sup>* ?s0 ?s6" by (meson converse_rtranclp_into_rtranclp rtranclp.rtrancl_refl)
  then show ?thesis by (intro exI [of _ ?s6]) (simp add: listener_start_def)
qed

end
