(* ===== verification/Watcher.thy ===== *)
theory Watcher
  imports Route_Types "HOL-Library.Sublist"
begin

text \<open>
  \<open>watcher.go\<close>: the cache of Consul services, kept up to date by two blocking queries and a periodic
  re-fetch, and the debounce buffer that turns changes into calls of \<open>onChange\<close>.

  Consul is not part of the program: \<open>fetch\<close> stands for \<open>Health().Service\<close> (the service and whether only passing
  entries are asked for; an error message, or the entries and the index), and the answers of the
  catalog and health-state queries are arguments of the steps. The loops that a closed \<open>stopCh\<close> ends
  early take the number of rounds they run before they see it. Time is left out: the debounce timer
  is armed or not, and a timer that has fired waits for its \<open>flushChanges\<close> to run.
\<close>

subsection \<open>State\<close>

record ServiceEntry =
  en_ID :: string
  en_Address :: string
  en_Port :: int
  en_Tags :: "string list"
  en_Meta :: "(string, string) gomap"
  en_WeightPassing :: int
  en_Node :: string
  en_NodeAddress :: string
  en_Checks :: "string list"

record HealthCheck =
  hc_ServiceName :: string
  hc_ServiceID :: string

type_synonym fetch = "string \<Rightarrow> bool \<Rightarrow> string + ServiceEntry list \<times> 64 word"

type_synonym passing = "(string, (string, bool) gomap) gomap"

record ConsulWatcher =
  w_services :: "(string, ServiceState) gomap"
  w_healthPolicy :: HealthPolicy
  w_serviceTag :: string
  w_connectTag :: string
  w_pendingChanges :: "ServiceChange list"
  w_inDebounce :: bool
  w_timerArmed :: bool
  w_timerFired :: nat
  w_catalogIndex :: "64 word"
  w_healthStateIndex :: "64 word"
  w_lastPassingChecks :: passing
  w_routableServices :: "(string, bool) gomap"
  w_stopped :: bool

definition NewConsulWatcher :: "HealthPolicy \<Rightarrow> string \<Rightarrow> string \<Rightarrow> ConsulWatcher" where
  "NewConsulWatcher healthPolicy serviceTag connectTag =
     \<lparr>w_services = [], w_healthPolicy = healthPolicy, w_serviceTag = serviceTag, w_connectTag = connectTag,
      w_pendingChanges = [], w_inDebounce = False, w_timerArmed = False, w_timerFired = 0,
      w_catalogIndex = 0, w_healthStateIndex = 0, w_lastPassingChecks = [], w_routableServices = [],
      w_stopped = False\<rparr>"

definition id_set :: "string list \<Rightarrow> (string, bool) gomap" where
  "id_set ids = foldl (\<lambda>m i. AList.update i True m) [] ids"

definition RestoreState ::
  "ConsulWatcher \<Rightarrow> 64 word \<Rightarrow> 64 word \<Rightarrow> (string, ServiceState) gomap \<Rightarrow> (string, string list) gomap \<Rightarrow> ConsulWatcher" where
  "RestoreState w catalogIndex healthStateIndex services passingChecks =
     w\<lparr>w_catalogIndex := catalogIndex, w_healthStateIndex := healthStateIndex,
       w_services := foldl (\<lambda>m (name, pss). AList.update name pss m) (w_services w) services,
       w_routableServices := foldl (\<lambda>m (name, pss). AList.update name True m) (w_routableServices w) services,
       w_lastPassingChecks :=
         foldl (\<lambda>m (svcName, ids). AList.update svcName (id_set ids) m) (w_lastPassingChecks w) passingChecks\<rparr>"

definition PassingChecks :: "ConsulWatcher \<Rightarrow> (string, string list) gomap" where
  "PassingChecks w = map (\<lambda>(svcName, ids). (svcName, map fst ids)) (w_lastPassingChecks w)"

subsection \<open>Debounce\<close>

definition queueChanges :: "ConsulWatcher \<Rightarrow> ServiceChange list \<Rightarrow> ConsulWatcher" where
  "queueChanges w changes =
     w\<lparr>w_inDebounce := True, w_pendingChanges := w_pendingChanges w @ changes, w_timerArmed := True\<rparr>"

definition snapshot :: "ConsulWatcher \<Rightarrow> (string, ServiceState) gomap" where
  "snapshot w = filter (\<lambda>(k, v). ss_LastIndex v > 0 \<or> ss_Instances v \<noteq> []) (w_services w)"

text \<open>The call of \<open>onChange\<close>, if there is one: the changes and the snapshot of the services.\<close>

definition flushChanges ::
  "ConsulWatcher \<Rightarrow> ConsulWatcher \<times> (ServiceChange list \<times> (string, ServiceState) gomap) option" where
  "flushChanges w =
     (let changes = w_pendingChanges w;
          w' = w\<lparr>w_pendingChanges := [], w_inDebounce := False\<rparr>
      in if changes = [] then (w', None) else (w', Some (changes, snapshot w')))"

definition timer_fires :: "ConsulWatcher \<Rightarrow> ConsulWatcher" where
  "timer_fires w = w\<lparr>w_timerArmed := False, w_timerFired := w_timerFired w + 1\<rparr>"

definition Watcher_Stop :: "ConsulWatcher \<Rightarrow> ConsulWatcher" where
  "Watcher_Stop w = (if w_stopped w then w else w\<lparr>w_stopped := True, w_timerArmed := False\<rparr>)"

subsection \<open>Fetching one service\<close>

definition isHealthy :: "HealthPolicy \<Rightarrow> ServiceEntry \<Rightarrow> bool" where
  "isHealthy policy entry =
     (case policy of
        HealthPolicyAny \<Rightarrow> True
      | HealthPolicyWarning \<Rightarrow> list_all (\<lambda>status. status \<noteq> ''critical'') (en_Checks entry)
      | HealthPolicyPassing \<Rightarrow> list_all (\<lambda>status. status = ''passing'') (en_Checks entry))"

definition serviceAddress :: "ServiceEntry \<Rightarrow> string" where
  "serviceAddress entry = (if en_Address entry \<noteq> [] then en_Address entry else en_NodeAddress entry)"

definition entry_instance :: "HealthPolicy \<Rightarrow> ServiceEntry \<Rightarrow> ServiceInstance" where
  "entry_instance policy entry =
     \<lparr>si_ID = en_ID entry, si_Address = serviceAddress entry, si_Port = en_Port entry, si_Tags = en_Tags entry,
      si_Meta = en_Meta entry, si_Healthy = isHealthy policy entry,
      si_Weight = (if en_WeightPassing entry > 0 then en_WeightPassing entry else 1), si_NodeName = en_Node entry\<rparr>"

definition merged_tags :: "ServiceEntry list \<Rightarrow> string list" where
  "merged_tags entries = map fst (id_set (concat (map en_Tags entries)))"

definition merged_meta :: "ServiceEntry list \<Rightarrow> (string, string) gomap" where
  "merged_meta entries =
     foldl (\<lambda>m (k, v). if map_of m k = None then AList.update k v m else m) [] (concat (map en_Meta entries))"

text \<open>The part of \<open>fetchServiceHealth\<close> under the lock: the new state and the change to queue.\<close>

definition fetch_locked ::
  "ConsulWatcher \<Rightarrow> string \<Rightarrow> ServiceEntry list \<Rightarrow> 64 word \<Rightarrow> ConsulWatcher \<times> ServiceChange list" where
  "fetch_locked w name entries lastIndex =
     (let changeType = (if map_of (w_services w) name = None then ChangeAdded else ChangeUpdated);
          svc = \<lparr>ss_Name = (case map_of (w_services w) name of None \<Rightarrow> name | Some s \<Rightarrow> ss_Name s),
                 ss_Tags = merged_tags entries, ss_Meta = merged_meta entries,
                 ss_Instances = map (entry_instance (w_healthPolicy w)) entries, ss_LastIndex = lastIndex\<rparr>
      in (w\<lparr>w_services := AList.update name svc (w_services w)\<rparr>, [\<lparr>sc_Type = changeType, sc_Service = svc\<rparr>]))"

definition fetchServiceHealth :: "fetch \<Rightarrow> ConsulWatcher \<Rightarrow> string \<Rightarrow> ConsulWatcher" where
  "fetchServiceHealth fetch w name =
     (case fetch name (w_healthPolicy w = HealthPolicyPassing) of
        Inl err \<Rightarrow> w
      | Inr (entries, lastIndex) \<Rightarrow>
          (case fetch_locked w name entries lastIndex of (w', changes) \<Rightarrow> queueChanges w' changes))"

definition fetch_services :: "fetch \<Rightarrow> ConsulWatcher \<Rightarrow> string list \<Rightarrow> ConsulWatcher" where
  "fetch_services fetch w names = foldl (fetchServiceHealth fetch) w names"

subsection \<open>The catalog\<close>

definition shouldSkipService :: "string \<Rightarrow> bool" where
  "shouldSkipService name = (if name = ''consul'' then True else HasSuffix name ''-sidecar-proxy'')"

fun hasCaddyRoutingTag :: "string list \<Rightarrow> string \<Rightarrow> string \<Rightarrow> bool" where
  "hasCaddyRoutingTag [] serviceTag connectTag = False"
| "hasCaddyRoutingTag (tag # tags) serviceTag connectTag =
     (if HasPrefix tag ''urlprefix-'' then True
      else if tag = serviceTag \<or> tag = connectTag then True
      else hasCaddyRoutingTag tags serviceTag connectTag)"

definition current_routable :: "string \<Rightarrow> string \<Rightarrow> (string, string list) gomap \<Rightarrow> (string, bool) gomap" where
  "current_routable serviceTag connectTag catalogServices =
     map (\<lambda>(name, tags). (name, True))
       (filter (\<lambda>(name, tags). \<not> shouldSkipService name \<and> hasCaddyRoutingTag tags serviceTag connectTag) catalogServices)"

text \<open>The part under the lock: the new state, the services to fetch and the removals to queue.\<close>

definition reconcile_locked ::
  "ConsulWatcher \<Rightarrow> (string, string list) gomap \<Rightarrow> ConsulWatcher \<times> string list \<times> ServiceChange list" where
  "reconcile_locked w catalogServices =
     (let currentRoutable = current_routable (w_serviceTag w) (w_connectTag w) catalogServices;
          newServices = filter (\<lambda>name. map_of (w_services w) name = None) (map fst currentRoutable);
          removed = filter (\<lambda>(name, svc). \<not> get_or False currentRoutable name) (w_services w)
      in (w\<lparr>w_services := filter (\<lambda>(name, svc). get_or False currentRoutable name) (w_services w),
            w_routableServices := currentRoutable\<rparr>,
          newServices, map (\<lambda>(name, svc). \<lparr>sc_Type = ChangeRemoved, sc_Service = svc\<rparr>) removed))"

definition reconcileServices :: "fetch \<Rightarrow> nat \<Rightarrow> ConsulWatcher \<Rightarrow> (string, string list) gomap \<Rightarrow> ConsulWatcher" where
  "reconcileServices fetch rounds w catalogServices =
     (case reconcile_locked w catalogServices of (w1, newServices, removedChanges) \<Rightarrow>
        let w2 = (if removedChanges \<noteq> [] then queueChanges w1 removedChanges else w1)
        in fetch_services fetch w2 (take rounds newServices))"

text \<open>One round of \<open>watchCatalog\<close>; the loop variables are the back-off and whether this is the first query.\<close>

definition second :: int where "second = 1000000000"

definition next_backoff :: "int \<Rightarrow> int" where
  "next_backoff backoff = min (wrap64 (backoff * 2)) (30 * second)"

definition catalog_wait_index :: "ConsulWatcher \<Rightarrow> bool \<Rightarrow> 64 word" where
  "catalog_wait_index w firstQuery = (if firstQuery then 0 else w_catalogIndex w)"

definition watchCatalog_round ::
  "fetch \<Rightarrow> nat \<Rightarrow> string + (string, string list) gomap \<times> 64 word \<Rightarrow> ConsulWatcher \<times> int \<Rightarrow> ConsulWatcher \<times> int" where
  "watchCatalog_round fetch rounds answer st =
     (case st of (w, backoff) \<Rightarrow>
        (case answer of
           Inl err \<Rightarrow> (w, next_backoff backoff)
         | Inr (services, lastIndex) \<Rightarrow>
             (reconcileServices fetch rounds (w\<lparr>w_catalogIndex := lastIndex\<rparr>) services, second)))"

definition fullSync :: "fetch \<Rightarrow> nat \<Rightarrow> ConsulWatcher \<Rightarrow> ConsulWatcher" where
  "fullSync fetch rounds w = fetch_services fetch w (take rounds (map fst (w_routableServices w)))"

text \<open>The goroutine of the periodic re-fetch, with the number of services that each tick gets through before a stop; it
  returns at once when the interval is not positive.\<close>

definition periodicFullSync :: "fetch \<Rightarrow> int \<Rightarrow> nat list \<Rightarrow> ConsulWatcher \<Rightarrow> ConsulWatcher" where
  "periodicFullSync fetch fullSyncInterval ticks w =
     (if fullSyncInterval \<le> 0 then w else foldl (\<lambda>w rounds. fullSync fetch rounds w) w ticks)"

lemmas [go_eval] = NewConsulWatcher_def id_set_def RestoreState_def PassingChecks_def queueChanges_def snapshot_def
  flushChanges_def timer_fires_def Watcher_Stop_def isHealthy_def serviceAddress_def entry_instance_def merged_tags_def
  merged_meta_def fetchServiceHealth_def fetch_locked_def fetch_services_def shouldSkipService_def current_routable_def
  reconcile_locked_def reconcileServices_def second_def next_backoff_def catalog_wait_index_def watchCatalog_round_def
  fullSync_def periodicFullSync_def

subsection \<open>The health state\<close>

definition passing_add :: "passing \<Rightarrow> HealthCheck \<Rightarrow> passing" where
  "passing_add m check =
     (if hc_ServiceName check = [] then m
      else AList.update (hc_ServiceName check)
             (AList.update (hc_ServiceID check) True (get_or [] m (hc_ServiceName check))) m)"

definition current_passing :: "HealthCheck list \<Rightarrow> passing" where
  "current_passing checks = foldl passing_add [] checks"

definition sameIDSet :: "(string, bool) gomap \<Rightarrow> (string, bool) gomap \<Rightarrow> bool" where
  "sameIDSet a b \<longleftrightarrow> length a = length b \<and> list_all (\<lambda>(i, _). get_or False b i) a"

definition changed_services :: "ConsulWatcher \<Rightarrow> passing \<Rightarrow> string list" where
  "changed_services w currentPassing =
     (let allServiceNames = map fst (w_lastPassingChecks w) @
            filter (\<lambda>n. map_of (w_lastPassingChecks w) n = None) (map fst currentPassing)
      in filter (\<lambda>n. get_or False (w_routableServices w) n \<and>
                     \<not> sameIDSet (get_or [] (w_lastPassingChecks w) n) (get_or [] currentPassing n)) allServiceNames)"

definition needs_refetch :: "(string, bool) gomap \<Rightarrow> ServiceState \<Rightarrow> bool" where
  "needs_refetch passingIDs svc \<longleftrightarrow>
     list_ex (\<lambda>(i, _). i \<notin> set (map si_ID (ss_Instances svc))) passingIDs \<or> ss_Instances svc = []"

definition set_health :: "(string, bool) gomap \<Rightarrow> ServiceState \<Rightarrow> ServiceState" where
  "set_health passingIDs svc =
     svc\<lparr>ss_Instances := map (\<lambda>inst. inst\<lparr>si_Healthy := get_or False passingIDs (si_ID inst)\<rparr>) (ss_Instances svc)\<rparr>"

definition health_differs :: "(string, bool) gomap \<Rightarrow> ServiceState \<Rightarrow> bool" where
  "health_differs passingIDs svc \<longleftrightarrow>
     list_ex (\<lambda>inst. si_Healthy inst \<noteq> get_or False passingIDs (si_ID inst)) (ss_Instances svc)"

text \<open>The loop over the changed services: the services, the changes and the names to re-fetch.\<close>

fun health_loop ::
  "passing \<Rightarrow> string list \<Rightarrow> (string, ServiceState) gomap \<Rightarrow>
   (string, ServiceState) gomap \<times> ServiceChange list \<times> string list" where
  "health_loop currentPassing [] services = (services, [], [])"
| "health_loop currentPassing (name # names) services =
     (case map_of services name of
        None \<Rightarrow> health_loop currentPassing names services
      | Some svc \<Rightarrow>
          let passingIDs = get_or [] currentPassing name in
          if needs_refetch passingIDs svc then
            (case health_loop currentPassing names services of (ss, cs, rs) \<Rightarrow> (ss, cs, name # rs))
          else if health_differs passingIDs svc then
            let svc' = set_health passingIDs svc in
            (case health_loop currentPassing names (AList.update name svc' services) of (ss, cs, rs) \<Rightarrow>
               (ss, \<lparr>sc_Type = ChangeUpdated, sc_Service = svc'\<rparr> # cs, rs))
          else health_loop currentPassing names services)"

definition health_locked :: "ConsulWatcher \<Rightarrow> HealthCheck list \<Rightarrow> ConsulWatcher \<times> ServiceChange list \<times> string list" where
  "health_locked w checks =
     (let currentPassing = current_passing checks;
          changedServices = changed_services w currentPassing
      in case health_loop currentPassing changedServices (w_services w) of (services, changes, needsRefetch) \<Rightarrow>
           (w\<lparr>w_services := services, w_lastPassingChecks := currentPassing\<rparr>, changes, needsRefetch))"

definition watchHealthState_round ::
  "fetch \<Rightarrow> string + HealthCheck list \<times> 64 word \<Rightarrow> ConsulWatcher \<times> int \<Rightarrow> ConsulWatcher \<times> int" where
  "watchHealthState_round fetch answer st =
     (case st of (w, backoff) \<Rightarrow>
        (case answer of
           Inl err \<Rightarrow> (w, next_backoff backoff)
         | Inr (checks, lastIndex) \<Rightarrow>
             if lastIndex = w_healthStateIndex w then (w, second)
             else case health_locked (w\<lparr>w_healthStateIndex := lastIndex\<rparr>) checks of (w1, changes, needsRefetch) \<Rightarrow>
                    let w2 = fetch_services fetch w1 needsRefetch
                    in (if changes \<noteq> [] then queueChanges w2 changes else w2, second)))"

lemmas [go_eval] = passing_add_def current_passing_def sameIDSet_def changed_services_def needs_refetch_def
  set_health_def health_differs_def health_locked_def watchHealthState_round_def

subsection \<open>Interleaving\<close>

text \<open>
  The goroutines take turns: a locked section of a watch loop with what it queues at once, one fetch, the
  timer firing, \<open>flushChanges\<close>, or \<open>Stop\<close>. The label of a step is the call of \<open>onChange\<close> it makes, if any.
\<close>

inductive watcher_step ::
  "ConsulWatcher \<Rightarrow> (ServiceChange list \<times> (string, ServiceState) gomap) option \<Rightarrow> ConsulWatcher \<Rightarrow> bool" where
  ws_catalog:
    "reconcile_locked (w\<lparr>w_catalogIndex := i\<rparr>) services = (w', new, removed) \<Longrightarrow>
     watcher_step w None (if removed \<noteq> [] then queueChanges w' removed else w')"
| ws_health:
    "health_locked (w\<lparr>w_healthStateIndex := i\<rparr>) checks = (w', changes, refetch) \<Longrightarrow>
     watcher_step w None (if changes \<noteq> [] then queueChanges w' changes else w')"
| ws_fetch: "watcher_step w None (fetchServiceHealth fetch w name)"
| ws_fire: "w_timerArmed w \<Longrightarrow> watcher_step w None (timer_fires w)"
| ws_flush:
    "\<lbrakk>w_timerFired w > 0; flushChanges (w\<lparr>w_timerFired := w_timerFired w - 1\<rparr>) = (w', call)\<rbrakk> \<Longrightarrow> watcher_step w call w'"
| ws_stop: "watcher_step w None (Watcher_Stop w)"

inductive watcher_run ::
  "ConsulWatcher \<Rightarrow> (ServiceChange list \<times> (string, ServiceState) gomap) list \<Rightarrow> ConsulWatcher \<Rightarrow> bool" where
  run_refl: "watcher_run w [] w"
| run_step: "\<lbrakk>watcher_run w calls w'; watcher_step w' call w''\<rbrakk> \<Longrightarrow>
    watcher_run w (calls @ (case call of None \<Rightarrow> [] | Some c \<Rightarrow> [c])) w''"

inductive_cases watcher_stepE: "watcher_step w call w'"

subsection \<open>Fetching\<close>

definition fetched_state :: "HealthPolicy \<Rightarrow> string \<Rightarrow> ServiceEntry list \<Rightarrow> 64 word \<Rightarrow> ServiceState" where
  "fetched_state policy name entries lastIndex =
     \<lparr>ss_Name = name, ss_Tags = merged_tags entries, ss_Meta = merged_meta entries,
      ss_Instances = map (entry_instance policy) entries, ss_LastIndex = lastIndex\<rparr>"

text \<open>Every cached service is filed under its own name, once.\<close>

definition services_ok :: "ConsulWatcher \<Rightarrow> bool" where
  "services_ok w \<longleftrightarrow> gomap_ok (w_services w) \<and> list_all (\<lambda>(k, v). ss_Name v = k) (w_services w)"

lemma services_ok_name: "services_ok w \<Longrightarrow> map_of (w_services w) n = Some s \<Longrightarrow> ss_Name s = n"
  by (auto simp: services_ok_def list_all_iff dest: map_of_SomeD)

lemma list_all_update:
  "list_all P m \<Longrightarrow> P (k, v) \<Longrightarrow> list_all P (AList.update k v m)"
  by (induction m) auto

lemma queueChanges_fields [simp]:
  "w_services (queueChanges w cs) = w_services w" "w_healthPolicy (queueChanges w cs) = w_healthPolicy w"
  "w_routableServices (queueChanges w cs) = w_routableServices w"
  "w_lastPassingChecks (queueChanges w cs) = w_lastPassingChecks w"
  "w_pendingChanges (queueChanges w cs) = w_pendingChanges w @ cs" "w_stopped (queueChanges w cs) = w_stopped w"
  "w_timerArmed (queueChanges w cs)"
  by (simp_all add: queueChanges_def)

lemma fetch_one:
  assumes "services_ok w"
  shows "services_ok (fetchServiceHealth fetch w name)"
    and "map_of (w_services (fetchServiceHealth fetch w name)) n =
      (case fetch name (w_healthPolicy w = HealthPolicyPassing) of
         Inr (entries, i) \<Rightarrow> if n = name then Some (fetched_state (w_healthPolicy w) name entries i) else map_of (w_services w) n
       | Inl _ \<Rightarrow> map_of (w_services w) n)"
    and "w_healthPolicy (fetchServiceHealth fetch w name) = w_healthPolicy w"
    and "w_routableServices (fetchServiceHealth fetch w name) = w_routableServices w"
proof -
  have name: "(case map_of (w_services w) name of None \<Rightarrow> name | Some s \<Rightarrow> ss_Name s) = name"
    using services_ok_name [OF assms] by (auto split: option.split)
  show "services_ok (fetchServiceHealth fetch w name)"
    using assms by (auto simp: fetchServiceHealth_def fetch_locked_def services_ok_def name Let_def list_all_update split: sum.split)
  show "map_of (w_services (fetchServiceHealth fetch w name)) n =
      (case fetch name (w_healthPolicy w = HealthPolicyPassing) of
         Inr (entries, i) \<Rightarrow> if n = name then Some (fetched_state (w_healthPolicy w) name entries i) else map_of (w_services w) n
       | Inl _ \<Rightarrow> map_of (w_services w) n)"
    by (simp add: fetchServiceHealth_def fetch_locked_def fetched_state_def name Let_def update_conv' split: sum.split)
  show "w_healthPolicy (fetchServiceHealth fetch w name) = w_healthPolicy w"
    "w_routableServices (fetchServiceHealth fetch w name) = w_routableServices w"
    by (simp_all add: fetchServiceHealth_def fetch_locked_def Let_def split: sum.split)
qed

lemma fetch_services_correct:
  "services_ok w \<Longrightarrow>
   services_ok (fetch_services fetch w names) \<and>
   w_healthPolicy (fetch_services fetch w names) = w_healthPolicy w \<and>
   w_routableServices (fetch_services fetch w names) = w_routableServices w \<and>
   map_of (w_services (fetch_services fetch w names)) n =
     (if n \<in> set names
      then (case fetch n (w_healthPolicy w = HealthPolicyPassing) of
              Inr (entries, i) \<Rightarrow> Some (fetched_state (w_healthPolicy w) n entries i)
            | Inl _ \<Rightarrow> map_of (w_services w) n)
      else map_of (w_services w) n)"
proof (induction names arbitrary: w)
  case (Cons name names)
  note one = fetch_one [OF Cons.prems, of fetch name]
  from Cons.IH [OF one(1)] one(2-4) show ?case
    by (auto simp: fetch_services_def split: sum.splits)
qed (simp add: fetch_services_def)

subsection \<open>Reconciling the catalog\<close>

definition routable :: "ConsulWatcher \<Rightarrow> (string, string list) gomap \<Rightarrow> string \<Rightarrow> bool" where
  "routable w catalog name \<longleftrightarrow>
     (\<exists>tags. map_of catalog name = Some tags \<and> \<not> shouldSkipService name \<and>
        hasCaddyRoutingTag tags (w_serviceTag w) (w_connectTag w))"

lemma current_routable_correct:
  assumes "gomap_ok catalog"
  shows "gomap_ok (current_routable (w_serviceTag w) (w_connectTag w) catalog)"
    and "name \<in> keys (current_routable (w_serviceTag w) (w_connectTag w) catalog) \<longleftrightarrow> routable w catalog name"
    and "get_or False (current_routable (w_serviceTag w) (w_connectTag w) catalog) name \<longleftrightarrow> routable w catalog name"
proof -
  let ?r = "current_routable (w_serviceTag w) (w_connectTag w) catalog"
  have fst_r: "map fst ?r = map fst (filter (\<lambda>(name, tags). \<not> shouldSkipService name \<and>
      hasCaddyRoutingTag tags (w_serviceTag w) (w_connectTag w)) catalog)"
    by (simp add: current_routable_def case_prod_unfold comp_def)
  show ok: "gomap_ok ?r" unfolding fst_r using assms by (simp add: distinct_map_filter)
  show keys: "name \<in> keys ?r \<longleftrightarrow> routable w catalog name"
    unfolding fst_r routable_def using assms by (force simp: image_iff)
  show "get_or False ?r name \<longleftrightarrow> routable w catalog name"
  proof (cases "map_of ?r name")
    case None
    then have "name \<notin> keys ?r" by (simp add: map_of_eq_None_iff)
    with None keys show ?thesis by (simp add: get_or_def)
  next
    case (Some v)
    then have "(name, v) \<in> set ?r" by (rule map_of_SomeD)
    then have "v" "name \<in> keys ?r" by (auto simp: current_routable_def intro: rev_image_eqI)
    with Some keys show ?thesis by (simp add: get_or_def)
  qed
qed

lemma reconcile_locked_correct:
  assumes "gomap_ok catalog" "services_ok w" "reconcile_locked w catalog = (w', new, removed)"
  shows "services_ok w'" "w_healthPolicy w' = w_healthPolicy w"
    "map_of (w_services w') n = (if routable w catalog n then map_of (w_services w) n else None)"
    "set new = {n. routable w catalog n \<and> map_of (w_services w) n = None}"
    "set removed = {\<lparr>sc_Type = ChangeRemoved, sc_Service = s\<rparr> | n s. map_of (w_services w) n = Some s \<and> \<not> routable w catalog n}"
    "keys (w_routableServices w') = {n. routable w catalog n}"
    "w_pendingChanges w' = w_pendingChanges w"
proof -
  note cr = current_routable_correct [where w = w, OF assms(1)]
  from assms(3) have eqs: "w_services w' = filter (\<lambda>(n, s). routable w catalog n) (w_services w)"
    "new = filter (\<lambda>n. map_of (w_services w) n = None) (map fst (current_routable (w_serviceTag w) (w_connectTag w) catalog))"
    "removed = map (\<lambda>(name, svc). \<lparr>sc_Type = ChangeRemoved, sc_Service = svc\<rparr>) (filter (\<lambda>(n, s). \<not> routable w catalog n) (w_services w))"
    "w_routableServices w' = current_routable (w_serviceTag w) (w_connectTag w) catalog"
    and rest: "w_healthPolicy w' = w_healthPolicy w" "w_pendingChanges w' = w_pendingChanges w"
    by (auto simp: reconcile_locked_def Let_def cr(3))
  from assms(2) have ok: "gomap_ok (w_services w)" by (simp add: services_ok_def)
  show "services_ok w'" using assms(2) by (auto simp: services_ok_def eqs(1) distinct_map_filter list_all_iff)
  show "w_healthPolicy w' = w_healthPolicy w" "w_pendingChanges w' = w_pendingChanges w" by (fact rest)+
  show "map_of (w_services w') n = (if routable w catalog n then map_of (w_services w) n else None)"
    unfolding eqs(1) by (rule map_of_filter_keys)
  show "set new = {n. routable w catalog n \<and> map_of (w_services w) n = None}"
    unfolding eqs(2) using cr(2) by auto
  show "set removed = {\<lparr>sc_Type = ChangeRemoved, sc_Service = s\<rparr> | n s. map_of (w_services w) n = Some s \<and> \<not> routable w catalog n}"
    unfolding eqs(3) using ok by (force simp: image_iff)
  show "keys (w_routableServices w') = {n. routable w catalog n}"
    unfolding eqs(4) using cr(2) by blast
qed

subsection \<open>Health flags\<close>

definition ids_ok :: "(string, bool) gomap \<Rightarrow> bool" where
  "ids_ok m \<longleftrightarrow> gomap_ok m \<and> list_all snd m"

definition passing_ok :: "passing \<Rightarrow> bool" where
  "passing_ok p \<longleftrightarrow> gomap_ok p \<and> (\<forall>n ids. map_of p n = Some ids \<longrightarrow> ids_ok ids)"

lemma ids_ok_get: "ids_ok m \<Longrightarrow> get_or False m i \<longleftrightarrow> i \<in> keys m"
  by (force simp: ids_ok_def get_or_def list_all_iff map_of_eq_None_iff split: option.split dest: map_of_SomeD)

lemma passing_ok_get: "passing_ok p \<Longrightarrow> ids_ok (get_or [] p n)"
  by (auto simp: passing_ok_def get_or_def ids_ok_def split: option.split)

lemma current_passing_correct:
  "passing_ok (current_passing checks) \<and>
   (get_or False (get_or [] (current_passing checks) n) i \<longleftrightarrow>
     n \<noteq> [] \<and> \<lparr>hc_ServiceName = n, hc_ServiceID = i\<rparr> \<in> set checks)"
proof (induction checks arbitrary: n i rule: rev_induct)
  case Nil
  then show ?case by (simp add: current_passing_def passing_ok_def get_or_def)
next
  case (snoc c checks)
  let ?p = "current_passing checks"
  have p: "current_passing (checks @ [c]) = passing_add ?p c" by (simp add: current_passing_def)
  have c: "c = \<lparr>hc_ServiceName = n, hc_ServiceID = i\<rparr> \<longleftrightarrow> hc_ServiceName c = n \<and> hc_ServiceID c = i" for n i
    by (metis HealthCheck.cases_scheme HealthCheck.ext_inject HealthCheck.select_convs(1,2) old.unit.exhaust)
  have "ids_ok (AList.update (hc_ServiceID c) True (get_or [] ?p (hc_ServiceName c)))"
    using passing_ok_get [of ?p] snoc by (simp add: ids_ok_def list_all_update)
  then have "passing_ok (passing_add ?p c)"
    using snoc by (auto simp: passing_ok_def passing_add_def update_conv' simp del: map_of_eq_Some_iff split: if_splits)
  moreover have "get_or False (get_or [] (passing_add ?p c) n) i \<longleftrightarrow>
      get_or False (get_or [] ?p n) i \<or> n \<noteq> [] \<and> hc_ServiceName c = n \<and> hc_ServiceID c = i"
    by (auto simp: passing_add_def get_or_def update_conv' split: option.split)
  ultimately show ?case using snoc [of n i] by (auto simp: p c)
qed

lemma sameIDSet_correct:
  assumes "ids_ok a" "ids_ok b"
  shows "sameIDSet a b \<longleftrightarrow> keys a = keys b"
proof -
  have len: "length m = card (keys m)" if "ids_ok m" for m
    using that distinct_card [of "map fst m"] by (simp add: ids_ok_def)
  have "list_all (\<lambda>(i, _). get_or False b i) a \<longleftrightarrow> keys a \<subseteq> keys b"
    by (auto simp: list_all_iff ids_ok_get [OF assms(2)] image_subset_iff case_prod_unfold)
  then show ?thesis
    unfolding sameIDSet_def len [OF assms(1)] len [OF assms(2)]
    by (metis List.finite_set card_subset_eq order_refl)
qed

lemma set_health_same: "\<not> health_differs ids svc \<Longrightarrow> set_health ids svc = svc"
proof -
  assume "\<not> health_differs ids svc"
  then have "map (\<lambda>inst. inst\<lparr>si_Healthy := get_or False ids (si_ID inst)\<rparr>) (ss_Instances svc) = ss_Instances svc"
    by (intro map_idI) (auto simp: health_differs_def list_ex_iff)
  then show ?thesis by (simp add: set_health_def)
qed

lemma health_loop_correct:
  "distinct names \<Longrightarrow> health_loop cur names services = (ss, cs, rs) \<Longrightarrow>
   map_of ss n = map_option (\<lambda>svc. if n \<in> set names \<and> \<not> needs_refetch (get_or [] cur n) svc
                                    then set_health (get_or [] cur n) svc else svc) (map_of services n) \<and>
   rs = filter (\<lambda>n. \<exists>svc. map_of services n = Some svc \<and> needs_refetch (get_or [] cur n) svc) names \<and>
   set cs = {\<lparr>sc_Type = ChangeUpdated, sc_Service = set_health (get_or [] cur n) svc\<rparr> | n svc.
      n \<in> set names \<and> map_of services n = Some svc \<and> \<not> needs_refetch (get_or [] cur n) svc \<and> health_differs (get_or [] cur n) svc}"
proof (induction names arbitrary: services ss cs rs n)
  case Nil
  then show ?case by (simp add: option.map_ident)
next
  case (Cons name names)
  from Cons.prems(1) have d: "name \<notin> set names" "distinct names" by simp_all
  let ?ids = "get_or [] cur name"
  show ?case
  proof (cases "map_of services name")
    case None
    with Cons.prems(2) have l: "health_loop cur names services = (ss, cs, rs)" by simp
    from None have "filter P (name # names) = filter P names" if "\<not> P name" for P :: "string \<Rightarrow> bool" using that by simp
    with Cons.IH [OF d(2) l, of n] None show ?thesis by (cases "n = name") auto
  next
    case (Some svc)
    consider (refetch) "needs_refetch ?ids svc"
      | (flags) "\<not> needs_refetch ?ids svc" "health_differs ?ids svc"
      | (same) "\<not> needs_refetch ?ids svc" "\<not> health_differs ?ids svc" by blast
    then show ?thesis
    proof cases
      case refetch
      obtain ss1 cs1 rs1 where l: "health_loop cur names services = (ss1, cs1, rs1)" by (metis prod.exhaust)
      with Cons.prems(2) Some refetch have "ss = ss1" "cs = cs1" "rs = name # rs1" by auto
      with Cons.IH [OF d(2) l, of n] Some refetch show ?thesis by (cases "n = name") auto
    next
      case flags
      obtain ss1 cs1 rs1 where l: "health_loop cur names (AList.update name (set_health ?ids svc) services) = (ss1, cs1, rs1)"
        by (metis prod.exhaust)
      with Cons.prems(2) Some flags have eqs: "ss = ss1" "cs = \<lparr>sc_Type = ChangeUpdated, sc_Service = set_health ?ids svc\<rparr> # cs1" "rs = rs1"
        by (auto simp: Let_def)
      have upd: "map_of (AList.update name (set_health ?ids svc) services) m = map_of services m" if "m \<noteq> name" for m
        using that by (simp add: update_conv')
      have others: "m \<in> set names \<Longrightarrow> m \<noteq> name" for m using d(1) by auto
      have "rs1 = filter (\<lambda>n. \<exists>svc. map_of services n = Some svc \<and> needs_refetch (get_or [] cur n) svc) names"
        using Cons.IH [OF d(2) l, of n] others upd by (auto intro!: filter_cong)
      moreover have "set cs1 = {\<lparr>sc_Type = ChangeUpdated, sc_Service = set_health (get_or [] cur n) svc\<rparr> | n svc.
        n \<in> set names \<and> map_of services n = Some svc \<and> \<not> needs_refetch (get_or [] cur n) svc \<and> health_differs (get_or [] cur n) svc}"
        using Cons.IH [OF d(2) l, of n] others upd by fastforce
      moreover have "map_of ss1 n = (if n = name then Some (set_health ?ids svc) else
          map_option (\<lambda>svc. if n \<in> set names \<and> \<not> needs_refetch (get_or [] cur n) svc
             then set_health (get_or [] cur n) svc else svc) (map_of services n))"
        using Cons.IH [OF d(2) l, of n] d(1) upd [of n] by (auto simp: update_conv')
      ultimately show ?thesis using Some flags by (auto simp: eqs)
    next
      case same
      with Cons.prems(2) Some have l: "health_loop cur names services = (ss, cs, rs)" by (simp add: Let_def)
      from Cons.IH [OF d(2) l, of n] Some same set_health_same [OF same(2)] show ?thesis
        by (cases "n = name") auto
    qed
  qed
qed

lemma changed_services_distinct:
  "passing_ok (w_lastPassingChecks w) \<Longrightarrow> passing_ok cur \<Longrightarrow> distinct (changed_services w cur)"
  by (auto simp: changed_services_def passing_ok_def Let_def distinct_filter map_of_eq_None_iff)

lemma changed_services_iff:
  assumes "passing_ok (w_lastPassingChecks w)" "passing_ok cur"
  shows "n \<in> set (changed_services w cur) \<longleftrightarrow> get_or False (w_routableServices w) n \<and>
    keys (get_or [] (w_lastPassingChecks w) n) \<noteq> keys (get_or [] cur n)"
proof -
  have same: "sameIDSet (get_or [] (w_lastPassingChecks w) n) (get_or [] cur n) \<longleftrightarrow>
      keys (get_or [] (w_lastPassingChecks w) n) = keys (get_or [] cur n)"
    by (rule sameIDSet_correct [OF passing_ok_get [OF assms(1)] passing_ok_get [OF assms(2)]])
  have "map_of p n = None \<longleftrightarrow> n \<notin> fst ` set p" for p :: passing by (simp add: map_of_eq_None_iff)
  moreover have "keys (get_or [] p n) = {}" if "map_of p n = None" for p :: passing using that by (simp add: get_or_def)
  ultimately show ?thesis
    unfolding changed_services_def Let_def by (auto simp: same)
qed

definition in_sync :: "ConsulWatcher \<Rightarrow> string \<Rightarrow> bool" where
  "in_sync w n \<longleftrightarrow>
     (\<forall>svc. map_of (w_services w) n = Some svc \<longrightarrow>
        (\<forall>inst \<in> set (ss_Instances svc). si_Healthy inst \<longleftrightarrow> get_or False (get_or [] (w_lastPassingChecks w) n) (si_ID inst)))"

lemma set_health_instances:
  "inst \<in> set (ss_Instances (set_health ids svc)) \<Longrightarrow> si_Healthy inst \<longleftrightarrow> get_or False ids (si_ID inst)"
  by (auto simp: set_health_def)

lemma health_locked_sync:
  assumes ok: "passing_ok (w_lastPassingChecks w)" and r: "get_or False (w_routableServices w) n" and sync: "in_sync w n"
    and h: "health_locked w checks = (w', changes, refetch)" and n: "n \<notin> set refetch"
  shows "in_sync w' n"
proof -
  let ?cur = "current_passing checks"
  have cur: "passing_ok ?cur" using current_passing_correct by blast
  obtain ss cs rs where l: "health_loop ?cur (changed_services w ?cur) (w_services w) = (ss, cs, rs)" by (metis prod.exhaust)
  with h have w': "w_services w' = ss" "w_lastPassingChecks w' = ?cur" and rs: "refetch = rs"
    by (auto simp: health_locked_def Let_def)
  note loop = health_loop_correct [OF changed_services_distinct [OF ok cur] l, of n]
  note chg = changed_services_iff [OF ok cur, of n]
  show ?thesis
  proof (cases "n \<in> set (changed_services w ?cur)")
    case True
    have flags: "map_of ss n = map_option (set_health (get_or [] ?cur n)) (map_of (w_services w) n)"
      using loop n True by (cases "map_of (w_services w) n") (auto simp: rs)
    show ?thesis unfolding in_sync_def w' using flags set_health_instances by (auto simp del: map_of_eq_Some_iff)
  next
    case False
    with chg r have keys: "keys (get_or [] (w_lastPassingChecks w) n) = keys (get_or [] ?cur n)" by blast
    have "get_or False (get_or [] (w_lastPassingChecks w) n) i = get_or False (get_or [] ?cur n) i" for i
      unfolding ids_ok_get [OF passing_ok_get [OF ok]] ids_ok_get [OF passing_ok_get [OF cur]] keys ..
    moreover have "map_of ss n = map_of (w_services w) n"
      using loop False by (cases "map_of (w_services w) n") auto
    ultimately show ?thesis using sync unfolding in_sync_def w' by (simp del: map_of_eq_Some_iff)
  qed
qed

lemma health_locked_passing: "health_locked w checks = (w', changes, refetch) \<Longrightarrow> w_lastPassingChecks w' = current_passing checks"
  by (auto simp: health_locked_def Let_def split: prod.splits)

subsection \<open>The debounce buffer\<close>

text \<open>Changes wait only while something is going to flush them.\<close>

definition debounce_ok :: "ConsulWatcher \<Rightarrow> bool" where
  "debounce_ok w \<longleftrightarrow> (w_pendingChanges w \<noteq> [] \<longrightarrow> w_timerArmed w \<or> w_timerFired w > 0 \<or> w_stopped w)"

definition debounce_part :: "ConsulWatcher \<Rightarrow> ServiceChange list \<times> bool \<times> nat \<times> bool" where
  "debounce_part w = (w_pendingChanges w, w_timerArmed w, w_timerFired w, w_stopped w)"

lemma debounce_part_locked:
  "reconcile_locked w services = (w', new, removed) \<Longrightarrow> debounce_part w' = debounce_part w"
  "health_locked w checks = (w', changes, refetch) \<Longrightarrow> debounce_part w' = debounce_part w"
  by (auto simp: reconcile_locked_def health_locked_def debounce_part_def Let_def split: prod.splits)

lemma debounce_part_index [simp]:
  "debounce_part (w\<lparr>w_catalogIndex := i\<rparr>) = debounce_part w" "debounce_part (w\<lparr>w_healthStateIndex := i\<rparr>) = debounce_part w"
  by (simp_all add: debounce_part_def)

lemma watcher_step_buffer:
  assumes "watcher_step w call w'"
  shows "(call = None \<and> (\<exists>cs. w_pendingChanges w' = w_pendingChanges w @ cs) \<or>
      w_pendingChanges w \<noteq> [] \<and> w_pendingChanges w' = [] \<and> call = Some (w_pendingChanges w, snapshot w')) \<and>
    (debounce_ok w \<longrightarrow> debounce_ok w')"
  using assms
proof (cases rule: watcher_step.cases)
  case (ws_catalog i services w1 new removed)
  from debounce_part_locked(1) [OF ws_catalog(3)] ws_catalog(1,2) show ?thesis
    by (auto simp: debounce_part_def debounce_ok_def)
next
  case (ws_health i checks w1 changes refetch)
  from debounce_part_locked(2) [OF ws_health(3)] ws_health(1,2) show ?thesis
    by (auto simp: debounce_part_def debounce_ok_def)
next
  case (ws_fetch fetch name)
  then show ?thesis by (auto simp: fetchServiceHealth_def fetch_locked_def debounce_ok_def Let_def split: sum.splits)
next
  case ws_fire
  then show ?thesis by (auto simp: timer_fires_def debounce_ok_def)
next
  case ws_flush
  then show ?thesis by (auto simp: flushChanges_def debounce_ok_def Let_def snapshot_def split: if_splits)
next
  case ws_stop
  then show ?thesis by (auto simp: Watcher_Stop_def debounce_ok_def)
qed

lemma watcher_run_buffer:
  assumes "watcher_run w calls w'"
  shows "prefix (w_pendingChanges w) (concat (map fst calls) @ w_pendingChanges w') \<and>
    list_all (\<lambda>c. fst c \<noteq> []) calls \<and> (debounce_ok w \<longrightarrow> debounce_ok w')"
  using assms
proof (induction rule: watcher_run.induct)
  case (run_step w calls w' call w'')
  note buf = watcher_step_buffer [OF run_step.hyps(2)]
  from buf consider (queue) cs where "call = None" "w_pendingChanges w'' = w_pendingChanges w' @ cs"
    | (flush) "w_pendingChanges w' \<noteq> []" "w_pendingChanges w'' = []" "call = Some (w_pendingChanges w', snapshot w'')" by blast
  then show ?case
  proof cases
    case queue
    have "prefix (w_pendingChanges w) ((concat (map fst calls) @ w_pendingChanges w') @ cs)"
      by (rule prefix_prefix, use run_step.IH in blast)
    with queue run_step.IH buf show ?thesis by simp
  next
    case flush
    with run_step.IH buf show ?thesis by simp
  qed
qed simp

subsection \<open>Properties\<close>


definition no_services :: fetch where
  "no_services name passingOnly = Inr ([], 1)"

lemma sample_run:
  fixes w defines "w \<equiv> NewConsulWatcher HealthPolicyPassing ''svc'' ''con''"
  shows "watcher_run w [] (fetchServiceHealth no_services w ''web'')"
  using watcher_run.run_step [OF watcher_run.run_refl watcher_step.ws_fetch, of w no_services "''web''"] by simp


text \<open>C18: an uninterrupted \<open>reconcileServices\<close> makes the cache follow the catalog: afterwards it holds exactly the
  services of the catalog that are not skipped and carry a routing tag, except new ones whose fetch failed; services
  that were cached keep their state, new ones have the state built from Consul's answer; and a removal is queued, once
  the reconcile is through, for exactly the cached services that are gone or not routable any more.\<close>

theorem reconcileServices_correct:
  assumes "gomap_ok catalog" "services_ok w" and "length catalog \<le> rounds"
    and "reconcile_locked w catalog = (w1, new, removed)"
  shows "services_ok (reconcileServices fetch rounds w catalog) \<and>
    map_of (w_services (reconcileServices fetch rounds w catalog)) n =
      (if \<not> routable w catalog n then None
       else case map_of (w_services w) n of
              Some svc \<Rightarrow> Some svc
            | None \<Rightarrow> (case fetch n (w_healthPolicy w = HealthPolicyPassing) of
                         Inr (entries, i) \<Rightarrow> Some (fetched_state (w_healthPolicy w) n entries i)
                       | Inl _ \<Rightarrow> None)) \<and>
    set removed = {\<lparr>sc_Type = ChangeRemoved, sc_Service = s\<rparr> | n s. map_of (w_services w) n = Some s \<and> \<not> routable w catalog n}"
proof -
  let ?w2 = "if removed \<noteq> [] then queueChanges w1 removed else w1"
  note rl = reconcile_locked_correct [OF assms(1,2,4)]
  have "services_ok ?w2" using rl(1) by (simp add: services_ok_def)
  note f = fetch_services_correct [OF this, of fetch new n]
  have "length new \<le> length catalog"
    using assms(4) by (auto simp: reconcile_locked_def current_routable_def Let_def intro: le_trans [OF length_filter_le])
  then have "reconcileServices fetch rounds w catalog = fetch_services fetch ?w2 new"
    using assms(3,4) by (simp add: reconcileServices_def Let_def)
  moreover have "w_services ?w2 = w_services w1" "w_healthPolicy ?w2 = w_healthPolicy w" using rl(2) by simp_all
  ultimately show ?thesis
    using f rl(3) [of n] rl(4,5) by (auto split: option.splits sum.splits)
qed

theorem reconcileServices_correct_witness:
  "map_of (w_services (reconcileServices no_services 2 (NewConsulWatcher HealthPolicyPassing ''svc'' ''con'')
     [(''consul'', [''svc'']), (''web'', [''svc''])])) ''web'' = Some (fetched_state HealthPolicyPassing ''web'' [] 1) \<and>
   map_of (w_services (reconcileServices no_services 2 (NewConsulWatcher HealthPolicyPassing ''svc'' ''con'')
     [(''consul'', [''svc'']), (''web'', [''svc''])])) ''consul'' = None"
proof -
  let ?w = "NewConsulWatcher HealthPolicyPassing ''svc'' ''con''" and ?c = "[(''consul'', [''svc'']), (''web'', [''svc''])]"
  obtain w1 new removed where r: "reconcile_locked ?w ?c = (w1, new, removed)" by (metis prod.exhaust)
  have ok: "services_ok ?w" by (simp add: services_ok_def NewConsulWatcher_def)
  have "routable ?w ?c ''web''" "\<not> routable ?w ?c ''consul''"
    by (simp_all add: routable_def shouldSkipService_def NewConsulWatcher_def HasSuffix_def HasPrefix_def)
  with reconcileServices_correct [OF _ ok _ r, of 2 no_services "''web''"]
    reconcileServices_correct [OF _ ok _ r, of 2 no_services "''consul''"]
  show ?thesis by (simp add: NewConsulWatcher_def no_services_def)
qed


definition sample_instance :: "string \<Rightarrow> bool \<Rightarrow> ServiceInstance" where
  "sample_instance i h = \<lparr>si_ID = i, si_Address = ''10.0.0.1'', si_Port = 80, si_Tags = [], si_Meta = [],
     si_Healthy = h, si_Weight = 1, si_NodeName = ''n1''\<rparr>"

definition sample_watcher :: "HealthPolicy \<Rightarrow> (string, bool) gomap \<Rightarrow> ServiceInstance list \<Rightarrow> ConsulWatcher" where
  "sample_watcher policy ids insts =
     (NewConsulWatcher policy ''svc'' ''con'')\<lparr>w_routableServices := [(''web'', True)],
        w_lastPassingChecks := [(''web'', ids)],
        w_services := [(''web'', \<lparr>ss_Name = ''web'', ss_Tags = [], ss_Meta = [], ss_Instances = insts, ss_LastIndex = 1\<rparr>)]\<rparr>"

lemmas [go_eval] = sample_instance_def sample_watcher_def


text \<open>the health-state watcher does not follow the configured health policy. With policy \<open>passing\<close>, an instance with one
  passing and one failing check keeps the flag healthy, although \<open>isHealthy\<close> says it is not; with policy \<open>warning\<close>, an
  instance whose check turns to warning is flagged unhealthy, although \<open>isHealthy\<close> says it is healthy.\<close>

theorem health_state_ignores_policy:
  "(\<exists>entry w'. en_ID entry = ''a'' \<and> en_Checks entry = [''passing'', ''critical''] \<and> \<not> isHealthy HealthPolicyPassing entry \<and>
      health_locked (sample_watcher HealthPolicyPassing [(''a'', True)] [sample_instance ''a'' True])
        [\<lparr>hc_ServiceName = ''web'', hc_ServiceID = ''a''\<rparr>] = (w', [], []) \<and>
      map_option (map si_Healthy \<circ> ss_Instances) (map_of (w_services w') ''web'') = Some [True]) \<and>
   (\<exists>entry w' changes. en_ID entry = ''a'' \<and> en_Checks entry = [''warning''] \<and> isHealthy HealthPolicyWarning entry \<and>
      health_locked (sample_watcher HealthPolicyWarning [(''a'', True)] [sample_instance ''a'' True]) [] = (w', changes, []) \<and>
      map_option (map si_Healthy \<circ> ss_Instances) (map_of (w_services w') ''web'') = Some [False])"
proof
  let ?e = "\<lambda>cs. \<lparr>en_ID = ''a'', en_Address = [], en_Port = 80, en_Tags = [], en_Meta = [], en_WeightPassing = 1,
    en_Node = ''n1'', en_NodeAddress = ''10.0.0.1'', en_Checks = cs\<rparr>"
  let ?i = "\<lambda>h. \<lparr>ss_Name = ''web'', ss_Tags = [], ss_Meta = [], ss_Instances = [sample_instance ''a'' h], ss_LastIndex = 1\<rparr>"
  let ?w = "\<lambda>p. sample_watcher p [(''a'', True)] [sample_instance ''a'' True]"
  show "\<exists>entry w'. en_ID entry = ''a'' \<and> en_Checks entry = [''passing'', ''critical''] \<and> \<not> isHealthy HealthPolicyPassing entry \<and>
      health_locked (?w HealthPolicyPassing) [\<lparr>hc_ServiceName = ''web'', hc_ServiceID = ''a''\<rparr>] = (w', [], []) \<and>
      map_option (map si_Healthy \<circ> ss_Instances) (map_of (w_services w') ''web'') = Some [True]"
    by (intro exI [of _ "?e [''passing'', ''critical'']"] exI [of _ "?w HealthPolicyPassing"]) (simp add: go_eval get_or_def Let_def)
  show "\<exists>entry w' changes. en_ID entry = ''a'' \<and> en_Checks entry = [''warning''] \<and> isHealthy HealthPolicyWarning entry \<and>
      health_locked (?w HealthPolicyWarning) [] = (w', changes, []) \<and>
      map_option (map si_Healthy \<circ> ss_Instances) (map_of (w_services w') ''web'') = Some [False]"
    by (intro exI [of _ "?e [''warning'']"] exI [of _ "(?w HealthPolicyWarning)\<lparr>w_lastPassingChecks := [], w_services := [(''web'', ?i False)]\<rparr>"]
        exI [of _ "[\<lparr>sc_Type = ChangeUpdated, sc_Service = ?i False\<rparr>]"]) (simp add: go_eval get_or_def Let_def)
qed

text \<open>\<open>onChange\<close> can still be called after \<open>Stop\<close>: a fetch that was under way queues its change and arms a new
  timer, which nothing stops.\<close>

theorem watcher_calls_after_stop:
  "\<exists>w calls w'. w_stopped w \<and> \<not> w_timerArmed w \<and> w_timerFired w = 0 \<and> watcher_run w calls w' \<and> calls \<noteq> []"
proof -
  let ?w = "Watcher_Stop (NewConsulWatcher HealthPolicyPassing ''svc'' ''con'')"
  let ?w1 = "fetchServiceHealth no_services ?w ''web''"
  let ?w2 = "timer_fires ?w1"
  obtain w3 call where f: "flushChanges (?w2\<lparr>w_timerFired := w_timerFired ?w2 - 1\<rparr>) = (w3, Some call)"
    by (simp add: go_eval no_services_def Let_def)
  have "watcher_run ?w [] ?w1"
    using watcher_run.run_step [OF watcher_run.run_refl watcher_step.ws_fetch] by fastforce
  moreover have "watcher_step ?w1 None ?w2"
    by (rule watcher_step.ws_fire) (simp add: fetchServiceHealth_def fetch_locked_def no_services_def Let_def)
  moreover have "watcher_step ?w2 (Some call) w3"
    by (rule watcher_step.ws_flush [OF _ f]) (simp add: timer_fires_def)
  ultimately have "watcher_run ?w [call] w3"
    using watcher_run.run_step [OF watcher_run.run_step, of ?w "[]" ?w1 None ?w2 "Some call" w3] by simp
  then show ?thesis by (intro exI [of _ ?w] exI [of _ "[call]"] exI [of _ w3]) (simp add: go_eval)
qed

text \<open>A fetch that was under way while the catalog dropped its service puts the service back into the cache: the locked section of
  \<open>fetchServiceHealth\<close> does not look whether the service is still routable, and queues it as added. The service is then cached
  and published, but not among the routable ones, so neither a re-fetch nor the health-state watcher touches it again.\<close>

theorem fetch_revives_removed_service:
  assumes "gomap_ok catalog" "services_ok w" "\<not> routable w catalog name"
    and "reconcile_locked w catalog = (w1, new, removed)" "fetch_locked w1 name entries i = (w2, changes)"
  shows "map_of (w_services w1) name = None \<and> map_of (w_services w2) name = Some (fetched_state (w_healthPolicy w) name entries i) \<and>
    name \<notin> keys (w_routableServices w2) \<and>
    changes = [\<lparr>sc_Type = ChangeAdded, sc_Service = fetched_state (w_healthPolicy w) name entries i\<rparr>]"
proof -
  note r = reconcile_locked_correct [OF assms(1,2,4)]
  have gone: "map_of (w_services w1) name = None" using r(3) [of name] assms(3) by simp
  have "name \<notin> keys (w_routableServices w1)" using r(6) assms(3) by simp
  with gone assms(5) r(2) show ?thesis by (auto simp: fetch_locked_def fetched_state_def Let_def update_conv')
qed

theorem fetch_revives_removed_service_witness:
  "\<exists>w1 new removed w2 changes. reconcile_locked (sample_watcher HealthPolicyPassing [] []) [] = (w1, new, removed) \<and>
     fetch_locked w1 ''web'' [] 2 = (w2, changes) \<and> map_of (w_services w2) ''web'' \<noteq> None \<and> w_routableServices w2 = []"
proof -
  let ?w = "sample_watcher HealthPolicyPassing [] []"
  obtain w1 new removed where r: "reconcile_locked ?w [] = (w1, new, removed)" using prod_cases3 by blast
  obtain w2 changes where f: "fetch_locked w1 ''web'' [] 2 = (w2, changes)" by fastforce
  have "services_ok ?w" by (simp add: services_ok_def sample_watcher_def)
  moreover have "\<not> routable ?w [] ''web''" by (simp add: routable_def)
  ultimately have "map_of (w_services w2) ''web'' \<noteq> None" using fetch_revives_removed_service [OF _ _ _ r f] by simp
  moreover have "w_routableServices w2 = []"
    using r f by (auto simp: reconcile_locked_def current_routable_def fetch_locked_def Let_def)
  ultimately show ?thesis using r f by (intro exI conjI)
qed

end
