(* ===== verification/State_Manager.thy ===== *)
theory State_Manager
  imports Route_Types
begin

text \<open>
  \<open>state.go\<close>: the state that survives a configuration reload. The JSON document on disk is the value it
  denotes: what \<open>json.Marshal\<close> keeps of a route is \<open>json_route\<close>, which drops the field tagged \<open>json:"-"\<close>.
  The disk is a parameter of \<open>Load\<close> and a result of \<open>Save\<close>; how creating the directory and writing the file
  end is an argument. \<open>Load\<close> is called on a new manager, so no field of an earlier state shows through where the
  document leaves one out. Strings are taken to be valid UTF-8, which the encoder keeps. The SHA-256 hash of the encoded routes is the parameter \<open>hash\<close>, of which
  \<open>route_hash\<close> says what the code relies on.
\<close>

record persistedState =
  ps_CatalogIndex :: "64 word"
  ps_Services :: "(string, ServiceState) gomap"
  ps_HealthStateIndex :: "64 word"
  ps_PassingChecks :: "(string, string list) gomap"
  ps_HTTPRoutes :: "CompiledHTTPRoute list"
  ps_HTTPRouteHash :: string
  ps_TCPRoutes :: "CompiledTCPRoute list"
  ps_UpstreamAllocations :: "(string, int) gomap"

definition empty_state :: persistedState where
  "empty_state =
     \<lparr>ps_CatalogIndex = 0, ps_Services = [], ps_HealthStateIndex = 0, ps_PassingChecks = [], ps_HTTPRoutes = [],
      ps_HTTPRouteHash = [], ps_TCPRoutes = [], ps_UpstreamAllocations = []\<rparr>"

datatype disk = NoFile | ReadError | Garbage | Document persistedState

record stateManager =
  sm_state :: persistedState

definition newStateManager :: stateManager where
  "newStateManager = \<lparr>sm_state = empty_state\<rparr>"

definition json_route :: "CompiledHTTPRoute \<Rightarrow> CompiledHTTPRoute" where
  "json_route r = r\<lparr>ch_NoCacheMatcher := None\<rparr>"

definition json_state :: "persistedState \<Rightarrow> persistedState" where
  "json_state s = s\<lparr>ps_HTTPRoutes := map json_route (ps_HTTPRoutes s)\<rparr>"

definition Load :: "disk \<Rightarrow> stateManager \<Rightarrow> stateManager" where
  "Load d sm =
     (case d of
        NoFile \<Rightarrow> sm
      | ReadError \<Rightarrow> sm
      | Garbage \<Rightarrow> sm\<lparr>sm_state := empty_state\<rparr>
      | Document s \<Rightarrow> sm\<lparr>sm_state := s\<rparr>)"

text \<open>How \<open>os.MkdirAll\<close> and \<open>os.WriteFile\<close> end: \<open>WriteFile\<close> truncates the file it opens, so a write that fails later leaves a torn one.\<close>

datatype write_result = Written | MkdirFailed | OpenFailed | TornWrite

definition Save :: "write_result \<Rightarrow> stateManager \<Rightarrow> disk \<Rightarrow> disk" where
  "Save wr sm d =
     (case wr of
        Written \<Rightarrow> Document (json_state (sm_state sm))
      | MkdirFailed \<Rightarrow> d
      | OpenFailed \<Rightarrow> d
      | TornWrite \<Rightarrow> Garbage)"

definition HTTPRouteHash :: "stateManager \<Rightarrow> string" where
  "HTTPRouteHash sm = ps_HTTPRouteHash (sm_state sm)"

definition HTTPRoutes :: "stateManager \<Rightarrow> CompiledHTTPRoute list" where
  "HTTPRoutes sm = ps_HTTPRoutes (sm_state sm)"

definition TCPRoutes :: "stateManager \<Rightarrow> CompiledTCPRoute list" where
  "TCPRoutes sm = ps_TCPRoutes (sm_state sm)"

definition HealthStateIndex :: "stateManager \<Rightarrow> 64 word" where
  "HealthStateIndex sm = ps_HealthStateIndex (sm_state sm)"

definition PersistedPassingChecks :: "stateManager \<Rightarrow> (string, string list) gomap" where
  "PersistedPassingChecks sm = ps_PassingChecks (sm_state sm)"

definition UpstreamAllocations :: "stateManager \<Rightarrow> (string, int) gomap" where
  "UpstreamAllocations sm = ps_UpstreamAllocations (sm_state sm)"

definition CatalogIndex :: "stateManager \<Rightarrow> 64 word" where
  "CatalogIndex sm = ps_CatalogIndex (sm_state sm)"

definition ServiceStates :: "stateManager \<Rightarrow> (string, ServiceState) gomap" where
  "ServiceStates sm = ps_Services (sm_state sm)"

lemmas state_getters [go_eval, simp] = HTTPRouteHash_def HTTPRoutes_def TCPRoutes_def HealthStateIndex_def
  PersistedPassingChecks_def UpstreamAllocations_def CatalogIndex_def ServiceStates_def

definition SetHTTPRouteHash :: "string \<Rightarrow> stateManager \<Rightarrow> stateManager" where
  "SetHTTPRouteHash hash sm = sm\<lparr>sm_state := (sm_state sm)\<lparr>ps_HTTPRouteHash := hash\<rparr>\<rparr>"

definition SetHTTPRoutes :: "CompiledHTTPRoute list \<Rightarrow> stateManager \<Rightarrow> stateManager" where
  "SetHTTPRoutes routes sm = sm\<lparr>sm_state := (sm_state sm)\<lparr>ps_HTTPRoutes := routes\<rparr>\<rparr>"

definition SetTCPRoutes :: "CompiledTCPRoute list \<Rightarrow> stateManager \<Rightarrow> stateManager" where
  "SetTCPRoutes routes sm = sm\<lparr>sm_state := (sm_state sm)\<lparr>ps_TCPRoutes := routes\<rparr>\<rparr>"

definition SetHealthStateIndex :: "64 word \<Rightarrow> stateManager \<Rightarrow> stateManager" where
  "SetHealthStateIndex idx sm = sm\<lparr>sm_state := (sm_state sm)\<lparr>ps_HealthStateIndex := idx\<rparr>\<rparr>"

definition SetPassingChecks :: "(string, string list) gomap \<Rightarrow> stateManager \<Rightarrow> stateManager" where
  "SetPassingChecks checks sm = sm\<lparr>sm_state := (sm_state sm)\<lparr>ps_PassingChecks := checks\<rparr>\<rparr>"

definition SetUpstreamAllocations :: "(string, int) gomap \<Rightarrow> stateManager \<Rightarrow> stateManager" where
  "SetUpstreamAllocations allocs sm = sm\<lparr>sm_state := (sm_state sm)\<lparr>ps_UpstreamAllocations := allocs\<rparr>\<rparr>"

definition SetCatalogIndex :: "64 word \<Rightarrow> stateManager \<Rightarrow> stateManager" where
  "SetCatalogIndex idx sm = sm\<lparr>sm_state := (sm_state sm)\<lparr>ps_CatalogIndex := idx\<rparr>\<rparr>"

definition SetServiceStates :: "(string, ServiceState) gomap \<Rightarrow> stateManager \<Rightarrow> stateManager" where
  "SetServiceStates services sm = sm\<lparr>sm_state := (sm_state sm)\<lparr>ps_Services := services\<rparr>\<rparr>"

lemmas state_setters [go_eval] = SetHTTPRouteHash_def SetHTTPRoutes_def SetTCPRoutes_def SetHealthStateIndex_def
  SetPassingChecks_def SetUpstreamAllocations_def SetCatalogIndex_def SetServiceStates_def

lemmas [go_eval] = empty_state_def newStateManager_def json_route_def json_state_def Load_def Save_def

subsection \<open>The hash of the HTTP routes\<close>

text \<open>Two route lists have the same JSON text when they agree but for the dropped field and for the order of a
  tag map, whose keys \<open>encoding/json\<close> sorts.\<close>

definition same_json :: "CompiledHTTPRoute list \<Rightarrow> CompiledHTTPRoute list \<Rightarrow> bool" where
  "same_json = list_all2 (\<lambda>r s. (json_route r)\<lparr>ch_TagValues := []\<rparr> = (json_route s)\<lparr>ch_TagValues := []\<rparr> \<and>
     map_of (ch_TagValues r) = map_of (ch_TagValues s))"

text \<open>The code relies on the hash of two route lists to differ when their JSON text does: no collision among the lists \<open>S\<close> that
  occur. The hexadecimal text of a hash is not empty.\<close>

definition route_hash :: "(CompiledHTTPRoute list \<Rightarrow> string) \<Rightarrow> CompiledHTTPRoute list set \<Rightarrow> bool" where
  "route_hash hash S \<longleftrightarrow>
     (\<forall>a. hash a \<noteq> []) \<and> (\<forall>a b. same_json a b \<longrightarrow> hash a = hash b) \<and>
     (\<forall>a \<in> S. \<forall>b \<in> S. hash a = hash b \<longrightarrow> same_json a b)"

text \<open>\<open>hex.EncodeToString\<close>, and the hash of the code: the encoder of \<open>encoding/json\<close> and SHA-256 are parameters.\<close>

definition hextable :: string where
  "hextable = ''0123456789abcdef''"

definition EncodeToString :: "string \<Rightarrow> string" where
  "EncodeToString bytes = concat (map (\<lambda>b. [hextable ! (of_char b div 16), hextable ! (of_char b mod 16)]) bytes)"

definition hashRoutes ::
  "(CompiledHTTPRoute list \<Rightarrow> string option) \<Rightarrow> (string \<Rightarrow> string) \<Rightarrow> CompiledHTTPRoute list \<Rightarrow> string" where
  "hashRoutes marshal sum256 routes = (case marshal routes of None \<Rightarrow> [] | Some data \<Rightarrow> EncodeToString (sum256 data))"

lemmas [go_eval] = hextable_def EncodeToString_def hashRoutes_def

lemma hextable_inj: "i < 16 \<Longrightarrow> j < 16 \<Longrightarrow> hextable ! i = hextable ! j \<Longrightarrow> i = j"
proof -
  have "distinct hextable" "length hextable = 16" by (simp_all add: hextable_def)
  then show "i < 16 \<Longrightarrow> j < 16 \<Longrightarrow> hextable ! i = hextable ! j \<Longrightarrow> i = j" using nth_eq_iff_index_eq by metis
qed

lemma EncodeToString_inj: "EncodeToString a = EncodeToString b \<Longrightarrow> a = b"
proof (induction a arbitrary: b)
  case Nil
  then show ?case by (cases b) (simp_all add: EncodeToString_def)
next
  case (Cons x xs)
  then obtain y ys where b: "b = y # ys" by (cases b) (simp_all add: EncodeToString_def)
  have digits: "of_char c div 16 < (16 :: nat)" "of_char c mod 16 < (16 :: nat)" for c :: char
    using nat_of_char_less_256 [of c] by linarith+
  from Cons.prems b have eq: "hextable ! (of_char x div 16) = hextable ! (of_char y div 16)"
    "hextable ! (of_char x mod 16) = hextable ! (of_char y mod 16)" "EncodeToString xs = EncodeToString ys"
    by (simp_all add: EncodeToString_def)
  have "of_char x div 16 = (of_char y div 16 :: nat)" by (rule hextable_inj [OF digits(1) digits(1) eq(1)])
  moreover have "of_char x mod 16 = (of_char y mod 16 :: nat)" by (rule hextable_inj [OF digits(2) digits(2) eq(2)])
  ultimately have "of_char x = (of_char y :: nat)" by (metis div_mult_mod_eq)
  with b Cons.IH [OF eq(3)] show ?case by simp
qed

text \<open>The hash has what the rest of the development asks of it, when the encoder never fails on routes and its text is the JSON text,
  and when SHA-256 has no collision among the texts that occur.\<close>

lemma hashRoutes_route_hash:
  assumes total: "\<And>rs. marshal rs \<noteq> None" and json: "\<And>a b. marshal a = marshal b \<longleftrightarrow> same_json a b"
    and len: "\<And>data. length (sum256 data) = 32" and inj: "inj_on sum256 {data. \<exists>rs \<in> S. marshal rs = Some data}"
  shows "route_hash (hashRoutes marshal sum256) S"
proof -
  have some: "\<exists>data. marshal rs = Some data" for rs using total [of rs] by blast
  have "EncodeToString (sum256 data) \<noteq> []" for data
    using len [of data] by (cases "sum256 data") (simp_all add: EncodeToString_def)
  then have ne: "hashRoutes marshal sum256 rs \<noteq> []" for rs using some [of rs] by (auto simp: hashRoutes_def)
  have coll: "same_json a b" if "a \<in> S" "b \<in> S" "hashRoutes marshal sum256 a = hashRoutes marshal sum256 b" for a b
  proof -
    obtain x y where xy: "marshal a = Some x" "marshal b = Some y" using some by metis
    with that(3) have "sum256 x = sum256 y" by (simp add: hashRoutes_def EncodeToString_inj)
    moreover have "x \<in> {data. \<exists>rs \<in> S. marshal rs = Some data}" "y \<in> {data. \<exists>rs \<in> S. marshal rs = Some data}"
      using that(1,2) xy by blast+
    ultimately have "x = y" by (rule inj_onD [OF inj])
    with xy show ?thesis using json [of a b] by simp
  qed
  have same: "hashRoutes marshal sum256 a = hashRoutes marshal sum256 b" if "same_json a b" for a b
    using that json [of a b] by (simp add: hashRoutes_def)
  show ?thesis unfolding route_hash_def using ne coll same by blast
qed

lemma same_json_refl: "same_json a a"
  by (simp add: same_json_def list_all2_same)

lemma same_json_sym: "same_json a b \<Longrightarrow> same_json b a"
  by (simp add: same_json_def list_all2_conv_all_nth)

lemma same_json_json: "same_json (map json_route a) a"
  by (simp add: same_json_def list_all2_conv_all_nth json_route_def)

text \<open>Routes with the same JSON text have the same matching part, upstreams and redirect.\<close>

lemma same_json_fields:
  assumes "same_json a b" "i < length a"
  shows "length b = length a" "ch_Host (b ! i) = ch_Host (a ! i)" "ch_Path (b ! i) = ch_Path (a ! i)"
    "ch_Upstreams (b ! i) = ch_Upstreams (a ! i)" "ch_ServiceName (b ! i) = ch_ServiceName (a ! i)"
    "ch_RedirectCode (b ! i) = ch_RedirectCode (a ! i)" "ch_RedirectURL (b ! i) = ch_RedirectURL (a ! i)"
proof -
  from assms have len: "length a = length b" and eq: "(json_route (a ! i))\<lparr>ch_TagValues := []\<rparr> = (json_route (b ! i))\<lparr>ch_TagValues := []\<rparr>"
    by (simp_all add: same_json_def list_all2_conv_all_nth)
  show "length b = length a" using len by simp
  from arg_cong [OF eq, of ch_Host] arg_cong [OF eq, of ch_Path] arg_cong [OF eq, of ch_Upstreams]
    arg_cong [OF eq, of ch_ServiceName] arg_cong [OF eq, of ch_RedirectCode] arg_cong [OF eq, of ch_RedirectURL]
  show "ch_Host (b ! i) = ch_Host (a ! i)" "ch_Path (b ! i) = ch_Path (a ! i)"
    "ch_Upstreams (b ! i) = ch_Upstreams (a ! i)" "ch_ServiceName (b ! i) = ch_ServiceName (a ! i)"
    "ch_RedirectCode (b ! i) = ch_RedirectCode (a ! i)" "ch_RedirectURL (b ! i) = ch_RedirectURL (a ! i)"
    by (simp_all add: json_route_def)
qed

lemma Load_Save: "sm_state (Load (Save Written sm d) sm0) = json_state (sm_state sm)"
  by (simp add: Load_def Save_def)

end
