(* ===== verification/Config.thy ===== *)
theory Config
  imports Route_Types
begin

text \<open>
  \<open>config.go\<close>: the options of the Caddyfile block, defaults and environment variables, validation. A
  Caddyfile block is its lines, each a list of tokens: \<open>NextBlock\<close> steps to the next token, of the same line or the
  next, and \<open>NextArg\<close> to the next token of the same line, which is what Caddy documents of its dispenser.

  Outside the program, hence parameters: \<open>env\<close> (\<open>os.Getenv\<close>, empty when unset), \<open>hostname\<close> (\<open>os.Hostname\<close>, None on
  error), \<open>dataDir\<close> (the joined default directory) and \<open>parseDuration\<close> (\<open>time.ParseDuration\<close>, in nanoseconds, None on
  error).
\<close>

record RouterConfig =
  co_ConsulAddr :: string
  co_ConsulToken :: string
  co_ConsulScheme :: string
  co_ConsulDC :: string
  co_ConsulTLSCA :: string
  co_ConsulTLSCert :: string
  co_ConsulTLSKey :: string
  co_ConsulTLSSkipVerify :: bool
  co_ServiceProxyEnable :: "bool option"
  co_HealthPolicy :: string
  co_ConflictPolicy :: string
  co_ConnectProxyEnable :: "bool option"
  co_DebounceDuration :: string
  co_PollInterval :: string
  co_FullSyncInterval :: string
  co_TCPDrain :: string
  co_ConnectServiceName :: string
  co_ConnectAutoRegister :: "bool option"
  co_CaddyAdminAPI :: string
  co_ServiceTag :: string
  co_ConnectTag :: string
  co_ConnectPortStart :: int
  co_ConnectPortEnd :: int
  co_DataDir :: string
  co_Metrics :: string
  co_L4Mode :: string
  co_L4NodeHostname :: string
  co_NoCacheStatus :: string

definition zero_config :: RouterConfig where
  "zero_config =
     \<lparr>co_ConsulAddr = [], co_ConsulToken = [], co_ConsulScheme = [], co_ConsulDC = [], co_ConsulTLSCA = [],
      co_ConsulTLSCert = [], co_ConsulTLSKey = [], co_ConsulTLSSkipVerify = False, co_ServiceProxyEnable = None,
      co_HealthPolicy = [], co_ConflictPolicy = [], co_ConnectProxyEnable = None, co_DebounceDuration = [],
      co_PollInterval = [], co_FullSyncInterval = [], co_TCPDrain = [], co_ConnectServiceName = [],
      co_ConnectAutoRegister = None, co_CaddyAdminAPI = [], co_ServiceTag = [], co_ConnectTag = [],
      co_ConnectPortStart = 0, co_ConnectPortEnd = 0, co_DataDir = [], co_Metrics = [], co_L4Mode = [],
      co_L4NodeHostname = [], co_NoCacheStatus = []\<rparr>"

datatype config_error =
    ArgErr string
  | BadValue string string
  | Unrecognized string
  | InvalidHealthPolicy string
  | InvalidConflictPolicy string
  | InvalidDebounce string
  | InvalidTCPDrain string
  | InvalidScheme string
  | InvalidL4Mode string
  | TLSPairIncomplete
  | InvalidNoCacheStatus string
  | ServiceNameTooLong string
  | ServiceNameInvalid string

subsection \<open>Caddyfile\<close>

definition bool_option ::
  "string \<Rightarrow> string \<Rightarrow> (bool \<Rightarrow> RouterConfig \<Rightarrow> RouterConfig) \<Rightarrow> RouterConfig \<Rightarrow> config_error + RouterConfig" where
  "bool_option opt v f cr =
     (if v = ''true'' then Inr (f True cr) else if v = ''false'' then Inr (f False cr) else Inl (BadValue opt v))"

definition port_option ::
  "string \<Rightarrow> string \<Rightarrow> (int \<Rightarrow> RouterConfig \<Rightarrow> RouterConfig) \<Rightarrow> RouterConfig \<Rightarrow> config_error + RouterConfig" where
  "port_option opt v f cr =
     (case Atoi v of
        None \<Rightarrow> Inl (BadValue opt v)
      | Some val \<Rightarrow> if val < 1 then Inl (BadValue opt v) else Inr (f val cr))"

definition option_names :: "string list" where
  "option_names =
     [''address'', ''token'', ''scheme'', ''datacenter'', ''tls_ca'', ''tls_cert'', ''tls_key'', ''insecure_skip_verify'',
      ''service_proxy_enable'', ''health_policy'', ''conflict_policy'', ''connect_proxy_enable'', ''connect_service_name'',
      ''connect_auto_register'', ''poll_interval'', ''full_sync_interval'', ''debounce'', ''caddy_admin_api'',
      ''service_tag'', ''connect_tag'', ''connect_port_range_start'', ''connect_port_range_end'', ''data_dir'', ''metrics'',
      ''l4_mode'', ''l4_node_hostname'', ''no_cache_status'', ''tcp_drain'']"

text \<open>The body of the switch, for an option with its argument, in two parts.\<close>

definition set_late_option :: "string \<Rightarrow> string \<Rightarrow> RouterConfig \<Rightarrow> config_error + RouterConfig" where
  "set_late_option opt v cr =
     (if opt = ''connect_port_range_start'' then port_option opt v (\<lambda>n cr. cr\<lparr>co_ConnectPortStart := n\<rparr>) cr
      else if opt = ''connect_port_range_end'' then port_option opt v (\<lambda>n cr. cr\<lparr>co_ConnectPortEnd := n\<rparr>) cr
      else if opt = ''data_dir'' then Inr (cr\<lparr>co_DataDir := v\<rparr>)
      else if opt = ''metrics'' then Inr (cr\<lparr>co_Metrics := v\<rparr>)
      else if opt = ''l4_mode'' then
        if v \<noteq> ''global'' \<and> v \<noteq> ''node'' then Inl (BadValue opt v) else Inr (cr\<lparr>co_L4Mode := v\<rparr>)
      else if opt = ''l4_node_hostname'' then Inr (cr\<lparr>co_L4NodeHostname := v\<rparr>)
      else if opt = ''no_cache_status'' then Inr (cr\<lparr>co_NoCacheStatus := v\<rparr>)
      else if opt = ''tcp_drain'' then Inr (cr\<lparr>co_TCPDrain := v\<rparr>)
      else Inl (Unrecognized opt))"

definition set_option :: "string \<Rightarrow> string \<Rightarrow> RouterConfig \<Rightarrow> config_error + RouterConfig" where
  "set_option opt v cr =
     (if opt = ''address'' then Inr (cr\<lparr>co_ConsulAddr := v\<rparr>)
      else if opt = ''token'' then Inr (cr\<lparr>co_ConsulToken := v\<rparr>)
      else if opt = ''scheme'' then
        if v \<noteq> ''http'' \<and> v \<noteq> ''https'' then Inl (BadValue opt v) else Inr (cr\<lparr>co_ConsulScheme := v\<rparr>)
      else if opt = ''datacenter'' then Inr (cr\<lparr>co_ConsulDC := v\<rparr>)
      else if opt = ''tls_ca'' then Inr (cr\<lparr>co_ConsulTLSCA := v\<rparr>)
      else if opt = ''tls_cert'' then Inr (cr\<lparr>co_ConsulTLSCert := v\<rparr>)
      else if opt = ''tls_key'' then Inr (cr\<lparr>co_ConsulTLSKey := v\<rparr>)
      else if opt = ''insecure_skip_verify'' then bool_option opt v (\<lambda>b cr. cr\<lparr>co_ConsulTLSSkipVerify := b\<rparr>) cr
      else if opt = ''service_proxy_enable'' then bool_option opt v (\<lambda>b cr. cr\<lparr>co_ServiceProxyEnable := Some b\<rparr>) cr
      else if opt = ''health_policy'' then Inr (cr\<lparr>co_HealthPolicy := v\<rparr>)
      else if opt = ''conflict_policy'' then Inr (cr\<lparr>co_ConflictPolicy := v\<rparr>)
      else if opt = ''connect_proxy_enable'' then bool_option opt v (\<lambda>b cr. cr\<lparr>co_ConnectProxyEnable := Some b\<rparr>) cr
      else if opt = ''connect_service_name'' then Inr (cr\<lparr>co_ConnectServiceName := v\<rparr>)
      else if opt = ''connect_auto_register'' then bool_option opt v (\<lambda>b cr. cr\<lparr>co_ConnectAutoRegister := Some b\<rparr>) cr
      else if opt = ''poll_interval'' then Inr (cr\<lparr>co_PollInterval := v\<rparr>)
      else if opt = ''full_sync_interval'' then Inr (cr\<lparr>co_FullSyncInterval := v\<rparr>)
      else if opt = ''debounce'' then Inr (cr\<lparr>co_DebounceDuration := v\<rparr>)
      else if opt = ''caddy_admin_api'' then Inr (cr\<lparr>co_CaddyAdminAPI := v\<rparr>)
      else if opt = ''service_tag'' then Inr (cr\<lparr>co_ServiceTag := v\<rparr>)
      else if opt = ''connect_tag'' then Inr (cr\<lparr>co_ConnectTag := v\<rparr>)
      else set_late_option opt v cr)"

fun unmarshal_line :: "string list \<Rightarrow> RouterConfig \<Rightarrow> config_error + RouterConfig" where
  "unmarshal_line [] cr = Inr cr"
| "unmarshal_line [opt] cr = (if opt \<in> set option_names then Inl (ArgErr opt) else Inl (Unrecognized opt))"
| "unmarshal_line (opt # v # rest) cr =
     (case set_option opt v cr of Inl err \<Rightarrow> Inl err | Inr cr' \<Rightarrow> unmarshal_line rest cr')"

fun UnmarshalCaddyfile :: "string list list \<Rightarrow> RouterConfig \<Rightarrow> config_error + RouterConfig" where
  "UnmarshalCaddyfile [] cr = Inr cr"
| "UnmarshalCaddyfile (line # lines) cr =
     (case unmarshal_line line cr of Inl err \<Rightarrow> Inl err | Inr cr' \<Rightarrow> UnmarshalCaddyfile lines cr')"

text \<open>The app that the global option stands for; its JSON value is the configuration it encodes.\<close>

definition parseConsulGlobalOption :: "string list list \<Rightarrow> config_error + string \<times> RouterConfig" where
  "parseConsulGlobalOption lines =
     (case UnmarshalCaddyfile lines zero_config of Inl err \<Rightarrow> Inl err | Inr cr \<Rightarrow> Inr (''consul'', cr))"

subsection \<open>Defaults\<close>

definition name_char :: "char \<Rightarrow> bool" where
  "name_char c \<longleftrightarrow> (97 \<le> byte c \<and> byte c \<le> 122) \<or> is_digit c"

definition MaxServiceNameLen :: nat where "MaxServiceNameLen = 63"

definition trim_hyphens :: "string \<Rightarrow> string" where
  "trim_hyphens s = rev (dropWhile (\<lambda>c. c = CHR ''-'') (rev (dropWhile (\<lambda>c. c = CHR ''-'') s)))"

definition defaultConnectServiceName :: "string option \<Rightarrow> string" where
  "defaultConnectServiceName host =
     (let hostname = (case host of None \<Rightarrow> ''unknown'' | Some h \<Rightarrow> if h = [] then ''unknown'' else h);
          name = ToLower hostname @ ''-caddy-consul'';
          name = map (\<lambda>c. if name_char c \<or> c = CHR ''-'' then c else CHR ''-'') name;
          name = (if length name > MaxServiceNameLen then take MaxServiceNameLen name else name);
          name = trim_hyphens name
      in if name = [] then ''caddy-consul'' else name)"

definition envOrDefault :: "(string \<Rightarrow> string) \<Rightarrow> string \<Rightarrow> string \<Rightarrow> string" where
  "envOrDefault env key defaultVal = (if env key \<noteq> [] then env key else defaultVal)"

definition or_default :: "string \<Rightarrow> string \<Rightarrow> string" where
  "or_default v d = (if v = [] then d else v)"

definition or_default_bool :: "bool option \<Rightarrow> bool \<Rightarrow> bool option" where
  "or_default_bool v d = (if v = None then Some d else v)"

definition applyDefaults :: "(string \<Rightarrow> string) \<Rightarrow> string option \<Rightarrow> string \<Rightarrow> RouterConfig \<Rightarrow> RouterConfig" where
  "applyDefaults env host dataDir cr = cr\<lparr>
     co_ConsulAddr := or_default (co_ConsulAddr cr) (envOrDefault env ''CONSUL_HTTP_ADDR'' ''127.0.0.1:8500''),
     co_ConsulToken := or_default (co_ConsulToken cr) (env ''CONSUL_HTTP_TOKEN''),
     co_ConsulScheme := or_default (co_ConsulScheme cr) (if env ''CONSUL_HTTP_SSL'' = ''true'' then ''https'' else ''http''),
     co_ConsulTLSCA := or_default (co_ConsulTLSCA cr) (env ''CONSUL_CACERT''),
     co_ConsulTLSCert := or_default (co_ConsulTLSCert cr) (env ''CONSUL_CLIENT_CERT''),
     co_ConsulTLSKey := or_default (co_ConsulTLSKey cr) (env ''CONSUL_CLIENT_KEY''),
     co_ServiceProxyEnable := or_default_bool (co_ServiceProxyEnable cr) True,
     co_HealthPolicy := or_default (co_HealthPolicy cr) ''passing'',
     co_ConflictPolicy := or_default (co_ConflictPolicy cr) ''reject'',
     co_ConnectProxyEnable := or_default_bool (co_ConnectProxyEnable cr) False,
     co_DebounceDuration := or_default (co_DebounceDuration cr) ''500ms'',
     co_PollInterval := or_default (co_PollInterval cr) ''50ms'',
     co_FullSyncInterval := or_default (co_FullSyncInterval cr) ''5m'',
     co_ConnectServiceName := or_default (co_ConnectServiceName cr) (defaultConnectServiceName host),
     co_ConnectAutoRegister := or_default_bool (co_ConnectAutoRegister cr) True,
     co_CaddyAdminAPI := or_default (co_CaddyAdminAPI cr) ''localhost:2019'',
     co_ServiceTag := or_default (co_ServiceTag cr) ''caddy-consul'',
     co_ConnectTag := or_default (co_ConnectTag cr) ''caddy-consul-connect'',
     co_ConnectPortStart := (if co_ConnectPortStart cr = 0 then 19000 else co_ConnectPortStart cr),
     co_ConnectPortEnd := (if co_ConnectPortEnd cr = 0 then 29000 else co_ConnectPortEnd cr),
     co_DataDir := or_default (co_DataDir cr) dataDir,
     co_L4Mode := or_default (co_L4Mode cr) ''global'',
     co_TCPDrain := or_default (co_TCPDrain cr) ''30s''\<rparr>"

subsection \<open>Validation\<close>

text \<open>The regular expression \<open>^[a-z0-9][a-z0-9-]*[a-z0-9]$\<close>.\<close>

definition validServiceName :: "string \<Rightarrow> bool" where
  "validServiceName s \<longleftrightarrow>
     2 \<le> length s \<and> name_char (hd s) \<and> name_char (last s) \<and> list_all (\<lambda>c. name_char c \<or> c = CHR ''-'') s"

definition validate :: "(string \<Rightarrow> int option) \<Rightarrow> RouterConfig \<Rightarrow> config_error option" where
  "validate parseDuration cr =
     (if co_HealthPolicy cr \<notin> {''passing'', ''warning'', ''any''} then Some (InvalidHealthPolicy (co_HealthPolicy cr))
      else if co_ConflictPolicy cr \<notin> {''reject'', ''first-wins''} then Some (InvalidConflictPolicy (co_ConflictPolicy cr))
      else if parseDuration (co_DebounceDuration cr) = None then Some (InvalidDebounce (co_DebounceDuration cr))
      else if co_TCPDrain cr \<noteq> [] \<and> parseDuration (co_TCPDrain cr) = None then Some (InvalidTCPDrain (co_TCPDrain cr))
      else if co_ConsulScheme cr \<noteq> ''http'' \<and> co_ConsulScheme cr \<noteq> ''https'' then Some (InvalidScheme (co_ConsulScheme cr))
      else if co_L4Mode cr \<notin> {''global'', ''node''} then Some (InvalidL4Mode (co_L4Mode cr))
      else if (co_ConsulTLSCert cr \<noteq> [] \<or> co_ConsulTLSKey cr \<noteq> []) \<and> (co_ConsulTLSCert cr = [] \<or> co_ConsulTLSKey cr = [])
      then Some TLSPairIncomplete
      else if co_NoCacheStatus cr \<noteq> [] \<and> isl (ParseStatusMatcher (co_NoCacheStatus cr))
      then Some (InvalidNoCacheStatus (co_NoCacheStatus cr))
      else if length (co_ConnectServiceName cr) > MaxServiceNameLen then Some (ServiceNameTooLong (co_ConnectServiceName cr))
      else if co_ConnectServiceName cr \<noteq> [] \<and> \<not> validServiceName (co_ConnectServiceName cr)
      then Some (ServiceNameInvalid (co_ConnectServiceName cr))
      else None)"

definition parsedHealthPolicy :: "RouterConfig \<Rightarrow> HealthPolicy" where
  "parsedHealthPolicy cr =
     (if co_HealthPolicy cr = ''warning'' then HealthPolicyWarning
      else if co_HealthPolicy cr = ''any'' then HealthPolicyAny
      else HealthPolicyPassing)"

definition parsed_duration :: "(string \<Rightarrow> int option) \<Rightarrow> string \<Rightarrow> int" where
  "parsed_duration parseDuration s = (case parseDuration s of None \<Rightarrow> 0 | Some d \<Rightarrow> d)"

definition boolVal :: "bool option \<Rightarrow> bool" where
  "boolVal p = (case p of None \<Rightarrow> False | Some b \<Rightarrow> b)"

text \<open>The settings handed to the Consul client, with the TLS part if one is configured.\<close>

record consul_config =
  cl_Address :: string
  cl_Scheme :: string
  cl_Token :: string
  cl_Datacenter :: string
  cl_TLS :: "(string \<times> string \<times> string \<times> bool) option"

definition newConsulClient :: "RouterConfig \<Rightarrow> consul_config" where
  "newConsulClient cr =
     \<lparr>cl_Address = co_ConsulAddr cr, cl_Scheme = co_ConsulScheme cr, cl_Token = co_ConsulToken cr,
      cl_Datacenter = co_ConsulDC cr,
      cl_TLS = (if co_ConsulTLSCert cr \<noteq> [] \<or> co_ConsulTLSCA cr \<noteq> [] \<or> co_ConsulTLSSkipVerify cr
                then Some (co_ConsulTLSCert cr, co_ConsulTLSKey cr, co_ConsulTLSCA cr, co_ConsulTLSSkipVerify cr) else None)\<rparr>"

lemmas [go_eval] = zero_config_def bool_option_def port_option_def option_names_def set_option_def set_late_option_def name_char_def
  MaxServiceNameLen_def trim_hyphens_def defaultConnectServiceName_def envOrDefault_def or_default_def
  or_default_bool_def applyDefaults_def validServiceName_def validate_def parsedHealthPolicy_def
  parsed_duration_def boolVal_def newConsulClient_def

subsection \<open>Parsed configurations\<close>

definition ports_ok :: "RouterConfig \<Rightarrow> bool" where
  "ports_ok cr \<longleftrightarrow> 0 \<le> co_ConnectPortStart cr \<and> 0 \<le> co_ConnectPortEnd cr"

lemma set_option_ports: "set_option opt v cr = Inr cr' \<Longrightarrow> ports_ok cr \<Longrightarrow> ports_ok cr'"
  by (auto simp: set_option_def set_late_option_def bool_option_def port_option_def ports_ok_def split: if_splits option.splits)

lemma unmarshal_line_ports: "unmarshal_line line cr = Inr cr' \<Longrightarrow> ports_ok cr \<Longrightarrow> ports_ok cr'"
  by (induction line cr rule: unmarshal_line.induct) (auto split: if_splits sum.splits dest: set_option_ports)

lemma UnmarshalCaddyfile_ports: "UnmarshalCaddyfile lines cr = Inr cr' \<Longrightarrow> ports_ok cr \<Longrightarrow> ports_ok cr'"
  by (induction lines cr rule: UnmarshalCaddyfile.induct) (auto split: sum.splits dest: unmarshal_line_ports)

lemma unmarshal_unknown:
  "opt \<notin> set option_names \<Longrightarrow> unmarshal_line (opt # rest) cr = Inl (Unrecognized opt)"
  by (cases rest) (auto simp: set_option_def set_late_option_def option_names_def)

subsection \<open>The default service name\<close>

lemma trim_hyphens_props:
  "set (trim_hyphens s) \<subseteq> set s" "length (trim_hyphens s) \<le> length s"
  "trim_hyphens s \<noteq> [] \<Longrightarrow> hd (trim_hyphens s) \<noteq> CHR ''-'' \<and> last (trim_hyphens s) \<noteq> CHR ''-''"
proof -
  let ?d = "dropWhile (\<lambda>c. c = CHR ''-'') s"
  let ?e = "dropWhile (\<lambda>c. c = CHR ''-'') (rev ?d)"
  have t: "trim_hyphens s = rev ?e" by (simp add: trim_hyphens_def)
  show "set (trim_hyphens s) \<subseteq> set s" unfolding t by (auto dest!: set_dropWhileD)
  show "length (trim_hyphens s) \<le> length s"
    unfolding t using length_dropWhile_le [of "\<lambda>c. c = CHR ''-''" "rev ?d"] length_dropWhile_le [of "\<lambda>c. c = CHR ''-''" s]
    by simp
  assume ne: "trim_hyphens s \<noteq> []"
  have last: "last (trim_hyphens s) \<noteq> CHR ''-''"
    using hd_dropWhile [of "\<lambda>c. c = CHR ''-''" "rev ?d"] ne by (simp add: t last_rev)
  have d: "?d = rev ?e @ rev (takeWhile (\<lambda>c. c = CHR ''-'') (rev ?d))"
    unfolding rev_append [symmetric] takeWhile_dropWhile_id by simp
  have e: "rev ?e \<noteq> []" using ne unfolding t .
  have "hd ?d = hd (rev ?e)" by (subst d) (rule hd_append2 [OF e])
  moreover have "?d \<noteq> []" using e by (metis d append_is_Nil_conv)
  ultimately have "hd (trim_hyphens s) = hd ?d" "?d \<noteq> []" unfolding t by simp_all
  with hd_dropWhile [of "\<lambda>c. c = CHR ''-''" s] last
  show "hd (trim_hyphens s) \<noteq> CHR ''-'' \<and> last (trim_hyphens s) \<noteq> CHR ''-''" by simp
qed

lemma list_all_replaced: "P d \<Longrightarrow> list_all P (map (\<lambda>c. if P c then c else d) s)"
  by (induction s) simp_all

lemma list_all_capped: "list_all P s \<Longrightarrow> list_all P (if b then take n s else s)"
  using set_take_subset [of n s] by (auto simp: list_all_iff)

lemma default_name_shape:
  fixes host defines "name \<equiv> defaultConnectServiceName host"
  shows "name \<noteq> []" "length name \<le> MaxServiceNameLen" "list_all (\<lambda>c. name_char c \<or> c = CHR ''-'') name"
    "hd name \<noteq> CHR ''-''" "last name \<noteq> CHR ''-''"
proof -
  obtain s where s: "list_all (\<lambda>c. name_char c \<or> c = CHR ''-'') s" "length s \<le> MaxServiceNameLen"
    and name: "name = (if trim_hyphens s = [] then ''caddy-consul'' else trim_hyphens s)"
  proof
    let ?h = "case host of None \<Rightarrow> ''unknown'' | Some h \<Rightarrow> if h = [] then ''unknown'' else h"
    let ?n = "map (\<lambda>c. if name_char c \<or> c = CHR ''-'' then c else CHR ''-'') (ToLower ?h @ ''-caddy-consul'')"
    let ?s = "if length ?n > MaxServiceNameLen then take MaxServiceNameLen ?n else ?n"
    show "list_all (\<lambda>c. name_char c \<or> c = CHR ''-'') ?s"
      by (intro list_all_capped list_all_replaced [of "\<lambda>c. name_char c \<or> c = CHR ''-''"]) simp
    show "length ?s \<le> MaxServiceNameLen" by (simp only: length_take split: if_split) linarith
    show "name = (if trim_hyphens ?s = [] then ''caddy-consul'' else trim_hyphens ?s)"
      by (simp only: name_def defaultConnectServiceName_def Let_def)
  qed
  note t = trim_hyphens_props [of s]
  have "name \<noteq> [] \<and> length name \<le> MaxServiceNameLen \<and> list_all (\<lambda>c. name_char c \<or> c = CHR ''-'') name \<and>
    hd name \<noteq> CHR ''-'' \<and> last name \<noteq> CHR ''-''"
  proof (cases "trim_hyphens s = []")
    case True
    then have "name = ''caddy-consul''" by (simp add: name)
    then show ?thesis by (simp add: MaxServiceNameLen_def name_char_def)
  next
    case False
    then have n: "name = trim_hyphens s" by (simp add: name)
    have "list_all (\<lambda>c. name_char c \<or> c = CHR ''-'') (trim_hyphens s)" using t(1) s(1) unfolding list_all_iff by blast
    with t(2) t(3) [OF False] s(2) False show ?thesis unfolding n by simp
  qed
  then show "name \<noteq> []" "length name \<le> MaxServiceNameLen" "list_all (\<lambda>c. name_char c \<or> c = CHR ''-'') name"
    "hd name \<noteq> CHR ''-''" "last name \<noteq> CHR ''-''" by simp_all
qed

lemma default_name_valid:
  "validServiceName (defaultConnectServiceName host) \<longleftrightarrow> 2 \<le> length (defaultConnectServiceName host)"
proof -
  note n = default_name_shape [of host]
  have "name_char (hd (defaultConnectServiceName host))" "name_char (last (defaultConnectServiceName host))"
    using n by (auto simp: list_all_iff)
  with n show ?thesis by (simp add: validServiceName_def)
qed

subsection \<open>Properties\<close>



text \<open>C30: the default Connect service name derived from any host name is not empty, at most 63 characters long, made of lower-case
  letters, digits and hyphens, and neither starts nor ends with a hyphen; it therefore passes validation unless it is a
  single character, which a host name such as one letter followed by more than sixty hyphens gives.\<close>

theorem defaultConnectServiceName_correct:
  "defaultConnectServiceName host \<noteq> [] \<and> length (defaultConnectServiceName host) \<le> 63 \<and>
   list_all (\<lambda>c. name_char c \<or> c = CHR ''-'') (defaultConnectServiceName host) \<and>
   hd (defaultConnectServiceName host) \<noteq> CHR ''-'' \<and> last (defaultConnectServiceName host) \<noteq> CHR ''-'' \<and>
   (validServiceName (defaultConnectServiceName host) \<longleftrightarrow> length (defaultConnectServiceName host) \<noteq> 1) \<and>
   defaultConnectServiceName (Some (CHR ''a'' # replicate 62 (CHR ''-''))) = ''a''"
proof -
  have "defaultConnectServiceName host \<noteq> []" by (rule default_name_shape)
  then have "2 \<le> length (defaultConnectServiceName host) \<longleftrightarrow> length (defaultConnectServiceName host) \<noteq> 1"
    by (cases "defaultConnectServiceName host") (auto simp: Suc_le_eq)
  moreover have "defaultConnectServiceName (Some (CHR ''a'' # replicate 62 (CHR ''-''))) = ''a''" by code_simp
  ultimately show ?thesis using default_name_shape [of host] by (simp add: default_name_valid MaxServiceNameLen_def)
qed

end
