(* ===== verification/Registrar.thy ===== *)
theory Registrar
  imports Go_Prelude
begin

text \<open>
  \<open>register.go\<close>: the goroutine that keeps the plugin's own service registered in Consul, with its
  sidecar proxy and its TTL check.

  The Consul agent is not part of the program. Its endpoints are the record \<open>agent_api\<close> of operations on an agent
  state of any type: \<open>Service\<close> answers a query with an error message or None, the others return the agent's next
  state and an error message or None. What Consul documents of them is \<open>agent_laws\<close>, used where a claim needs it.
  Of the \<open>select\<close> statements, which of the stop channel and the timer is seen first is an argument of the round.
\<close>

subsection \<open>Model\<close>

record service_registration =
  sg_ID :: string
  sg_Name :: string
  sg_Sidecar :: bool
  sg_CheckID :: string
  sg_TTL :: string
  sg_Status :: string

record check_registration =
  cg_ID :: string
  cg_Name :: string
  cg_ServiceID :: string
  cg_TTL :: string
  cg_Status :: string

record 's agent_api =
  ag_Service :: "'s \<Rightarrow> string \<Rightarrow> string option"
  ag_ServiceRegister :: "'s \<Rightarrow> service_registration \<Rightarrow> 's \<times> string option"
  ag_UpdateTTL :: "'s \<Rightarrow> string \<Rightarrow> string \<Rightarrow> string \<Rightarrow> 's \<times> string option"
  ag_CheckRegister :: "'s \<Rightarrow> check_registration \<Rightarrow> 's \<times> string option"
  ag_ServiceDeregister :: "'s \<Rightarrow> string \<Rightarrow> 's \<times> string option"

definition ttlDuration :: string where "ttlDuration = ''30s''"
definition regBackoffMin :: int where "regBackoffMin = 1000000000"
definition regBackoffMax :: int where "regBackoffMax = 30000000000"

text \<open>Where the goroutine is: in the registration loop with its back-off, in the renewal loop, or returned.\<close>

datatype maintain_phase = Registering int | Renewing | Returned

record ServiceRegistrar =
  sr_name :: string
  sr_stopped :: bool
  sr_loop :: "maintain_phase option"

definition NewServiceRegistrar :: "string \<Rightarrow> ServiceRegistrar" where
  "NewServiceRegistrar serviceName = \<lparr>sr_name = serviceName, sr_stopped = False, sr_loop = None\<rparr>"

definition Registrar_Start :: "ServiceRegistrar \<Rightarrow> ServiceRegistrar" where
  "Registrar_Start sr = sr\<lparr>sr_loop := Some (Registering regBackoffMin)\<rparr>"

definition Registrar_Stop :: "ServiceRegistrar \<Rightarrow> ServiceRegistrar" where
  "Registrar_Stop sr = sr\<lparr>sr_stopped := True\<rparr>"

definition checkID :: "string \<Rightarrow> string" where
  "checkID serviceName = serviceName @ ''-ttl''"

definition isNotFound :: "string \<Rightarrow> bool" where
  "isNotFound err \<longleftrightarrow> Contains err ''Unexpected response code: 404''"

definition registerService :: "'s agent_api \<Rightarrow> string \<Rightarrow> 's \<Rightarrow> 's \<times> string option" where
  "registerService api serviceName s =
     (let reg = \<lparr>sg_ID = serviceName, sg_Name = serviceName, sg_Sidecar = True, sg_CheckID = checkID serviceName,
                 sg_TTL = ttlDuration, sg_Status = ''passing''\<rparr>
      in case ag_ServiceRegister api s reg of
           (s', Some err) \<Rightarrow> (s', Some (''registering service '' @ serviceName @ '': '' @ err))
         | (s', None) \<Rightarrow> (s', None))"

definition ensureCheck :: "'s agent_api \<Rightarrow> string \<Rightarrow> 's \<Rightarrow> 's" where
  "ensureCheck api serviceName s =
     fst (ag_CheckRegister api s \<lparr>cg_ID = checkID serviceName, cg_Name = serviceName @ '' TTL'', cg_ServiceID = serviceName,
            cg_TTL = ttlDuration, cg_Status = ''passing''\<rparr>)"

definition update_ttl :: "'s agent_api \<Rightarrow> string \<Rightarrow> 's \<Rightarrow> 's \<times> string option" where
  "update_ttl api serviceName s = ag_UpdateTTL api s (checkID serviceName) ''caddy-consul healthy'' ''passing''"

definition ensureRegistered :: "'s agent_api \<Rightarrow> string \<Rightarrow> 's \<Rightarrow> 's \<times> string option" where
  "ensureRegistered api serviceName s =
     (case ag_Service api s serviceName of
        Some err \<Rightarrow>
          if isNotFound err then registerService api serviceName s
          else (s, Some (''querying service '' @ serviceName @ '': '' @ err))
      | None \<Rightarrow>
          let sidecarID = serviceName @ ''-sidecar-proxy'' in
          case ag_Service api s sidecarID of
            Some err \<Rightarrow>
              if isNotFound err then registerService api serviceName s
              else (s, Some (''querying sidecar '' @ sidecarID @ '': '' @ err))
          | None \<Rightarrow>
              (case update_ttl api serviceName s of
                 (s', Some err) \<Rightarrow> (ensureCheck api serviceName s', None)
               | (s', None) \<Rightarrow> (s', None)))"

definition Deregister :: "'s agent_api \<Rightarrow> string \<Rightarrow> 's \<Rightarrow> 's" where
  "Deregister api serviceName s =
     (let s' = fst (ag_ServiceDeregister api s serviceName)
      in fst (ag_ServiceDeregister api s' (serviceName @ ''-sidecar-proxy'')))"

definition reg_next_backoff :: "int \<Rightarrow> int" where
  "reg_next_backoff backoff =
     (let b = wrap64 (backoff * 2) in if b > regBackoffMax then regBackoffMax else b)"

text \<open>One round of \<open>maintainLoop\<close>. \<open>sawStop\<close> says that the \<open>select\<close> of the round took the closed stop channel, which
  it can only do after \<open>Stop\<close>.\<close>

definition maintain_round ::
  "'s agent_api \<Rightarrow> bool \<Rightarrow> ServiceRegistrar \<Rightarrow> 's \<times> maintain_phase \<Rightarrow> 's \<times> maintain_phase" where
  "maintain_round api sawStop sr st =
     (case st of
        (s, Registering backoff) \<Rightarrow>
          if sr_stopped sr then (s, Returned)
          else (case ensureRegistered api (sr_name sr) s of
                  (s', Some err) \<Rightarrow> (s', if sawStop then Returned else Registering (reg_next_backoff backoff))
                | (s', None) \<Rightarrow> (s', Renewing))
      | (s, Renewing) \<Rightarrow>
          if sr_stopped sr \<and> sawStop then (s, Returned)
          else (case update_ttl api (sr_name sr) s of
                  (s', Some err) \<Rightarrow> (fst (ensureRegistered api (sr_name sr) s'), Renewing)
                | (s', None) \<Rightarrow> (s', Renewing))
      | (s, Returned) \<Rightarrow> (s, Returned))"

lemmas [go_eval] = ttlDuration_def regBackoffMin_def regBackoffMax_def NewServiceRegistrar_def Registrar_Start_def
  Registrar_Stop_def checkID_def isNotFound_def registerService_def ensureCheck_def update_ttl_def ensureRegistered_def
  Deregister_def reg_next_backoff_def maintain_round_def

subsection \<open>The agent\<close>

text \<open>
  What Consul documents of a reachable agent, for the services \<open>has\<close> and the checks \<open>chk\<close> of a state: a query answers
  404 exactly for an absent service, a registration with a sidecar stanza creates the service, its sidecar and its check, the
  TTL of a check can be updated exactly when the check exists, and a check can be added to an existing service. No
  operation but a deregistration removes anything.
\<close>

definition agent_laws :: "'s agent_api \<Rightarrow> ('s \<Rightarrow> string \<Rightarrow> bool) \<Rightarrow> ('s \<Rightarrow> string \<Rightarrow> bool) \<Rightarrow> bool" where
  "agent_laws api has chk \<longleftrightarrow>
     (\<forall>s n. case ag_Service api s n of None \<Rightarrow> has s n | Some err \<Rightarrow> \<not> has s n \<and> isNotFound err) \<and>
     (\<forall>s r. sg_Sidecar r \<longrightarrow> (\<exists>s'. ag_ServiceRegister api s r = (s', None) \<and> has s' (sg_ID r) \<and>
        has s' (sg_ID r @ ''-sidecar-proxy'') \<and> chk s' (sg_CheckID r))) \<and>
     (\<forall>s c m st. \<exists>s' res. ag_UpdateTTL api s c m st = (s', res) \<and> (res = None \<longleftrightarrow> chk s c) \<and> has s' = has s \<and> chk s' = chk s) \<and>
     (\<forall>s c. has s (cg_ServiceID c) \<longrightarrow>
        (\<exists>s'. ag_CheckRegister api s c = (s', None) \<and> has s' = has s \<and> chk s' (cg_ID c)))"

definition registered :: "('s \<Rightarrow> string \<Rightarrow> bool) \<Rightarrow> ('s \<Rightarrow> string \<Rightarrow> bool) \<Rightarrow> string \<Rightarrow> 's \<Rightarrow> bool" where
  "registered has chk name s \<longleftrightarrow> has s name \<and> has s (name @ ''-sidecar-proxy'') \<and> chk s (checkID name)"

lemma registerService_registers:
  "agent_laws api has chk \<Longrightarrow> \<exists>s'. registerService api name s = (s', None) \<and> registered has chk name s'"
proof -
  assume "agent_laws api has chk"
  then have "sg_Sidecar r \<Longrightarrow> \<exists>s'. ag_ServiceRegister api s r = (s', None) \<and> has s' (sg_ID r) \<and>
    has s' (sg_ID r @ ''-sidecar-proxy'') \<and> chk s' (sg_CheckID r)" for r by (simp add: agent_laws_def)
  from this [of "\<lparr>sg_ID = name, sg_Name = name, sg_Sidecar = True, sg_CheckID = checkID name,
                 sg_TTL = ttlDuration, sg_Status = ''passing''\<rparr>"]
  show ?thesis by (auto simp: registerService_def registered_def)
qed

lemma update_ttl_laws:
  assumes "agent_laws api has chk" "update_ttl api name s = (s', res)"
  shows "res = None \<longleftrightarrow> chk s (checkID name)" "has s' = has s" "chk s' = chk s"
proof -
  from assms(1) have "\<exists>s' res. update_ttl api name s = (s', res) \<and> (res = None \<longleftrightarrow> chk s (checkID name)) \<and> has s' = has s \<and> chk s' = chk s"
    by (simp add: agent_laws_def update_ttl_def)
  with assms(2) show "res = None \<longleftrightarrow> chk s (checkID name)" "has s' = has s" "chk s' = chk s" by simp_all
qed

lemma ensureCheck_registers:
  assumes "agent_laws api has chk" "has s name"
  shows "has (ensureCheck api name s) = has s" "chk (ensureCheck api name s) (checkID name)"
proof -
  let ?c = "\<lparr>cg_ID = checkID name, cg_Name = name @ '' TTL'', cg_ServiceID = name, cg_TTL = ttlDuration, cg_Status = ''passing''\<rparr>"
  from assms have "has s (cg_ServiceID ?c) \<longrightarrow> (\<exists>s'. ag_CheckRegister api s ?c = (s', None) \<and> has s' = has s \<and> chk s' (cg_ID ?c))"
    unfolding agent_laws_def by blast
  with assms(2) show "has (ensureCheck api name s) = has s" "chk (ensureCheck api name s) (checkID name)"
    by (auto simp: ensureCheck_def)
qed

lemma ensureRegistered_registers:
  assumes laws: "agent_laws api has chk"
  shows "\<exists>s'. ensureRegistered api name s = (s', None) \<and> registered has chk name s'"
proof -
  have svc: "case ag_Service api s n of None \<Rightarrow> has s n | Some err \<Rightarrow> \<not> has s n \<and> isNotFound err" for s n
    using laws by (simp add: agent_laws_def)
  consider (main) "\<not> has s name" | (sidecar) "has s name" "\<not> has s (name @ ''-sidecar-proxy'')"
    | (both) "has s name" "has s (name @ ''-sidecar-proxy'')" by blast
  then show ?thesis
  proof cases
    case main
    with svc [of s name] obtain e where "ag_Service api s name = Some e" "isNotFound e" by (auto split: option.splits)
    with registerService_registers [OF laws] show ?thesis by (simp add: ensureRegistered_def)
  next
    case sidecar
    with svc [of s name] svc [of s "name @ ''-sidecar-proxy''"] obtain e where
      "ag_Service api s name = None" "ag_Service api s (name @ ''-sidecar-proxy'') = Some e" "isNotFound e"
      by (auto split: option.splits)
    with registerService_registers [OF laws] show ?thesis by (simp add: ensureRegistered_def)
  next
    case both
    with svc [of s name] svc [of s "name @ ''-sidecar-proxy''"] have q:
      "ag_Service api s name = None" "ag_Service api s (name @ ''-sidecar-proxy'') = None"
      by (auto split: option.splits)
    obtain s' res where u: "update_ttl api name s = (s', res)" by fastforce
    note l = update_ttl_laws [OF laws u]
    from both l(2) have "has s' name" by simp
    from ensureCheck_registers [OF laws this] both l q u show ?thesis
      by (cases res) (simp_all add: ensureRegistered_def registered_def)
  qed
qed

lemma backoff_bounds:
  "regBackoffMin \<le> b \<Longrightarrow> b \<le> regBackoffMax \<Longrightarrow>
   regBackoffMin \<le> reg_next_backoff b \<and> reg_next_backoff b \<le> regBackoffMax \<and> (reg_next_backoff b = min (2 * b) regBackoffMax)"
  by (simp add: reg_next_backoff_def regBackoffMin_def regBackoffMax_def wrap64_id Let_def)

subsection \<open>Runs of the loop\<close>

text \<open>Some rounds against an agent that may be unreachable, may lose registrations between two rounds, and may be stopped.\<close>

inductive maintain_run ::
  "'s agent_api \<Rightarrow> ServiceRegistrar \<Rightarrow> 's \<times> maintain_phase \<Rightarrow> 's \<times> maintain_phase \<Rightarrow> bool" for api sr where
  mr_start: "maintain_run api sr (s, Registering regBackoffMin) (s, Registering regBackoffMin)"
| mr_round: "\<lbrakk>maintain_run api sr st st'; sawStop \<longrightarrow> sr_stopped sr'; sr_name sr' = sr_name sr\<rbrakk> \<Longrightarrow>
    maintain_run api sr st (maintain_round api sawStop sr' st')"
| mr_agent: "maintain_run api sr st (s, ph) \<Longrightarrow> maintain_run api sr st (s', ph)"

lemma maintain_run_phase:
  "maintain_run api sr st (s, ph) \<Longrightarrow>
   case ph of Registering b \<Rightarrow> regBackoffMin \<le> b \<and> b \<le> regBackoffMax | _ \<Rightarrow> True"
proof (induction st "(s, ph)" arbitrary: s ph rule: maintain_run.induct)
  case (mr_start s)
  then show ?case by (simp add: regBackoffMin_def regBackoffMax_def)
next
  case (mr_round st st' sawStop sr')
  obtain s0 p0 where st': "st' = (s0, p0)" by fastforce
  with mr_round.hyps(2) have "case p0 of Registering b \<Rightarrow> regBackoffMin \<le> b \<and> b \<le> regBackoffMax | _ \<Rightarrow> True" by simp
  with mr_round.hyps(5) st' show ?case
    by (auto simp: maintain_round_def dest: backoff_bounds split: maintain_phase.splits if_splits prod.splits option.splits)
next
  case (mr_agent st s ph s')
  then show ?case by simp
qed

subsection \<open>Properties\<close>

text \<open>C34: the registration heals itself, but for one case. In every run of the maintenance loop the back-off stays between one and
  thirty seconds. From whatever state the agent is left in, one round of a loop that has not been stopped, against an agent that is
  reachable, ends in the renewal phase; the service, its sidecar proxy and its TTL check are then registered, unless the loop
  was renewing and the check had survived, in which case the services are left as they are (a sidecar that
  disappears alone is not noticed).\<close>

theorem registration_heals:
  assumes "maintain_run api sr st (s, ph)" "ph \<noteq> Returned" "\<not> sr_stopped sr" "agent_laws api has chk"
  shows "(case ph of Registering b \<Rightarrow> regBackoffMin \<le> b \<and> b \<le> regBackoffMax | _ \<Rightarrow> True) \<and>
    (\<exists>s'. maintain_round api False sr (s, ph) = (s', Renewing) \<and>
       (if ph = Renewing \<and> chk s (checkID (sr_name sr)) then has s' = has s \<and> chk s' = chk s
        else registered has chk (sr_name sr) s'))"
proof
  show "case ph of Registering b \<Rightarrow> regBackoffMin \<le> b \<and> b \<le> regBackoffMax | _ \<Rightarrow> True"
    using assms(1) by (rule maintain_run_phase)
  show "\<exists>s'. maintain_round api False sr (s, ph) = (s', Renewing) \<and>
       (if ph = Renewing \<and> chk s (checkID (sr_name sr)) then has s' = has s \<and> chk s' = chk s
        else registered has chk (sr_name sr) s')"
  proof (cases ph)
    case (Registering b)
    with ensureRegistered_registers [OF assms(4), of "sr_name sr" s] assms(3) show ?thesis
      by (auto simp: maintain_round_def)
  next
    case Renewing
    obtain s' res where u: "update_ttl api (sr_name sr) s = (s', res)" by fastforce
    from update_ttl_laws [OF assms(4) u] ensureRegistered_registers [OF assms(4), of "sr_name sr" s'] Renewing u
    show ?thesis by (cases res) (auto simp: maintain_round_def)
  next
    case Returned
    with assms(2) show ?thesis by simp
  qed
qed

text \<open>An agent that keeps a list of service and check ids satisfies the laws.\<close>

definition list_agent :: "(string list \<times> string list) agent_api" where
  "list_agent =
     \<lparr>ag_Service = (\<lambda>(svcs, chks) n. if n \<in> set svcs then None else Some ''Unexpected response code: 404 (unknown service)''),
      ag_ServiceRegister = (\<lambda>(svcs, chks) r.
        (((if sg_Sidecar r then [sg_ID r @ ''-sidecar-proxy''] else []) @ sg_ID r # svcs, sg_CheckID r # chks), None)),
      ag_UpdateTTL = (\<lambda>(svcs, chks) c m st. ((svcs, chks), if c \<in> set chks then None else Some ''CheckID does not have associated TTL'')),
      ag_CheckRegister = (\<lambda>(svcs, chks) c. ((svcs, cg_ID c # chks), None)),
      ag_ServiceDeregister = (\<lambda>(svcs, chks) n. ((removeAll n svcs, chks), None))\<rparr>"

lemma list_agent_laws: "agent_laws list_agent (\<lambda>s n. n \<in> set (fst s)) (\<lambda>s c. c \<in> set (snd s))"
proof -
  have "isNotFound ''Unexpected response code: 404 (unknown service)''" by code_simp
  then show ?thesis by (auto simp: agent_laws_def list_agent_def)
qed

theorem registration_heals_witness:
  "\<exists>s'. maintain_round list_agent False (NewServiceRegistrar ''caddy'') (([''other''], []), Registering regBackoffMin) = (s', Renewing) \<and>
     registered (\<lambda>s n. n \<in> set (fst s)) (\<lambda>s c. c \<in> set (snd s)) ''caddy'' s'"
  using registration_heals [OF mr_start [of list_agent "NewServiceRegistrar ''caddy''" "([''other''], [])"] _ _ list_agent_laws]
  by (simp add: NewServiceRegistrar_def)

end
