(* ===== verification/Router.thy ===== *)
theory Router
  imports Metadata Compiler Upstream_Manager TCP_Listener Watcher State_Manager Config Registrar
begin

text \<open>
  \<open>consul.go\<close>: the Caddy app that owns the other components. \<open>Provision\<close> builds them and warms the tables from the
  persisted state, \<open>Start\<close> and \<open>Stop\<close> run them, and \<open>onServicesChanged\<close>, the callback of the watcher, turns the Consul
  services into the published routes.

  A nil pointer is None; a call through one is the panic \<open>NilDereference\<close>. The metrics collector is one object shared
  with the listener manager, so an operation hands its current value on to the manager and takes it back.
  The outside world of one callback is the record \<open>world\<close>: the answers of the Consul agent (for \<open>SyncUpstreams\<close>, and for
  the i-th route when it is resolved), the sort of \<open>sort.Slice\<close>, the hash of the encoded routes, the listener pool, the
  iteration orders of two maps, the result of writing the state file and the duration of the pass. The result of a callback is
  None when it does not return (\<open>SyncUpstreams\<close> may not). The list of changes given to the callback is only logged, and so are the
  counts of routes by mode; a \<open>Provision\<close> that fails may still have created the global collector, which the next one then reuses.
\<close>

record world =
  wd_service :: agent_service
  wd_register :: agent_register
  wd_resolve :: "nat \<Rightarrow> agent_service"
  wd_sort :: "RouteDefinition list \<Rightarrow> RouteDefinition list"
  wd_hash :: "CompiledHTTPRoute list \<Rightarrow> string"
  wd_openPort :: "int \<Rightarrow> string + nat"
  wd_iterPorts :: "(int, bool) gomap \<Rightarrow> (int, bool) gomap"
  wd_iterServices :: "(string, bool) gomap \<Rightarrow> (string, bool) gomap"
  wd_write :: write_result
  wd_elapsed :: int

record ConsulRouter =
  cr_config :: RouterConfig
  cr_watcher :: "ConsulWatcher option"
  cr_routeTable :: "RouteTable option"
  cr_stateMgr :: "stateManager option"
  cr_sidecarResolver :: "SidecarResolver option"
  cr_upstreamMgr :: "UpstreamManager option"
  cr_registrar :: "ServiceRegistrar option"
  cr_nodeName :: string
  cr_noCacheMatcher :: "StatusMatcher option"
  cr_tcpTable :: "TCPTable option"
  cr_tcpListeners :: "TCPListenerManager option"
  cr_metrics :: metrics

definition new_router :: "RouterConfig \<Rightarrow> ConsulRouter" where
  "new_router cfg =
     \<lparr>cr_config = cfg, cr_watcher = None, cr_routeTable = None, cr_stateMgr = None, cr_sidecarResolver = None,
      cr_upstreamMgr = None, cr_registrar = None, cr_nodeName = [], cr_noCacheMatcher = None, cr_tcpTable = None,
      cr_tcpListeners = None, cr_metrics = None\<rparr>"

definition serviceProxyEnabled :: "ConsulRouter \<Rightarrow> bool" where
  "serviceProxyEnabled cr = boolVal (co_ServiceProxyEnable (cr_config cr))"

definition connectProxyEnabled :: "ConsulRouter \<Rightarrow> bool" where
  "connectProxyEnabled cr = boolVal (co_ConnectProxyEnable (cr_config cr))"

definition node_mode :: "ConsulRouter \<Rightarrow> bool" where
  "node_mode cr \<longleftrightarrow> co_L4Mode (cr_config cr) = ''node'' \<and> cr_nodeName cr \<noteq> []"

subsection \<open>The callback\<close>

definition parse_services :: "ConsulRouter \<Rightarrow> (string, ServiceState) gomap \<Rightarrow> RouteDefinition list list go" where
  "parse_services cr allServices =
     go_mapM (\<lambda>(_, svc). ParseServiceRoutes (Some svc) (co_ServiceTag (cr_config cr)) (co_ConnectTag (cr_config cr))) allServices"

definition mark_connect :: "(string, bool) gomap \<Rightarrow> RouteDefinition list \<Rightarrow> (string, bool) gomap" where
  "mark_connect m routes =
     foldl (\<lambda>m r. if \<not> IsRedirect r then AList.update (rd_ServiceName r) True m else m) m routes"

definition connect_services ::
  "ConsulRouter \<Rightarrow> (string, ServiceState) gomap \<Rightarrow> RouteDefinition list list \<Rightarrow> (string, bool) gomap" where
  "connect_services cr allServices parsed =
     (if connectProxyEnabled cr
      then foldl (\<lambda>m ((_, svc), routes). if co_ConnectTag (cr_config cr) \<in> set (ss_Tags svc) then mark_connect m routes else m)
             [] (zip allServices parsed)
      else [])"

text \<open>In node mode, the Connect services with an instance on the local node.\<close>

definition local_connect_services ::
  "ConsulRouter \<Rightarrow> RouteDefinition list list \<Rightarrow> (string, bool) gomap \<Rightarrow> (string, bool) gomap" where
  "local_connect_services cr parsed connectServices =
     (if node_mode cr \<and> connectProxyEnabled cr
      then filter (\<lambda>(svcName, _). list_ex (\<lambda>routes. list_ex (\<lambda>r. rd_ServiceName r = svcName \<and>
             list_ex (\<lambda>u. up_NodeName u = cr_nodeName cr) (rd_Upstreams r)) routes) parsed) connectServices
      else connectServices)"

definition sync_sidecar ::
  "world \<Rightarrow> ConsulRouter \<Rightarrow> (string, bool) gomap \<Rightarrow> (UpstreamManager option \<times> AgentServiceRegistration option) option" where
  "sync_sidecar wd cr connectServices =
     (case cr_upstreamMgr cr of
        None \<Rightarrow> Some (None, None)
      | Some um \<Rightarrow>
          if connectProxyEnabled cr then
            (case SyncUpstreams (wd_service wd) (wd_register wd) um (wd_iterServices wd connectServices) of
               None \<Rightarrow> None
             | Some (um', reg, _) \<Rightarrow> Some (Some um', reg))
          else Some (Some um, None))"

text \<open>The body of the second pass, for one route.\<close>

definition assign_route :: "agent_service \<Rightarrow> ConsulRouter \<Rightarrow> (string, bool) gomap \<Rightarrow> RouteDefinition \<Rightarrow> RouteDefinition" where
  "assign_route agent cr connectServices r =
     (if IsRedirect r then r
      else let isConnect = connectProxyEnabled cr \<and> get_or False connectServices (rd_ServiceName r);
               r1 = (if isConnect then r\<lparr>rd_Via := co_ConnectTag (cr_config cr)\<rparr>
                     else if serviceProxyEnabled cr then r\<lparr>rd_Via := co_ServiceTag (cr_config cr)\<rparr> else r)
           in case (if isConnect then cr_sidecarResolver cr else None) of
                Some sr \<Rightarrow>
                  (case ResolveUpstreams agent sr r1 of
                     Inr r2 \<Rightarrow> r2\<lparr>rd_UpstreamMode := UpstreamConnectSidecar\<rparr>
                   | Inl err \<Rightarrow>
                       if serviceProxyEnabled cr
                       then r1\<lparr>rd_UpstreamMode := UpstreamDirect, rd_Via := co_ServiceTag (cr_config cr)\<rparr>
                       else r1\<lparr>rd_Upstreams := []\<rparr>)
              | None \<Rightarrow>
                  if serviceProxyEnabled cr then r1\<lparr>rd_UpstreamMode := UpstreamDirect\<rparr> else r1\<lparr>rd_Upstreams := []\<rparr>)"

definition assign_routes :: "world \<Rightarrow> ConsulRouter \<Rightarrow> (string, bool) gomap \<Rightarrow> RouteDefinition list \<Rightarrow> RouteDefinition list" where
  "assign_routes wd cr connectServices routes =
     map (\<lambda>(i, r). assign_route (wd_resolve wd i) cr connectServices r) (List.enumerate 0 routes)"

definition local_routes :: "ConsulRouter \<Rightarrow> RouteDefinition list \<Rightarrow> RouteDefinition list" where
  "local_routes cr routes = (if node_mode cr then FilterTCPRoutesByNode routes (cr_nodeName cr) else routes)"

definition conflict_name :: "ConflictType \<Rightarrow> string" where
  "conflict_name t =
     (case t of
        ConflictDuplicateHostPath \<Rightarrow> ''duplicate_host_path''
      | ConflictDuplicatePortSNI \<Rightarrow> ''duplicate_port_sni''
      | ConflictConflictingTLS \<Rightarrow> ''conflicting_tls''
      | ConflictStaticWins \<Rightarrow> ''static_wins'')"

definition converge_metrics ::
  "(string, ServiceState) gomap \<Rightarrow> RouteDefinition list \<Rightarrow> CompiledConfig \<Rightarrow> metrics \<Rightarrow> metrics" where
  "converge_metrics allServices allRoutes compiled m =
     (let m1 = SetServicesTotal (int (length allServices)) m;
          m2 = SetRoutesTotal ''http'' (int (length (filter is_http allRoutes))) m1;
          m3 = SetRoutesTotal ''tcp'' (int (length (filter is_tcp allRoutes))) m2
      in foldl (\<lambda>m c. IncConflict (conflict_name (cf_Type c)) m) m3 (cc_Conflicts compiled))"

definition persist_state ::
  "ConsulRouter \<Rightarrow> CompiledConfig \<Rightarrow> (string, ServiceState) gomap \<Rightarrow> stateManager \<Rightarrow> stateManager" where
  "persist_state cr compiled allServices sm =
     (let sm1 = SetServiceStates allServices (SetTCPRoutes (cc_TCPRoutes compiled) (SetHTTPRoutes (cc_HTTPRoutes compiled) sm));
          sm2 = (case cr_watcher cr of
                   None \<Rightarrow> sm1
                 | Some w \<Rightarrow> SetPassingChecks (PassingChecks w)
                              (SetHealthStateIndex (w_healthStateIndex w) (SetCatalogIndex (w_catalogIndex w) sm1)))
      in case cr_upstreamMgr cr of None \<Rightarrow> sm2 | Some um \<Rightarrow> SetUpstreamAllocations (Allocations um) sm2)"

text \<open>The HTTP routes are published only when their hash has changed.\<close>

definition publish_http ::
  "(CompiledHTTPRoute list \<Rightarrow> string) \<Rightarrow> CompiledHTTPRoute list \<Rightarrow> RouteTable \<times> stateManager \<Rightarrow> RouteTable \<times> stateManager" where
  "publish_http hash routes st =
     (case st of (rt, sm) \<Rightarrow>
        let newHTTPHash = hash routes in
        if newHTTPHash \<noteq> HTTPRouteHash sm then (Update rt routes, SetHTTPRouteHash newHTTPHash sm) else (rt, sm))"

definition publish_tcp ::
  "world \<Rightarrow> CompiledTCPRoute list \<Rightarrow> ConsulRouter \<Rightarrow> (ConsulRouter \<times> tcpListener list) go" where
  "publish_tcp wd routes cr =
     (case cr_tcpTable cr of
        None \<Rightarrow> Inr (cr, [])
      | Some tt \<Rightarrow>
          (case cr_tcpListeners cr of
             None \<Rightarrow> Inl NilDereference
           | Some lm \<Rightarrow>
               let tt' = TCPTable_Update tt routes in
               case Reconcile (wd_openPort wd) (wd_iterPorts wd) (lm\<lparr>lm_metrics := cr_metrics cr\<rparr>) (TCPTable_Ports tt') of
                 (lm', stopped, err) \<Rightarrow>
                   Inr (cr\<lparr>cr_tcpTable := Some tt', cr_tcpListeners := Some lm',
                           cr_metrics := (if err \<noteq> None then IncReconcileError (lm_metrics lm') else lm_metrics lm')\<rparr>, stopped)))"

text \<open>What the callback leaves: the router, the disk, the registration sent to the agent and the listeners stopped.\<close>

record outcome =
  oc_router :: ConsulRouter
  oc_disk :: disk
  oc_registration :: "AgentServiceRegistration option"
  oc_stopped :: "tcpListener list"

definition publish ::
  "world \<Rightarrow> CompiledConfig \<Rightarrow> (string, ServiceState) gomap \<Rightarrow> AgentServiceRegistration option \<Rightarrow> ConsulRouter \<times> disk \<Rightarrow> outcome go" where
  "publish wd compiled allServices reg st =
     (case st of (cr, d) \<Rightarrow>
        (case (cr_routeTable cr, cr_stateMgr cr) of
           (Some rt, Some sm) \<Rightarrow>
             (case publish_http (wd_hash wd) (cc_HTTPRoutes compiled) (rt, sm) of (rt', sm1) \<Rightarrow>
                let sm2 = persist_state cr compiled allServices sm1;
                    d' = Save (wd_write wd) sm2 d
                in go_bind (publish_tcp wd (cc_TCPRoutes compiled) (cr\<lparr>cr_routeTable := Some rt', cr_stateMgr := Some sm2\<rparr>))
                     (\<lambda>(cr', stopped).
                        Inr \<lparr>oc_router = cr'\<lparr>cr_metrics := ObserveReconcile (wd_elapsed wd) (cr_metrics cr')\<rparr>,
                             oc_disk = d', oc_registration = reg, oc_stopped = stopped\<rparr>))
         | _ \<Rightarrow> Inl NilDereference))"

definition converge_routes ::
  "world \<Rightarrow> ConsulRouter \<Rightarrow> (string, ServiceState) gomap \<Rightarrow> RouteDefinition list list \<Rightarrow> RouteDefinition list" where
  "converge_routes wd cr allServices parsed =
     local_routes cr (assign_routes wd cr (local_connect_services cr parsed (connect_services cr allServices parsed)) (concat parsed))"

definition onServicesChanged ::
  "world \<Rightarrow> (string, ServiceState) gomap \<Rightarrow> ConsulRouter \<times> disk \<Rightarrow> outcome go option" where
  "onServicesChanged wd allServices st =
     (case st of (cr, d) \<Rightarrow>
        (case parse_services cr allServices of
           Inl p \<Rightarrow> Some (Inl p)
         | Inr parsed \<Rightarrow>
             (case sync_sidecar wd cr (local_connect_services cr parsed (connect_services cr allServices parsed)) of
                None \<Rightarrow> None
              | Some (um, reg) \<Rightarrow>
                  let allRoutes = converge_routes wd cr allServices parsed;
                      compiled = Compile (wd_sort wd) allRoutes;
                      m = converge_metrics allServices allRoutes compiled (IncDebounce (cr_metrics cr))
                  in Some (publish wd compiled allServices reg (cr\<lparr>cr_upstreamMgr := um, cr_metrics := m\<rparr>, d)))))"

lemmas [go_eval] = new_router_def serviceProxyEnabled_def connectProxyEnabled_def node_mode_def parse_services_def
  mark_connect_def connect_services_def local_connect_services_def sync_sidecar_def assign_route_def assign_routes_def
  local_routes_def conflict_name_def converge_metrics_def persist_state_def publish_http_def publish_tcp_def publish_def
  converge_routes_def onServicesChanged_def

subsection \<open>Life cycle\<close>

definition reservedTCPPorts :: "RouterConfig \<Rightarrow> (int, bool) gomap" where
  "reservedTCPPorts cfg =
     (let reserved = [(80, True), (443, True)] in
      case SplitHostPort (co_CaddyAdminAPI cfg) of
        None \<Rightarrow> reserved
      | Some (_, portStr) \<Rightarrow>
          (case Atoi portStr of
             None \<Rightarrow> reserved
           | Some p \<Rightarrow> if p > 0 then AList.update p True reserved else reserved))"

text \<open>The environment of \<open>Provision\<close>: environment variables, host name, default data directory, \<open>time.ParseDuration\<close>, the
  error of creating the Consul client, the node name in the agent's answer to \<open>Self\<close> (or its error), the state file.\<close>

record provision_env =
  pe_env :: "string \<Rightarrow> string"
  pe_hostname :: "string option"
  pe_dataDir :: string
  pe_parseDuration :: "string \<Rightarrow> int option"
  pe_client :: "string option"
  pe_self :: "string + string option"
  pe_disk :: disk

datatype provision_error =
    InvalidConfiguration config_error
  | InvalidNoCache status_error
  | ClientFailed string
  | SelfFailed string
  | EmptyNodeName

definition provision_matcher :: "RouterConfig \<Rightarrow> provision_error + StatusMatcher option" where
  "provision_matcher cfg =
     (if co_NoCacheStatus cfg = [] then Inr None
      else case ParseStatusMatcher (co_NoCacheStatus cfg) of Inl err \<Rightarrow> Inl (InvalidNoCache err) | Inr matcher \<Rightarrow> Inr matcher)"

definition provision_node :: "provision_env \<Rightarrow> RouterConfig \<Rightarrow> provision_error + string" where
  "provision_node pe cfg =
     (if co_L4Mode cfg \<noteq> ''node'' then Inr []
      else if co_L4NodeHostname cfg \<noteq> [] then Inr (co_L4NodeHostname cfg)
      else case pe_self pe of
             Inl err \<Rightarrow> Inl (SelfFailed err)
           | Inr None \<Rightarrow> Inl EmptyNodeName
           | Inr (Some nodeName) \<Rightarrow> if nodeName = [] then Inl EmptyNodeName else Inr nodeName)"

text \<open>The service discovery components, with the tables warmed from the state file.\<close>

definition provision_discovery :: "provision_env \<Rightarrow> ConsulRouter \<Rightarrow> ConsulRouter" where
  "provision_discovery pe cr =
     (let cfg = cr_config cr;
          sm = Load (pe_disk pe) newStateManager;
          rt = (if HTTPRoutes sm \<noteq> [] then Update NewRouteTable (HTTPRoutes sm) else NewRouteTable);
          tt = (if TCPRoutes sm \<noteq> [] then TCPTable_Update NewTCPTable (TCPRoutes sm) else NewTCPTable)
      in cr\<lparr>cr_routeTable := Some rt, cr_stateMgr := Some sm, cr_tcpTable := Some tt,
            cr_tcpListeners := Some (NewTCPListenerManager (cr_metrics cr) (parsed_duration (pe_parseDuration pe) (co_TCPDrain cfg)) (Some (reservedTCPPorts cfg))),
            cr_watcher := Some (NewConsulWatcher (parsedHealthPolicy cfg) (co_ServiceTag cfg) (co_ConnectTag cfg))\<rparr>)"

definition provision_connect :: "ConsulRouter \<Rightarrow> ConsulRouter" where
  "provision_connect cr =
     (let cfg = cr_config cr;
          um = NewUpstreamManager (co_ConnectServiceName cfg) (co_ConnectPortStart cfg) (co_ConnectPortEnd cfg);
          um' = (case cr_stateMgr cr of
                   None \<Rightarrow> um
                 | Some sm \<Rightarrow> if UpstreamAllocations sm \<noteq> [] then RestoreAllocations um (UpstreamAllocations sm) else um)
      in cr\<lparr>cr_sidecarResolver := Some (NewSidecarResolver (co_ConnectServiceName cfg)), cr_upstreamMgr := Some um',
            cr_registrar := (if boolVal (co_ConnectAutoRegister cfg)
                             then Some (NewServiceRegistrar (co_ConnectServiceName cfg)) else None)\<rparr>)"

text \<open>The result also has the global collector, which outlives the router.\<close>

definition Provision :: "provision_env \<Rightarrow> metrics \<Rightarrow> RouterConfig \<Rightarrow> provision_error + ConsulRouter \<times> metrics" where
  "Provision pe globalMetrics cfg0 =
     (let cfg = applyDefaults (pe_env pe) (pe_hostname pe) (pe_dataDir pe) cfg0 in
      case validate (pe_parseDuration pe) cfg of
        Some err \<Rightarrow> Inl (InvalidConfiguration err)
      | None \<Rightarrow>
          (case provision_matcher cfg of
             Inl err \<Rightarrow> Inl err
           | Inr matcher \<Rightarrow>
               (case (if co_Metrics cfg \<noteq> [] then map_prod Some id (GetOrCreateGlobalMetrics globalMetrics) else (None, globalMetrics)) of
                  (metrics, globalMetrics') \<Rightarrow>
                    (case pe_client pe of
                       Some err \<Rightarrow> Inl (ClientFailed err)
                     | None \<Rightarrow>
                         (case provision_node pe cfg of
                            Inl err \<Rightarrow> Inl err
                          | Inr nodeName \<Rightarrow>
                              let cr = (new_router cfg)\<lparr>cr_noCacheMatcher := matcher, cr_metrics := metrics, cr_nodeName := nodeName\<rparr>;
                                  cr1 = (if serviceProxyEnabled cr \<or> connectProxyEnabled cr then provision_discovery pe cr else cr);
                                  cr2 = (if connectProxyEnabled cr1 then provision_connect cr1 else cr1)
                              in Inr (cr2, globalMetrics'))))))"

definition start_listeners :: "world \<Rightarrow> ConsulRouter \<Rightarrow> (ConsulRouter \<times> tcpListener list) go" where
  "start_listeners wd cr =
     (case cr_tcpListeners cr of
        None \<Rightarrow> Inr (cr, [])
      | Some lm \<Rightarrow>
          (case cr_tcpTable cr of
             None \<Rightarrow> Inl NilDereference
           | Some tt \<Rightarrow>
               if TCPTable_Ports tt = [] then Inr (cr, [])
               else (case Reconcile (wd_openPort wd) (wd_iterPorts wd) (lm\<lparr>lm_metrics := cr_metrics cr\<rparr>) (TCPTable_Ports tt) of
                       (lm', stopped, err) \<Rightarrow> Inr (cr\<lparr>cr_tcpListeners := Some lm', cr_metrics := lm_metrics lm'\<rparr>, stopped))))"

definition start_watcher :: "ConsulRouter \<Rightarrow> ConsulRouter" where
  "start_watcher cr =
     (case (cr_watcher cr, cr_stateMgr cr) of
        (Some w, Some sm) \<Rightarrow>
          if CatalogIndex sm > 0 \<and> ServiceStates sm \<noteq> []
          then cr\<lparr>cr_watcher := Some (RestoreState w (CatalogIndex sm) (HealthStateIndex sm) (ServiceStates sm) (PersistedPassingChecks sm))\<rparr>
          else cr
      | _ \<Rightarrow> cr)"

definition Start :: "world \<Rightarrow> ConsulRouter \<Rightarrow> ConsulRouter go" where
  "Start wd cr =
     go_bind (start_listeners wd (cr\<lparr>cr_registrar := map_option Registrar_Start (cr_registrar cr)\<rparr>))
       (\<lambda>(cr', _). Inr (start_watcher cr'))"

text \<open>\<open>Cleanup\<close> is \<open>Stop\<close>. The second component are the listeners closed.\<close>

definition Stop :: "ConsulRouter \<Rightarrow> ConsulRouter \<times> tcpListener list" where
  "Stop cr =
     (let cr1 = cr\<lparr>cr_watcher := map_option Watcher_Stop (cr_watcher cr), cr_registrar := map_option Registrar_Stop (cr_registrar cr)\<rparr>
      in case cr_tcpListeners cr1 of
           None \<Rightarrow> (cr1, [])
         | Some lm \<Rightarrow> (case Close lm of (lm', stopped) \<Rightarrow> (cr1\<lparr>cr_tcpListeners := Some lm'\<rparr>, stopped)))"

definition Cleanup :: "ConsulRouter \<Rightarrow> ConsulRouter \<times> tcpListener list" where
  "Cleanup cr = Stop cr"

lemmas [go_eval] = reservedTCPPorts_def provision_matcher_def provision_node_def provision_discovery_def provision_connect_def
  Provision_def start_listeners_def start_watcher_def Start_def Stop_def Cleanup_def

text \<open>The code counts the HTTP routes before the routes are filtered by node; the filter drops none of them.\<close>

lemma http_routes_unfiltered: "filter is_http (local_routes cr routes) = filter is_http routes"
  by (auto simp: local_routes_def FilterTCPRoutesByNode_def is_http_def filter_filter intro!: filter_cong)

end
