(* ===== verification/Router_Proofs.thy ===== *)
theory Router_Proofs
  imports Router
begin

text \<open>
  The correctness of the router app: what a callback publishes, that it returns, and what survives a reload of the
  configuration, for every instance that a process can reach.
\<close>

subsection \<open>What a callback publishes\<close>

text \<open>A router whose discovery components have been built.\<close>

definition wired :: "ConsulRouter \<Rightarrow> bool" where
  "wired cr \<longleftrightarrow> cr_routeTable cr \<noteq> None \<and> cr_stateMgr cr \<noteq> None \<and> cr_tcpTable cr \<noteq> None \<and> cr_watcher cr \<noteq> None \<and>
     (case cr_tcpListeners cr of None \<Rightarrow> False | Some lm \<Rightarrow> gomap_ok (lm_active lm))"

definition http_table :: "ConsulRouter \<Rightarrow> CompiledHTTPRoute list" where
  "http_table cr = (case cr_routeTable cr of None \<Rightarrow> [] | Some rt \<Rightarrow> Routes rt)"

definition state_of :: "ConsulRouter \<Rightarrow> persistedState" where
  "state_of cr = (case cr_stateMgr cr of None \<Rightarrow> empty_state | Some sm \<Rightarrow> sm_state sm)"

definition active_of :: "ConsulRouter \<Rightarrow> (int, tcpListener) gomap" where
  "active_of cr = (case cr_tcpListeners cr of None \<Rightarrow> [] | Some lm \<Rightarrow> lm_active lm)"

definition reserved_of :: "ConsulRouter \<Rightarrow> (int, bool) gomap" where
  "reserved_of cr = (case cr_tcpListeners cr of None \<Rightarrow> [] | Some lm \<Rightarrow> lm_reserved lm)"

definition iter_ok :: "world \<Rightarrow> bool" where
  "iter_ok wd \<longleftrightarrow> (\<forall>m. mset (wd_iterPorts wd m) = mset m) \<and> (\<forall>m. mset (wd_iterServices wd m) = mset m)"

lemmas view_defs = http_table_def state_of_def active_of_def reserved_of_def

lemma persist_state_fields:
  "ps_HTTPRoutes (sm_state (persist_state cr c svcs sm)) = cc_HTTPRoutes c"
  "ps_TCPRoutes (sm_state (persist_state cr c svcs sm)) = cc_TCPRoutes c"
  "ps_Services (sm_state (persist_state cr c svcs sm)) = svcs"
  "ps_HTTPRouteHash (sm_state (persist_state cr c svcs sm)) = ps_HTTPRouteHash (sm_state sm)"
  "cr_upstreamMgr cr = Some um \<Longrightarrow> ps_UpstreamAllocations (sm_state (persist_state cr c svcs sm)) = Allocations um"
  "cr_watcher cr = Some w \<Longrightarrow> ps_CatalogIndex (sm_state (persist_state cr c svcs sm)) = w_catalogIndex w"
  "cr_watcher cr = Some w \<Longrightarrow> ps_HealthStateIndex (sm_state (persist_state cr c svcs sm)) = w_healthStateIndex w"
  "cr_watcher cr = Some w \<Longrightarrow> ps_PassingChecks (sm_state (persist_state cr c svcs sm)) = PassingChecks w"
  by (simp_all add: persist_state_def state_setters Let_def split: option.split)

lemma publish_http_table:
  assumes "publish_http hash routes (rt, sm) = (rt', sm')"
  shows "Routes rt' = (if hash routes = HTTPRouteHash sm then Routes rt else routes)"
    and "HTTPRouteHash sm' = hash routes"
  using assms by (auto simp: publish_http_def Let_def Update_def Routes_def SetHTTPRouteHash_def split: if_splits)

lemma publish_tcp_tables:
  assumes "cr_tcpTable cr = Some tt" "cr_tcpListeners cr = Some lm" "gomap_ok (lm_active lm)"
    and iter: "\<And>m. mset (wd_iterPorts wd m) = mset m"
  shows "\<exists>cr' stopped. publish_tcp wd routes cr = Inr (cr', stopped) \<and>
    cr_tcpTable cr' = Some (TCPTable_Update tt routes) \<and>
    cr' = cr\<lparr>cr_tcpTable := cr_tcpTable cr', cr_tcpListeners := cr_tcpListeners cr', cr_metrics := cr_metrics cr'\<rparr> \<and>
    cr_tcpListeners cr' \<noteq> None \<and> gomap_ok (active_of cr') \<and> reserved_of cr' = lm_reserved lm \<and>
    (\<forall>p. map_of (active_of cr') p =
       (if p \<notin> ct_Port ` set routes \<or> get_or False (lm_reserved lm) p then None
        else case map_of (lm_active lm) p of
               Some l \<Rightarrow> Some l
             | None \<Rightarrow> (case wd_openPort wd p of Inl _ \<Rightarrow> None | Inr ln \<Rightarrow> Some \<lparr>tl_port = p, tl_ln = ln\<rparr>)))"
proof -
  let ?tt = "TCPTable_Update tt routes" and ?lm = "lm\<lparr>lm_metrics := cr_metrics cr\<rparr>"
  obtain lm' stopped err where r: "Reconcile (wd_openPort wd) (wd_iterPorts wd) ?lm (TCPTable_Ports ?tt) = (lm', stopped, err)"
    using prod_cases3 by blast
  note a = Reconcile_active [OF _ iter r]
  have w: "wanted ?lm (TCPTable_Ports ?tt) p \<longleftrightarrow> p \<in> ct_Port ` set routes \<and> \<not> get_or False (lm_reserved lm) p" for p
    using Ports_Update(1) [of tt routes] by (simp add: wanted_def)
  have "map_of (lm_active lm') p =
       (if p \<notin> ct_Port ` set routes \<or> get_or False (lm_reserved lm) p then None
        else case map_of (lm_active lm) p of
               Some l \<Rightarrow> Some l
             | None \<Rightarrow> (case wd_openPort wd p of Inl _ \<Rightarrow> None | Inr ln \<Rightarrow> Some \<lparr>tl_port = p, tl_ln = ln\<rparr>))" for p
    using a(1) [of p] assms(3) unfolding w by simp
  with r a(4,5) assms show ?thesis by (simp add: publish_tcp_def Let_def active_of_def reserved_of_def)
qed

lemma view_irrelevant [simp]:
  "http_table (cr\<lparr>cr_metrics := m\<rparr>) = http_table cr" "state_of (cr\<lparr>cr_metrics := m\<rparr>) = state_of cr"
  "active_of (cr\<lparr>cr_metrics := m\<rparr>) = active_of cr" "reserved_of (cr\<lparr>cr_metrics := m\<rparr>) = reserved_of cr"
  "wired (cr\<lparr>cr_metrics := m\<rparr>) = wired cr"
  "http_table (cr\<lparr>cr_upstreamMgr := u\<rparr>) = http_table cr" "state_of (cr\<lparr>cr_upstreamMgr := u\<rparr>) = state_of cr"
  "active_of (cr\<lparr>cr_upstreamMgr := u\<rparr>) = active_of cr" "reserved_of (cr\<lparr>cr_upstreamMgr := u\<rparr>) = reserved_of cr"
  "wired (cr\<lparr>cr_upstreamMgr := u\<rparr>) = wired cr"
  "http_table (cr\<lparr>cr_watcher := w\<rparr>) = http_table cr" "state_of (cr\<lparr>cr_watcher := w\<rparr>) = state_of cr"
  "http_table (cr\<lparr>cr_registrar := x\<rparr>) = http_table cr" "state_of (cr\<lparr>cr_registrar := x\<rparr>) = state_of cr"
  "active_of (cr\<lparr>cr_registrar := x\<rparr>) = active_of cr" "reserved_of (cr\<lparr>cr_registrar := x\<rparr>) = reserved_of cr"
  "wired (cr\<lparr>cr_registrar := x\<rparr>) = wired cr" "wired cr \<Longrightarrow> wired (cr\<lparr>cr_watcher := Some y\<rparr>)"
  by (simp_all add: view_defs wired_def)

text \<open>Everything one call of \<open>publish\<close> does to a wired router.\<close>

lemma publish_wired:
  assumes "wired cr" and iter: "iter_ok wd"
  shows "\<exists>oc. publish wd c svcs reg (cr, d) = Inr oc \<and> oc_registration oc = reg \<and> wired (oc_router oc) \<and>
    cr_config (oc_router oc) = cr_config cr \<and> cr_nodeName (oc_router oc) = cr_nodeName cr \<and>
    cr_upstreamMgr (oc_router oc) = cr_upstreamMgr cr \<and> cr_watcher (oc_router oc) = cr_watcher cr \<and>
    cr_sidecarResolver (oc_router oc) = cr_sidecarResolver cr \<and>
    http_table (oc_router oc) =
      (if wd_hash wd (cc_HTTPRoutes c) = ps_HTTPRouteHash (state_of cr) then http_table cr else cc_HTTPRoutes c) \<and>
    ps_HTTPRouteHash (state_of (oc_router oc)) = wd_hash wd (cc_HTTPRoutes c) \<and>
    ps_HTTPRoutes (state_of (oc_router oc)) = cc_HTTPRoutes c \<and> ps_TCPRoutes (state_of (oc_router oc)) = cc_TCPRoutes c \<and>
    ps_Services (state_of (oc_router oc)) = svcs \<and>
    oc_disk oc = Save (wd_write wd) \<lparr>sm_state = state_of (oc_router oc)\<rparr> d \<and>
    cr_tcpTable (oc_router oc) = Some (TCPTable_Update NewTCPTable (cc_TCPRoutes c)) \<and>
    reserved_of (oc_router oc) = reserved_of cr \<and>
    (\<forall>p. map_of (active_of (oc_router oc)) p =
       (if p \<notin> ct_Port ` set (cc_TCPRoutes c) \<or> get_or False (reserved_of cr) p then None
        else case map_of (active_of cr) p of
               Some l \<Rightarrow> Some l
             | None \<Rightarrow> (case wd_openPort wd p of Inl _ \<Rightarrow> None | Inr ln \<Rightarrow> Some \<lparr>tl_port = p, tl_ln = ln\<rparr>)))"
proof -
  from assms(1) obtain rt sm tt lm w where f: "cr_routeTable cr = Some rt" "cr_stateMgr cr = Some sm" "cr_tcpTable cr = Some tt"
    "cr_tcpListeners cr = Some lm" "cr_watcher cr = Some w" "gomap_ok (lm_active lm)"
    by (auto simp: wired_def split: option.splits)
  obtain rt' sm1 where ph: "publish_http (wd_hash wd) (cc_HTTPRoutes c) (rt, sm) = (rt', sm1)" by fastforce
  let ?sm = "persist_state cr c svcs sm1"
  let ?cr = "cr\<lparr>cr_routeTable := Some rt', cr_stateMgr := Some ?sm\<rparr>"
  have "cr_tcpTable ?cr = Some tt" "cr_tcpListeners ?cr = Some lm" by (simp_all add: f)
  from publish_tcp_tables [OF this f(6), of wd "cc_TCPRoutes c"] iter obtain cr' stopped where
    t: "publish_tcp wd (cc_TCPRoutes c) ?cr = Inr (cr', stopped)" "cr_tcpTable cr' = Some (TCPTable_Update tt (cc_TCPRoutes c))"
    and eq: "cr' = ?cr\<lparr>cr_tcpTable := cr_tcpTable cr', cr_tcpListeners := cr_tcpListeners cr', cr_metrics := cr_metrics cr'\<rparr>"
    and l: "cr_tcpListeners cr' \<noteq> None" "gomap_ok (active_of cr')" "reserved_of cr' = lm_reserved lm"
    and act: "\<forall>p. map_of (active_of cr') p =
       (if p \<notin> ct_Port ` set (cc_TCPRoutes c) \<or> get_or False (lm_reserved lm) p then None
        else case map_of (lm_active lm) p of
               Some l \<Rightarrow> Some l
             | None \<Rightarrow> (case wd_openPort wd p of Inl _ \<Rightarrow> None | Inr ln \<Rightarrow> Some \<lparr>tl_port = p, tl_ln = ln\<rparr>))"
    unfolding iter_ok_def by metis
  have fields: "cr_routeTable cr' = Some rt'" "cr_stateMgr cr' = Some ?sm" "cr_config cr' = cr_config cr" "cr_nodeName cr' = cr_nodeName cr"
    "cr_upstreamMgr cr' = cr_upstreamMgr cr" "cr_watcher cr' = cr_watcher cr" "cr_sidecarResolver cr' = cr_sidecarResolver cr"
    by (subst eq, simp)+
  have sm: "Save (wd_write wd) \<lparr>sm_state = sm_state ?sm\<rparr> d = Save (wd_write wd) ?sm d" by (simp add: Save_def split: write_result.split)
  have tt: "TCPTable_Update tt rs = TCPTable_Update NewTCPTable rs" for rs
    by (simp add: TCPTable_Update_def NewTCPTable_def)
  from l fields t(2) have "wired cr'" using f by (auto simp: wired_def active_of_def)
  moreover have "active_of cr = lm_active lm" "reserved_of cr = lm_reserved lm" "state_of cr = sm_state sm" "http_table cr = Routes rt"
    using f by (simp_all add: view_defs)
  moreover have "http_table cr' = Routes rt'" "state_of cr' = sm_state ?sm" using fields by (simp_all add: view_defs)
  moreover have "publish wd c svcs reg (cr, d) = Inr \<lparr>oc_router = cr'\<lparr>cr_metrics := ObserveReconcile (wd_elapsed wd) (cr_metrics cr')\<rparr>,
      oc_disk = Save (wd_write wd) ?sm d, oc_registration = reg, oc_stopped = stopped\<rparr>"
    using ph t f by (simp add: publish_def Let_def)
  ultimately show ?thesis
    using t(2) fields l act publish_http_table [OF ph] tt sm by (simp add: persist_state_fields)
qed

text \<open>The routes that a callback compiles.\<close>

definition compiled_for :: "world \<Rightarrow> ConsulRouter \<Rightarrow> (string, ServiceState) gomap \<Rightarrow> CompiledConfig option" where
  "compiled_for wd cr svcs =
     (case parse_services cr svcs of Inl _ \<Rightarrow> None | Inr parsed \<Rightarrow> Some (Compile (wd_sort wd) (converge_routes wd cr svcs parsed)))"

text \<open>The callback is \<open>publish\<close> on those routes, once the sidecar is synchronised.\<close>

lemma onServicesChanged_cases:
  "onServicesChanged wd svcs (cr, d) =
     (case compiled_for wd cr svcs of
        None \<Rightarrow> (case parse_services cr svcs of Inl p \<Rightarrow> Some (Inl p) | Inr _ \<Rightarrow> None)
      | Some c \<Rightarrow>
          (case parse_services cr svcs of
             Inl p \<Rightarrow> None
           | Inr parsed \<Rightarrow>
             (case sync_sidecar wd cr (local_connect_services cr parsed (connect_services cr svcs parsed)) of
                None \<Rightarrow> None
              | Some (um, reg) \<Rightarrow>
                  Some (publish wd c svcs reg (cr\<lparr>cr_upstreamMgr := um, cr_metrics :=
                    converge_metrics svcs (converge_routes wd cr svcs parsed) c (IncDebounce (cr_metrics cr))\<rparr>, d)))))"
  by (auto simp: onServicesChanged_def compiled_for_def Let_def split: sum.split option.split)

subsection \<open>The callback returns\<close>

lemma mark_connect_ok:
  "gomap_ok m \<Longrightarrow> gomap_ok (mark_connect m routes)"
  "keys (mark_connect m routes) = keys m \<union> rd_ServiceName ` {r \<in> set routes. \<not> IsRedirect r}"
proof -
  show "gomap_ok m \<Longrightarrow> gomap_ok (mark_connect m routes)"
    by (induction routes arbitrary: m) (simp_all add: mark_connect_def)
  show "keys (mark_connect m routes) = keys m \<union> rd_ServiceName ` {r \<in> set routes. \<not> IsRedirect r}"
    by (induction routes arbitrary: m) (auto simp: mark_connect_def dom_update)
qed

lemma connect_services_ok: "gomap_ok (connect_services cr svcs parsed)"
proof -
  have "gomap_ok m \<Longrightarrow> gomap_ok (foldl (\<lambda>m ((_, svc), routes). if P svc then mark_connect m routes else m) m xs)" for m P
    and xs :: "((string \<times> ServiceState) \<times> RouteDefinition list) list"
    by (induction xs arbitrary: m) (auto simp: mark_connect_ok(1) split: prod.split)
  then show ?thesis by (simp add: connect_services_def)
qed

lemma local_connect_services_ok: "gomap_ok m \<Longrightarrow> gomap_ok (local_connect_services cr parsed m)"
  by (auto simp: local_connect_services_def distinct_map intro: inj_on_subset)

lemma sync_sidecar_total:
  assumes "\<And>um. cr_upstreamMgr cr = Some um \<Longrightarrow> range_ok um" "iter_ok wd" "gomap_ok m"
  shows "\<exists>um reg. sync_sidecar wd cr m = Some (um, reg)"
proof (cases "cr_upstreamMgr cr")
  case (Some um)
  have "mset (map fst (wd_iterServices wd m)) = mset (map fst m)" using assms(2) by (simp add: iter_ok_def)
  with assms(3) have "gomap_ok (wd_iterServices wd m)" using mset_eq_imp_distinct_iff by blast
  from SyncUpstreams_total [OF assms(1) [OF Some] this, of "wd_service wd" "wd_register wd"] Some show ?thesis
    by (auto simp: sync_sidecar_def)
qed (simp add: sync_sidecar_def)

lemma parse_services_panics:
  "(\<exists>p. parse_services cr svcs = Inl p) \<longleftrightarrow>
   (\<exists>(n, s) \<in> set svcs. \<exists>inst \<in> set (ss_Instances s).
      si_Healthy inst \<and> si_Address inst \<noteq> [] \<and> (\<exists>t \<in> set (si_Tags inst). blank_tag t))"
  unfolding parse_services_def go_mapM_panics by (auto simp: ParseServiceRoutes_panics split: prod.splits)

lemma onServicesChanged_Inr:
  assumes "wired cr" "iter_ok wd" "onServicesChanged wd svcs (cr, d) = Some (Inr oc)"
  shows "\<exists>c um reg m. compiled_for wd cr svcs = Some c \<and>
    publish wd c svcs reg (cr\<lparr>cr_upstreamMgr := um, cr_metrics := m\<rparr>, d) = Inr oc"
  using assms(3) by (auto simp: onServicesChanged_cases split: option.splits sum.splits)

subsection \<open>Instances, reloads and the shared state file\<close>

text \<open>
  The hash kept in the state stands for the published HTTP routes, and the one in the state file for the routes saved with
  it. \<open>S\<close> is the set of route lists that occur, closed under writing and reading back.
\<close>

definition routes_closed :: "CompiledHTTPRoute list set \<Rightarrow> bool" where
  "routes_closed S \<longleftrightarrow> [] \<in> S \<and> (\<forall>rs \<in> S. map json_route rs \<in> S)"

definition hash_for :: "(CompiledHTTPRoute list \<Rightarrow> string) \<Rightarrow> string \<Rightarrow> CompiledHTTPRoute list \<Rightarrow> bool" where
  "hash_for hash h rs \<longleftrightarrow> h = [] \<or> h = hash rs"

definition disk_synced :: "(CompiledHTTPRoute list \<Rightarrow> string) \<Rightarrow> CompiledHTTPRoute list set \<Rightarrow> disk \<Rightarrow> bool" where
  "disk_synced hash S d \<longleftrightarrow>
     (case d of Document s \<Rightarrow> ps_HTTPRoutes s \<in> S \<and> hash_for hash (ps_HTTPRouteHash s) (ps_HTTPRoutes s) | _ \<Rightarrow> True)"

definition router_synced :: "(CompiledHTTPRoute list \<Rightarrow> string) \<Rightarrow> CompiledHTTPRoute list set \<Rightarrow> ConsulRouter \<Rightarrow> bool" where
  "router_synced hash S cr \<longleftrightarrow>
     wired cr \<and> http_table cr \<in> S \<and> hash_for hash (ps_HTTPRouteHash (state_of cr)) (http_table cr)"

text \<open>
  Every instance of the app that a process can reach, with the state file it shares with the others. During a reload the old and
  the new instance are alive together, in any order of their steps: \<open>rs_other\<close> lets any other instance's write of the file
  come in between. The watcher and the registrar run beside the app (\<open>rs_watcher\<close>, \<open>rs_registrar\<close>).
\<close>

inductive reachable ::
  "(CompiledHTTPRoute list \<Rightarrow> string) \<Rightarrow> CompiledHTTPRoute list set \<Rightarrow> ConsulRouter \<Rightarrow> disk \<Rightarrow> bool" for hash S where
  rs_boot: "\<lbrakk>Provision pe gm cfg = Inr (cr, gm'); pe_disk pe = NoFile; cr_routeTable cr \<noteq> None\<rbrakk> \<Longrightarrow> reachable hash S cr NoFile"
| rs_reload: "\<lbrakk>reachable hash S old d; Provision pe gm cfg = Inr (cr, gm'); pe_disk pe = d; cr_routeTable cr \<noteq> None\<rbrakk> \<Longrightarrow>
    reachable hash S cr d"
| rs_start: "\<lbrakk>reachable hash S cr d; iter_ok wd; Start wd cr = Inr cr'\<rbrakk> \<Longrightarrow> reachable hash S cr' d"
| rs_stop: "\<lbrakk>reachable hash S cr d; Stop cr = (cr', ls)\<rbrakk> \<Longrightarrow> reachable hash S cr' d"
| rs_watcher: "reachable hash S cr d \<Longrightarrow> reachable hash S (cr\<lparr>cr_watcher := Some w\<rparr>) d"
| rs_registrar: "reachable hash S cr d \<Longrightarrow> reachable hash S (cr\<lparr>cr_registrar := sr\<rparr>) d"
| rs_callback: "\<lbrakk>reachable hash S cr d; iter_ok wd; wd_hash wd = hash; compiled_for wd cr svcs = Some c; cc_HTTPRoutes c \<in> S;
    onServicesChanged wd svcs (cr, d) = Some (Inr oc)\<rbrakk> \<Longrightarrow> reachable hash S (oc_router oc) (oc_disk oc)"
| rs_other: "\<lbrakk>reachable hash S cr d; reachable hash S cr' d'\<rbrakk> \<Longrightarrow> reachable hash S cr d'"

inductive_cases reachableE: "reachable hash S cr d"

lemma hash_for_json: "route_hash hash S \<Longrightarrow> hash_for hash (hash rs) (map json_route rs)"
  using same_json_json [of rs] by (simp add: route_hash_def hash_for_def)

lemma disk_synced_Save:
  assumes "route_hash hash S" "routes_closed S" "disk_synced hash S d"
    and "ps_HTTPRoutes (sm_state sm) \<in> S" "ps_HTTPRouteHash (sm_state sm) = hash (ps_HTTPRoutes (sm_state sm))"
  shows "disk_synced hash S (Save wr sm d)"
  using assms hash_for_json [OF assms(1), of "ps_HTTPRoutes (sm_state sm)"]
  by (simp add: Save_def disk_synced_def json_state_def routes_closed_def split: write_result.split)

lemma publish_synced:
  assumes "route_hash hash S" "routes_closed S" "router_synced hash S cr" "disk_synced hash S d" "iter_ok wd" "wd_hash wd = hash"
    and "cc_HTTPRoutes c \<in> S" "publish wd c svcs reg (cr, d) = Inr oc"
  shows "router_synced hash S (oc_router oc)" "disk_synced hash S (oc_disk oc)" "same_json (http_table (oc_router oc)) (cc_HTTPRoutes c)"
proof -
  have w: "wired cr" using assms(3) by (simp add: router_synced_def)
  from publish_wired [OF w assms(5), of c svcs reg d] assms(6,8) have
    t: "http_table (oc_router oc) = (if hash (cc_HTTPRoutes c) = ps_HTTPRouteHash (state_of cr) then http_table cr else cc_HTTPRoutes c)"
    and h: "ps_HTTPRouteHash (state_of (oc_router oc)) = hash (cc_HTTPRoutes c)" and w': "wired (oc_router oc)"
    and r: "ps_HTTPRoutes (state_of (oc_router oc)) = cc_HTTPRoutes c"
    and d: "oc_disk oc = Save (wd_write wd) \<lparr>sm_state = state_of (oc_router oc)\<rparr> d" by auto
  show "disk_synced hash S (oc_disk oc)"
    unfolding d using assms(7) h r by (intro disk_synced_Save [OF assms(1,2,4)]) simp_all
  have nonempty: "hash rs \<noteq> []" for rs using assms(1) by (simp add: route_hash_def)
  have s: "same_json (http_table (oc_router oc)) (cc_HTTPRoutes c)"
  proof (cases "hash (cc_HTTPRoutes c) = ps_HTTPRouteHash (state_of cr)")
    case True
    from assms(3) have "http_table cr \<in> S" and hf: "hash_for hash (hash (cc_HTTPRoutes c)) (http_table cr)"
      unfolding True router_synced_def by simp_all
    from hf nonempty [of "cc_HTTPRoutes c"] have "hash (cc_HTTPRoutes c) = hash (http_table cr)" unfolding hash_for_def by blast
    moreover have "http_table (oc_router oc) = http_table cr" unfolding t using True by (rule if_P)
    ultimately show ?thesis using assms(1,7) \<open>http_table cr \<in> S\<close> unfolding route_hash_def by metis
  qed (simp add: t same_json_refl)
  then show "same_json (http_table (oc_router oc)) (cc_HTTPRoutes c)" .
  from s assms(1) have "hash (http_table (oc_router oc)) = hash (cc_HTTPRoutes c)" by (simp add: route_hash_def)
  moreover have "http_table (oc_router oc) \<in> S" using assms(3,7) t by (auto simp: router_synced_def)
  ultimately show "router_synced hash S (oc_router oc)" using w' h by (simp add: router_synced_def hash_for_def)
qed

lemma Load_state: "sm_state (Load d newStateManager) = (case d of Document s \<Rightarrow> s | _ \<Rightarrow> empty_state)"
  by (simp add: Load_def newStateManager_def split: disk.split)

lemma view_discovery:
  fixes pe cr defines "s \<equiv> sm_state (Load (pe_disk pe) newStateManager)"
  shows "wired (provision_discovery pe cr)" "http_table (provision_discovery pe cr) = ps_HTTPRoutes s"
    "state_of (provision_discovery pe cr) = s" "active_of (provision_discovery pe cr) = []"
    "cr_tcpTable (provision_discovery pe cr) = Some (TCPTable_Update NewTCPTable (ps_TCPRoutes s))"
    "reserved_of (provision_discovery pe cr) = reservedTCPPorts (cr_config cr)"
    "cr_config (provision_discovery pe cr) = cr_config cr" "cr_nodeName (provision_discovery pe cr) = cr_nodeName cr"
  by (auto simp: s_def provision_discovery_def Let_def wired_def view_defs NewTCPListenerManager_def Update_def NewRouteTable_def
      Routes_def TCPTable_Update_def NewTCPTable_def)

lemma view_connect [simp]:
  "http_table (provision_connect cr) = http_table cr" "state_of (provision_connect cr) = state_of cr"
  "active_of (provision_connect cr) = active_of cr" "reserved_of (provision_connect cr) = reserved_of cr"
  "wired (provision_connect cr) = wired cr" "cr_tcpTable (provision_connect cr) = cr_tcpTable cr"
  "cr_config (provision_connect cr) = cr_config cr" "cr_routeTable (provision_connect cr) = cr_routeTable cr"
  by (simp_all add: provision_connect_def Let_def view_defs wired_def)

text \<open>A provisioned router with a route table is wired, and its tables are the ones of the state file.\<close>

lemma Provision_tables:
  assumes "Provision pe gm cfg = Inr (cr, gm')" "cr_routeTable cr \<noteq> None"
  shows "wired cr" "state_of cr = (case pe_disk pe of Document s \<Rightarrow> s | _ \<Rightarrow> empty_state)"
    "http_table cr = ps_HTTPRoutes (state_of cr)" "active_of cr = []"
    "cr_tcpTable cr = Some (TCPTable_Update NewTCPTable (ps_TCPRoutes (state_of cr)))"
    "cr_config cr = applyDefaults (pe_env pe) (pe_hostname pe) (pe_dataDir pe) cfg"
    "reserved_of cr = reservedTCPPorts (cr_config cr)"
proof -
  let ?cfg = "applyDefaults (pe_env pe) (pe_hostname pe) (pe_dataDir pe) cfg"
  from assms(1) obtain m mt nn where
    cr: "cr = (let cr0 = (new_router ?cfg)\<lparr>cr_noCacheMatcher := m, cr_metrics := mt, cr_nodeName := nn\<rparr>;
                   cr1 = (if serviceProxyEnabled cr0 \<or> connectProxyEnabled cr0 then provision_discovery pe cr0 else cr0)
               in if connectProxyEnabled cr1 then provision_connect cr1 else cr1)"
    by (auto simp: Provision_def Let_def split: option.splits sum.splits prod.splits)
  let ?cr0 = "(new_router ?cfg)\<lparr>cr_noCacheMatcher := m, cr_metrics := mt, cr_nodeName := nn\<rparr>"
  have off: "connectProxyEnabled (provision_discovery pe ?cr0) = connectProxyEnabled ?cr0"
    by (simp add: connectProxyEnabled_def view_discovery)
  have disc: "serviceProxyEnabled ?cr0 \<or> connectProxyEnabled ?cr0"
    using assms(2) by (auto simp: cr Let_def new_router_def split: if_splits)
  then have "cr = provision_discovery pe ?cr0 \<or> cr = provision_connect (provision_discovery pe ?cr0)"
    by (auto simp: cr Let_def off)
  then show "wired cr" "state_of cr = (case pe_disk pe of Document s \<Rightarrow> s | _ \<Rightarrow> empty_state)"
    "http_table cr = ps_HTTPRoutes (state_of cr)" "active_of cr = []"
    "cr_tcpTable cr = Some (TCPTable_Update NewTCPTable (ps_TCPRoutes (state_of cr)))"
    "cr_config cr = ?cfg" "reserved_of cr = reservedTCPPorts (cr_config cr)"
    by (auto simp: view_discovery Load_state new_router_def)
qed

lemma start_watcher_views [simp]:
  "http_table (start_watcher cr) = http_table cr" "state_of (start_watcher cr) = state_of cr"
  "active_of (start_watcher cr) = active_of cr" "reserved_of (start_watcher cr) = reserved_of cr"
  "wired (start_watcher cr) = wired cr" "cr_tcpTable (start_watcher cr) = cr_tcpTable cr"
  by (auto simp: start_watcher_def view_defs wired_def split: option.splits)

text \<open>\<open>Start\<close> of a wired router opens the listeners of its table and changes no table.\<close>

lemma Start_wired:
  assumes w: "wired cr" and iter: "iter_ok wd" and tt: "cr_tcpTable cr = Some tt"
  shows "\<exists>cr'. Start wd cr = Inr cr' \<and> wired cr' \<and> http_table cr' = http_table cr \<and> state_of cr' = state_of cr \<and>
    cr_tcpTable cr' = Some tt \<and> reserved_of cr' = reserved_of cr \<and>
    (TCPTable_Ports tt = [] \<longrightarrow> active_of cr' = active_of cr) \<and>
    (TCPTable_Ports tt \<noteq> [] \<longrightarrow> (\<forall>p. map_of (active_of cr') p =
       (if p \<notin> set (TCPTable_Ports tt) \<or> get_or False (reserved_of cr) p then None
        else case map_of (active_of cr) p of
               Some l \<Rightarrow> Some l
             | None \<Rightarrow> (case wd_openPort wd p of Inl _ \<Rightarrow> None | Inr ln \<Rightarrow> Some \<lparr>tl_port = p, tl_ln = ln\<rparr>))))"
proof -
  let ?cr = "cr\<lparr>cr_registrar := map_option Registrar_Start (cr_registrar cr)\<rparr>"
  from w obtain lm where lm: "cr_tcpListeners cr = Some lm" "gomap_ok (lm_active lm)"
    by (auto simp: wired_def split: option.splits)
  show ?thesis
  proof (cases "TCPTable_Ports tt = []")
    case True
    with tt lm have s: "Start wd cr = Inr (start_watcher ?cr)" by (simp add: Start_def start_listeners_def)
    show ?thesis unfolding s using True w tt by simp
  next
    case False
    let ?lm = "lm\<lparr>lm_metrics := cr_metrics cr\<rparr>"
    obtain lm' st err where r: "Reconcile (wd_openPort wd) (wd_iterPorts wd) ?lm (TCPTable_Ports tt) = (lm', st, err)"
      using prod_cases3 by blast
    let ?cr' = "?cr\<lparr>cr_tcpListeners := Some lm', cr_metrics := lm_metrics lm'\<rparr>"
    from False tt lm r have s: "Start wd cr = Inr (start_watcher ?cr')" by (simp add: Start_def start_listeners_def)
    have "\<And>m. mset (wd_iterPorts wd m) = mset m" using iter by (simp add: iter_ok_def)
    note a = Reconcile_active [OF _ this r]
    have "map_of (lm_active lm') p =
       (if p \<notin> set (TCPTable_Ports tt) \<or> get_or False (lm_reserved lm) p then None
        else case map_of (lm_active lm) p of
               Some l \<Rightarrow> Some l
             | None \<Rightarrow> (case wd_openPort wd p of Inl _ \<Rightarrow> None | Inr ln \<Rightarrow> Some \<lparr>tl_port = p, tl_ln = ln\<rparr>))" for p
      using a(1) [of p] lm(2) by (auto simp: wanted_def)
    moreover have "gomap_ok (lm_active lm')" "lm_reserved lm' = lm_reserved lm" using a(4,5) lm(2) by simp_all
    moreover have "http_table ?cr' = http_table cr" "state_of ?cr' = state_of cr" "active_of ?cr' = lm_active lm'"
      "active_of cr = lm_active lm" "reserved_of ?cr' = lm_reserved lm'" "reserved_of cr = lm_reserved lm"
      using lm by (simp_all add: view_defs)
    moreover have "wired ?cr'" using w calculation(2) by (simp add: wired_def)
    ultimately show ?thesis unfolding s using False tt by simp
  qed
qed

lemma Stop_views:
  assumes "Stop cr = (cr', ls)"
  shows "http_table cr' = http_table cr" "state_of cr' = state_of cr" "active_of cr' = []" "reserved_of cr' = reserved_of cr"
    "wired cr \<Longrightarrow> wired cr'" "cr_tcpTable cr' = cr_tcpTable cr" "cr_config cr' = cr_config cr"
  using assms by (auto simp: Stop_def Let_def Close_def view_defs wired_def split: option.splits)

lemma Provision_synced:
  assumes "routes_closed S" "disk_synced hash S (pe_disk pe)" "Provision pe gm cfg = Inr (cr, gm')" "cr_routeTable cr \<noteq> None"
  shows "router_synced hash S cr"
  using Provision_tables [OF assms(3,4)] assms(1,2)
  by (auto simp: router_synced_def disk_synced_def routes_closed_def hash_for_def empty_state_def split: disk.splits)

text \<open>The invariant: every reachable instance and the state file are in step with the hash they keep.\<close>

lemma reachable_synced:
  assumes "reachable hash S cr d" and h: "route_hash hash S" and c: "routes_closed S"
  shows "router_synced hash S cr \<and> disk_synced hash S d"
  using assms(1)
proof induction
  case (rs_boot pe gm cfg cr gm')
  then show ?case using Provision_synced [OF c, of hash pe] by (simp add: disk_synced_def)
next
  case (rs_reload old d pe gm cfg cr gm')
  then show ?case using Provision_synced [OF c, of hash pe] by auto
next
  case (rs_start cr d wd cr')
  then obtain tt where "cr_tcpTable cr = Some tt" "wired cr" by (auto simp: router_synced_def wired_def)
  from Start_wired [OF this(2) rs_start.hyps(2) this(1)] rs_start show ?case by (auto simp: router_synced_def)
next
  case (rs_stop cr d cr' ls)
  with Stop_views [OF rs_stop.hyps(2)] show ?case by (simp add: router_synced_def)
next
  case (rs_callback cr d wd svcs c oc)
  then have w: "wired cr" by (simp add: router_synced_def)
  from onServicesChanged_Inr [OF w rs_callback.hyps(2,6)] rs_callback.hyps(4) obtain um reg m where
    p: "publish wd c svcs reg (cr\<lparr>cr_upstreamMgr := um, cr_metrics := m\<rparr>, d) = Inr oc" by auto
  have "router_synced hash S (cr\<lparr>cr_upstreamMgr := um, cr_metrics := m\<rparr>)" using rs_callback.IH by (simp add: router_synced_def)
  with publish_synced [OF h \<open>routes_closed S\<close> this _ rs_callback.hyps(2,3,5) p] rs_callback.IH show ?case by blast
qed (auto simp: router_synced_def)

subsection \<open>Where upstreams come from\<close>

text \<open>The upstream that a sidecar entry stands for.\<close>

definition sidecar_upstream :: "consul_Upstream \<Rightarrow> Upstream" where
  "sidecar_upstream u =
     \<lparr>up_Address = (if cu_LocalBindAddress u = [] then ''127.0.0.1'' else cu_LocalBindAddress u) @ '':'' @ Itoa (cu_LocalBindPort u),
      up_Weight = 1, up_Healthy = True, up_NodeName = []\<rparr>"

definition through_sidecar :: "agent_service \<Rightarrow> ConsulRouter \<Rightarrow> string \<Rightarrow> Upstream list \<Rightarrow> bool" where
  "through_sidecar agent cr name ups \<longleftrightarrow>
     (\<exists>sr svc u. cr_sidecarResolver cr = Some sr \<and> agent (sr_serviceName sr @ ''-sidecar-proxy'') = Inr (Some svc) \<and>
        u \<in> set (proxy_upstreams svc) \<and> cu_DestinationName u = name \<and> cu_LocalBindPort u \<noteq> 0 \<and> ups = [sidecar_upstream u])"

lemma ResolveUpstreams_sidecar:
  assumes "ResolveUpstreams agent sr r = Inr r'" "cr_sidecarResolver cr = Some sr"
  shows "r' = r\<lparr>rd_Upstreams := rd_Upstreams r'\<rparr>" "through_sidecar agent cr (rd_ServiceName r) (rd_Upstreams r')"
proof -
  from assms(1) obtain svc u where a: "agent (sr_serviceName sr @ ''-sidecar-proxy'') = Inr (Some svc)"
    and u: "find (\<lambda>u. cu_DestinationName u = rd_ServiceName r) (proxy_upstreams svc) = Some u" "cu_LocalBindPort u \<noteq> 0"
    and r': "r' = r\<lparr>rd_Upstreams := [sidecar_upstream u]\<rparr>"
    by (auto simp: ResolveUpstreams_def Let_def resolve_loop_Inr sidecar_upstream_def split: sum.splits option.splits)
  show "r' = r\<lparr>rd_Upstreams := rd_Upstreams r'\<rparr>" by (simp add: r')
  from u(1) have "u \<in> set (proxy_upstreams svc)" "cu_DestinationName u = rd_ServiceName r" by (auto simp: find_Some_iff)
  with a u(2) assms(2) show "through_sidecar agent cr (rd_ServiceName r) (rd_Upstreams r')"
    by (auto simp: through_sidecar_def r')
qed

text \<open>What the second pass makes of one definition.\<close>

lemma assign_route_cases:
  fixes agent cr m r defines "r' \<equiv> assign_route agent cr m r"
  shows "rd_ServiceName r' = rd_ServiceName r" "IsRedirect r' = IsRedirect r" "rd_Protocol r' = rd_Protocol r"
    "IsRedirect r \<or>
     (rd_UpstreamMode r' = UpstreamConnectSidecar \<and> through_sidecar agent cr (rd_ServiceName r) (rd_Upstreams r') \<and>
        rd_Via r' = co_ConnectTag (cr_config cr)) \<or>
     (serviceProxyEnabled cr \<and> rd_UpstreamMode r' = UpstreamDirect \<and> rd_Upstreams r' = rd_Upstreams r \<and>
        rd_Via r' \<in> {co_ServiceTag (cr_config cr), co_ConnectTag (cr_config cr)}) \<or>
     (\<not> serviceProxyEnabled cr \<and> rd_Upstreams r' = [])"
proof -
  let ?isConnect = "connectProxyEnabled cr \<and> get_or False m (rd_ServiceName r)"
  let ?r1 = "if ?isConnect then r\<lparr>rd_Via := co_ConnectTag (cr_config cr)\<rparr>
             else if serviceProxyEnabled cr then r\<lparr>rd_Via := co_ServiceTag (cr_config cr)\<rparr> else r"
  have r1: "rd_ServiceName ?r1 = rd_ServiceName r" "IsRedirect ?r1 = IsRedirect r" "rd_Upstreams ?r1 = rd_Upstreams r"
    "rd_Protocol ?r1 = rd_Protocol r" by (auto simp: IsRedirect_def)
  have *: "rd_ServiceName r' = rd_ServiceName r \<and> IsRedirect r' = IsRedirect r \<and> rd_Protocol r' = rd_Protocol r \<and>
    (IsRedirect r \<or>
     (rd_UpstreamMode r' = UpstreamConnectSidecar \<and> through_sidecar agent cr (rd_ServiceName r) (rd_Upstreams r') \<and>
        rd_Via r' = co_ConnectTag (cr_config cr)) \<or>
     (serviceProxyEnabled cr \<and> rd_UpstreamMode r' = UpstreamDirect \<and> rd_Upstreams r' = rd_Upstreams r \<and>
        rd_Via r' \<in> {co_ServiceTag (cr_config cr), co_ConnectTag (cr_config cr)}) \<or>
     (\<not> serviceProxyEnabled cr \<and> rd_Upstreams r' = []))"
  proof (cases "\<exists>sr r2. \<not> IsRedirect r \<and> ?isConnect \<and> cr_sidecarResolver cr = Some sr \<and> ResolveUpstreams agent sr ?r1 = Inr r2")
    case True
    then obtain sr r2 where t: "\<not> IsRedirect r" ?isConnect "cr_sidecarResolver cr = Some sr" "ResolveUpstreams agent sr ?r1 = Inr r2"
      by blast
    from t have r': "r' = r2\<lparr>rd_UpstreamMode := UpstreamConnectSidecar\<rparr>" by (simp add: r'_def assign_route_def Let_def)
    note s = ResolveUpstreams_sidecar [OF t(4,3)]
    have "rd_ServiceName r2 = rd_ServiceName r" "rd_RedirectCode r2 = rd_RedirectCode r" "rd_RedirectURL r2 = rd_RedirectURL r"
      "rd_Protocol r2 = rd_Protocol r" "rd_Via r2 = co_ConnectTag (cr_config cr)"
      using t(2) by (subst s(1), simp)+
    with s(2) r1(1) show ?thesis by (simp add: r' IsRedirect_def)
  next
    case False
    then show ?thesis
      by (auto simp: r'_def assign_route_def Let_def IsRedirect_def split: option.splits sum.splits)
  qed
  show "rd_ServiceName r' = rd_ServiceName r" "IsRedirect r' = IsRedirect r" "rd_Protocol r' = rd_Protocol r" using * by blast+
  show "IsRedirect r \<or>
     (rd_UpstreamMode r' = UpstreamConnectSidecar \<and> through_sidecar agent cr (rd_ServiceName r) (rd_Upstreams r') \<and>
        rd_Via r' = co_ConnectTag (cr_config cr)) \<or>
     (serviceProxyEnabled cr \<and> rd_UpstreamMode r' = UpstreamDirect \<and> rd_Upstreams r' = rd_Upstreams r \<and>
        rd_Via r' \<in> {co_ServiceTag (cr_config cr), co_ConnectTag (cr_config cr)}) \<or>
     (\<not> serviceProxyEnabled cr \<and> rd_Upstreams r' = [])" using * by blast
qed

text \<open>Every compiled route comes from an assigned definition.\<close>

lemma compiled_for_origin:
  assumes "compiled_for wd cr svcs = Some c" "slice_sort (wd_sort wd)"
  shows "h \<in> set (cc_HTTPRoutes c) \<Longrightarrow> \<exists>i m r. compile_http_route (assign_route (wd_resolve wd i) cr m r) = Some h"
    "t \<in> set (cc_TCPRoutes c) \<Longrightarrow> \<exists>i m r. compile_tcp_route (assign_route (wd_resolve wd i) cr m r) = Some t \<and>
       is_tcp (assign_route (wd_resolve wd i) cr m r) \<and>
       (node_mode cr \<longrightarrow> (\<exists>u \<in> set (rd_Upstreams (assign_route (wd_resolve wd i) cr m r)). up_NodeName u = cr_nodeName cr))"
proof -
  from assms(1) obtain parsed where c: "c = Compile (wd_sort wd) (converge_routes wd cr svcs parsed)"
    by (auto simp: compiled_for_def split: sum.splits)
  let ?rs = "converge_routes wd cr svcs parsed"
  let ?m = "local_connect_services cr parsed (connect_services cr svcs parsed)"
  have origin: "\<exists>i r. x = assign_route (wd_resolve wd i) cr ?m r" if "x \<in> set ?rs" for x
    using that by (auto simp: converge_routes_def local_routes_def FilterTCPRoutesByNode_def assign_routes_def split: if_splits)
  have loc: "\<exists>u \<in> set (rd_Upstreams x). up_NodeName u = cr_nodeName cr" if "x \<in> set ?rs" "node_mode cr" "is_tcp x" for x
    using that by (auto simp: converge_routes_def local_routes_def FilterTCPRoutesByNode_def node_mode_def is_tcp_def list_ex_iff split: if_splits)
  have win: "set (winners key {} (filter P (wd_sort wd ?rs))) \<subseteq> {x \<in> set ?rs. P x}" for key P
    using winners_subset [of key "{}" "filter P (wd_sort wd ?rs)"] slice_sort.sort_set [OF assms(2), of ?rs] by auto
  show "\<exists>i m r. compile_http_route (assign_route (wd_resolve wd i) cr m r) = Some h" if "h \<in> set (cc_HTTPRoutes c)"
    using that win origin unfolding c Compile_simps set_map_filter by fastforce
  show "\<exists>i m r. compile_tcp_route (assign_route (wd_resolve wd i) cr m r) = Some t \<and> is_tcp (assign_route (wd_resolve wd i) cr m r) \<and>
       (node_mode cr \<longrightarrow> (\<exists>u \<in> set (rd_Upstreams (assign_route (wd_resolve wd i) cr m r)). up_NodeName u = cr_nodeName cr))"
    if "t \<in> set (cc_TCPRoutes c)"
  proof -
    from that obtain x where x: "x \<in> set (winners tcp_key {} (filter is_tcp (wd_sort wd ?rs)))" "compile_tcp_route x = Some t"
      unfolding c Compile_simps set_map_filter by blast
    with win have "x \<in> set ?rs" "is_tcp x" by blast+
    with origin loc x(2) show ?thesis by metis
  qed
qed

subsection \<open>A sample instance\<close>

definition sample_env :: "disk \<Rightarrow> provision_env" where
  "sample_env d =
     \<lparr>pe_env = (\<lambda>_. []), pe_hostname = Some ''node1'', pe_dataDir = ''/data'', pe_parseDuration = (\<lambda>_. Some 1), pe_client = None,
      pe_self = Inr None, pe_disk = d\<rparr>"

definition sample_config :: RouterConfig where
  "sample_config = applyDefaults (\<lambda>_. []) (Some ''node1'') ''/data'' zero_config"

definition sample_router :: "disk \<Rightarrow> ConsulRouter" where
  "sample_router d = provision_discovery (sample_env d) (new_router sample_config)"

definition sample_world :: world where
  "sample_world =
     \<lparr>wd_service = (\<lambda>_. Inl ''down''), wd_register = (\<lambda>_. None), wd_resolve = (\<lambda>_ _. Inl ''down''), wd_sort = stable_sort,
      wd_hash = (\<lambda>rs. CHR ''h'' # concat (map ch_Host rs)), wd_openPort = (\<lambda>p. Inr (nat p)), wd_iterPorts = (\<lambda>m. m),
      wd_iterServices = (\<lambda>m. m), wd_write = Written, wd_elapsed = 1\<rparr>"

lemma sample_Provision: "Provision (sample_env d) None zero_config = Inr (sample_router d, None)"
proof -
  have v: "validate (\<lambda>_. Some 1) sample_config = None" by code_simp
  have c: "co_NoCacheStatus sample_config = []" "co_Metrics sample_config = []" "co_L4Mode sample_config = ''global''"
    "co_ServiceProxyEnable sample_config = Some True" "co_ConnectProxyEnable sample_config = Some False"
    by (simp_all add: sample_config_def applyDefaults_def zero_config_def or_default_def or_default_bool_def)
  have n: "(new_router sample_config)\<lparr>cr_noCacheMatcher := None, cr_metrics := None, cr_nodeName := []\<rparr> = new_router sample_config"
    by (simp add: new_router_def)
  have s: "applyDefaults (pe_env (sample_env d)) (pe_hostname (sample_env d)) (pe_dataDir (sample_env d)) zero_config = sample_config"
    "pe_parseDuration (sample_env d) = (\<lambda>_. Some 1)" "pe_client (sample_env d) = None"
    by (simp_all add: sample_env_def sample_config_def)
  have e: "serviceProxyEnabled (new_router sample_config)" "\<not> connectProxyEnabled (provision_discovery (sample_env d) (new_router sample_config))"
    by (simp_all add: serviceProxyEnabled_def connectProxyEnabled_def view_discovery new_router_def c boolVal_def)
  show ?thesis unfolding Provision_def s Let_def v
    by (simp add: provision_matcher_def provision_node_def c n e sample_router_def)
qed

lemma sample_reachable: "reachable hash S (sample_router NoFile) NoFile"
  by (rule rs_boot [OF sample_Provision]) (simp_all add: sample_env_def sample_router_def provision_discovery_def Let_def)

lemma sample_iter: "iter_ok sample_world"
  by (simp add: iter_ok_def sample_world_def)

definition tcp_service :: ServiceState where
  "tcp_service =
     \<lparr>ss_Name = ''db'', ss_Tags = [''caddy-consul''], ss_Meta = [],
      ss_Instances = [\<lparr>si_ID = ''db1'', si_Address = ''10.0.0.1'', si_Port = 90, si_Tags = [''caddy-consul''],
        si_Meta = [(''caddy-protocol'', ''tcp''), (''caddy-port'', ''90'')], si_Healthy = True, si_Weight = 1, si_NodeName = ''n1''\<rparr>],
      ss_LastIndex = 1\<rparr>"

definition http_service :: "string \<Rightarrow> ServiceState" where
  "http_service noCache =
     \<lparr>ss_Name = ''web'', ss_Tags = [''caddy-consul''], ss_Meta = [],
      ss_Instances = [\<lparr>si_ID = ''web1'', si_Address = ''10.0.0.2'', si_Port = 80, si_Tags = [''caddy-consul''],
        si_Meta = [(''caddy-host'', ''a.example''), (''caddy-no-cache-status'', noCache)], si_Healthy = True, si_Weight = 1, si_NodeName = ''n1''\<rparr>],
      ss_LastIndex = 1\<rparr>"

lemma same_json_hosts: "same_json a b \<Longrightarrow> map ch_Host a = map ch_Host b"
proof (rule nth_equalityI)
  assume j: "same_json a b"
  then show "length (map ch_Host a) = length (map ch_Host b)" by (simp add: same_json_def list_all2_lengthD)
  then show "map ch_Host a ! i = map ch_Host b ! i" if "i < length (map ch_Host a)" for i
    using that same_json_fields(2) [OF j, of i] by simp
qed

lemma sample_hash:
  assumes "ch_Host r \<noteq> []"
  shows "route_hash (wd_hash sample_world) {[], [r], [json_route r]}" "routes_closed {[], [r], [json_route r]}"
proof -
  let ?h = "\<lambda>rs :: CompiledHTTPRoute list. CHR ''h'' # concat (map ch_Host rs)"
  have j: "same_json [json_route r] [r]" using same_json_json [of "[r]"] by simp
  have s: "same_json [r] [json_route r]" by (rule same_json_sym [OF j])
  have 1: "?h a = ?h b" if "same_json a b" for a b using same_json_hosts [OF that] by simp
  have 2: "same_json a b" if "a \<in> {[], [r], [json_route r]}" "b \<in> {[], [r], [json_route r]}" "?h a = ?h b" for a b
  proof -
    have h: "?h [r] \<noteq> ''h''" "?h [json_route r] \<noteq> ''h''" "?h [] = ''h''" using assms by (simp_all add: json_route_def)
    show ?thesis
    proof (cases "a = []")
      case True
      with that h have "b = []" by auto
      with True show ?thesis by (simp add: same_json_refl)
    next
      case False
      with that h have "b \<noteq> []" by auto
      with that(1,2) False have "a = [r] \<or> a = [json_route r]" "b = [r] \<or> b = [json_route r]" by blast+
      then show ?thesis using j s same_json_refl by blast
    qed
  qed
  have h: "wd_hash sample_world = ?h" by (simp add: sample_world_def)
  show "route_hash (wd_hash sample_world) {[], [r], [json_route r]}"
    unfolding route_hash_def h by (intro conjI allI ballI impI, simp, erule 1, erule (2) 2)
  show "routes_closed {[], [r], [json_route r]}" by (simp add: routes_closed_def json_route_def)
qed

definition sample_services :: "string \<Rightarrow> (string, ServiceState) gomap" where
  "sample_services noCache = [(''db'', tcp_service), (''web'', http_service noCache)]"

definition sample_http_route :: CompiledHTTPRoute where
  "sample_http_route =
     \<lparr>ch_Host = ''a.example'', ch_Path = [], ch_Upstreams =
        [\<lparr>up_Address = ''10.0.0.2:80'', up_Weight = 1, up_Healthy = True, up_NodeName = ''n1''\<rparr>],
      ch_StripPrefix = False, ch_ServiceName = ''web'', ch_Via = ''caddy-consul'', ch_RedirectCode = 0, ch_RedirectURL = [],
      ch_RedirectNoCache = False, ch_NoCacheMatcher = Some \<lparr>sm_classes = [False, False, False, False, True, False], sm_codes = []\<rparr>,
      ch_NoCacheOptOut = False, ch_TagValues = []\<rparr>"

definition sample_tcp_route :: CompiledTCPRoute where
  "sample_tcp_route =
     \<lparr>ct_Port = 90, ct_SNI = [], ct_Upstreams =
        [\<lparr>up_Address = ''10.0.0.1:90'', up_Weight = 1, up_Healthy = True, up_NodeName = ''n1''\<rparr>],
      ct_Passthrough = False, ct_ServiceName = ''db''\<rparr>"

definition sample_compiled :: CompiledConfig where
  "sample_compiled =
     \<lparr>cc_HTTPRoutes = [sample_http_route], cc_TCPRoutes = [sample_tcp_route], cc_Conflicts = [], cc_Warnings = []\<rparr>"

text \<open>What a callback compiles depends on the configuration, the node and the Connect components only.\<close>

lemma compiled_for_cong:
  assumes "cr_config cr = cr_config cr'" "cr_nodeName cr = cr_nodeName cr'" "cr_sidecarResolver cr = cr_sidecarResolver cr'"
  shows "compiled_for wd cr svcs = compiled_for wd cr' svcs"
proof -
  have p: "parse_services cr svcs = parse_services cr' svcs" by (simp add: parse_services_def assms)
  have m: "node_mode cr = node_mode cr'" "serviceProxyEnabled cr = serviceProxyEnabled cr'" "connectProxyEnabled cr = connectProxyEnabled cr'"
    by (simp_all add: node_mode_def serviceProxyEnabled_def connectProxyEnabled_def assms)
  have a: "assign_route agent cr = assign_route agent cr'" for agent by (intro ext) (simp only: assign_route_def m assms)
  have c: "converge_routes wd cr svcs = converge_routes wd cr' svcs"
    by (intro ext)
      (simp add: converge_routes_def local_routes_def assign_routes_def local_connect_services_def connect_services_def m assms a)
  show ?thesis unfolding compiled_for_def p c ..
qed

lemma sample_compiles: "compiled_for sample_world (sample_router d) (sample_services ''4xx'') = Some sample_compiled"
proof -
  have "compiled_for sample_world (sample_router d) (sample_services ''4xx'') =
      compiled_for sample_world (new_router sample_config) (sample_services ''4xx'')"
    by (rule compiled_for_cong) (simp_all add: sample_router_def provision_discovery_def Let_def)
  also have "\<dots> = Some sample_compiled" by code_simp
  finally show ?thesis .
qed

lemma runs_without_connect:
  assumes "wired cr" "iter_ok wd" "cr_upstreamMgr cr = None" "compiled_for wd cr svcs = Some c"
  shows "\<exists>oc. onServicesChanged wd svcs (cr, d) = Some (Inr oc)"
proof -
  have sync: "sync_sidecar wd cr m = Some (None, None)" for m using assms(3) by (simp add: sync_sidecar_def)
  from assms(4) obtain parsed where p: "parse_services cr svcs = Inr parsed" by (auto simp: compiled_for_def split: sum.splits)
  let ?m = "converge_metrics svcs (converge_routes wd cr svcs parsed) c (IncDebounce (cr_metrics cr))"
  have "wired (cr\<lparr>cr_upstreamMgr := None, cr_metrics := ?m\<rparr>)" using assms(1) by simp
  from publish_wired [OF this assms(2), of c svcs None d] obtain oc where
    "publish wd c svcs None (cr\<lparr>cr_upstreamMgr := None, cr_metrics := ?m\<rparr>, d) = Inr oc" by blast
  then show ?thesis unfolding onServicesChanged_cases assms(4) p sync by simp
qed

lemma sample_router_facts:
  "wired (sample_router d)" "cr_upstreamMgr (sample_router d) = None" "cr_config (sample_router d) = sample_config"
  "reserved_of (sample_router d) = reservedTCPPorts sample_config" "cr_routeTable (sample_router d) \<noteq> None" "pe_disk (sample_env d) = d"
  by (simp_all add: sample_router_def view_discovery provision_discovery_def Let_def new_router_def sample_env_def reserved_of_def NewTCPListenerManager_def wired_def)

lemma sample_runs:
  "\<exists>oc. onServicesChanged sample_world (sample_services ''4xx'') (sample_router d, d') = Some (Inr oc)"
  by (rule runs_without_connect [OF sample_router_facts(1) sample_iter sample_router_facts(2) sample_compiles])

lemma sample_port_free: "\<not> get_or False (reservedTCPPorts sample_config) 90"
proof -
  have "co_CaddyAdminAPI sample_config = ''localhost:2019''"
    by (simp add: sample_config_def applyDefaults_def zero_config_def or_default_def)
  moreover have "SplitHostPort ''localhost:2019'' = Some (''localhost'', ''2019'')" by code_simp
  moreover have "Atoi ''2019'' = Some 2019" by (simp add: Atoi_def digits_value_def is_digit_def)
  ultimately show ?thesis by (simp add: reservedTCPPorts_def get_or_def)
qed

text \<open>What a callback of a reachable instance leaves behind.\<close>

lemma callback_facts:
  assumes "reachable hash S cr d" "route_hash hash S" "routes_closed S" "iter_ok wd" "wd_hash wd = hash"
    and "compiled_for wd cr svcs = Some c" "cc_HTTPRoutes c \<in> S" "onServicesChanged wd svcs (cr, d) = Some (Inr oc)"
  shows "same_json (http_table (oc_router oc)) (cc_HTTPRoutes c) \<and>
    cr_tcpTable (oc_router oc) = Some (TCPTable_Update NewTCPTable (cc_TCPRoutes c)) \<and>
    (\<forall>p. map_of (active_of (oc_router oc)) p =
       (if p \<notin> ct_Port ` set (cc_TCPRoutes c) \<or> get_or False (reserved_of cr) p then None
        else case map_of (active_of cr) p of
               Some l \<Rightarrow> Some l
             | None \<Rightarrow> (case wd_openPort wd p of Inl _ \<Rightarrow> None | Inr ln \<Rightarrow> Some \<lparr>tl_port = p, tl_ln = ln\<rparr>))) \<and>
    (wd_write wd = Written \<longrightarrow> (\<exists>s. oc_disk oc = Document s \<and> ps_HTTPRoutes s = map json_route (cc_HTTPRoutes c) \<and>
       ps_TCPRoutes s = cc_TCPRoutes c \<and> ps_Services s = svcs \<and> ps_HTTPRouteHash s = hash (cc_HTTPRoutes c)))"
proof -
  from reachable_synced [OF assms(1-3)] have s: "router_synced hash S cr" "disk_synced hash S d" by simp_all
  then have w: "wired cr" by (simp add: router_synced_def)
  from onServicesChanged_Inr [OF w assms(4,8)] assms(6) obtain um reg m where
    p: "publish wd c svcs reg (cr\<lparr>cr_upstreamMgr := um, cr_metrics := m\<rparr>, d) = Inr oc" by auto
  from s have "router_synced hash S (cr\<lparr>cr_upstreamMgr := um, cr_metrics := m\<rparr>)" by (simp add: router_synced_def)
  from publish_synced(3) [OF assms(2,3) this s(2) assms(4,5,7) p] have "same_json (http_table (oc_router oc)) (cc_HTTPRoutes c)" .
  moreover have "wired (cr\<lparr>cr_upstreamMgr := um, cr_metrics := m\<rparr>)" using w by simp
  from publish_wired [OF this assms(4), of c svcs reg d] p have
    "cr_tcpTable (oc_router oc) = Some (TCPTable_Update NewTCPTable (cc_TCPRoutes c))"
    "\<forall>p. map_of (active_of (oc_router oc)) p =
       (if p \<notin> ct_Port ` set (cc_TCPRoutes c) \<or> get_or False (reserved_of cr) p then None
        else case map_of (active_of cr) p of
               Some l \<Rightarrow> Some l
             | None \<Rightarrow> (case wd_openPort wd p of Inl _ \<Rightarrow> None | Inr ln \<Rightarrow> Some \<lparr>tl_port = p, tl_ln = ln\<rparr>))"
    and d: "oc_disk oc = Save (wd_write wd) \<lparr>sm_state = state_of (oc_router oc)\<rparr> d"
    "ps_HTTPRoutes (state_of (oc_router oc)) = cc_HTTPRoutes c" "ps_TCPRoutes (state_of (oc_router oc)) = cc_TCPRoutes c"
    "ps_Services (state_of (oc_router oc)) = svcs" "ps_HTTPRouteHash (state_of (oc_router oc)) = hash (cc_HTTPRoutes c)"
    using assms(5) by simp_all
  moreover from d have "wd_write wd = Written \<longrightarrow> (\<exists>s. oc_disk oc = Document s \<and> ps_HTTPRoutes s = map json_route (cc_HTTPRoutes c) \<and>
       ps_TCPRoutes s = cc_TCPRoutes c \<and> ps_Services s = svcs \<and> ps_HTTPRouteHash s = hash (cc_HTTPRoutes c))"
    by (simp add: Save_def json_state_def)
  ultimately show ?thesis by blast
qed

lemma callback_saved:
  assumes "reachable hash S cr d" "route_hash hash S" "routes_closed S" "iter_ok wd" "wd_hash wd = hash"
    and "compiled_for wd cr svcs = Some c" "cc_HTTPRoutes c \<in> S" "onServicesChanged wd svcs (cr, d) = Some (Inr oc)"
    and "wd_write wd = Written"
  shows "\<exists>s. oc_disk oc = Document s \<and> ps_HTTPRoutes s = map json_route (cc_HTTPRoutes c) \<and> ps_TCPRoutes s = cc_TCPRoutes c \<and>
    ps_HTTPRouteHash s = hash (cc_HTTPRoutes c) \<and>
    cr_tcpTable (oc_router oc) = Some (TCPTable_Update NewTCPTable (cc_TCPRoutes c))"
  using callback_facts [OF assms(1-8)] assms(9) by blast

text \<open>What the next instance starts with.\<close>

lemma reload_facts:
  assumes "reachable hash S cr d" "route_hash hash S" "routes_closed S" "iter_ok wd" "wd_hash wd = hash"
    and "compiled_for wd cr svcs = Some c" "cc_HTTPRoutes c \<in> S" "onServicesChanged wd svcs (cr, d) = Some (Inr oc)"
    and "wd_write wd = Written" "Provision pe gm cfg = Inr (cr', gm')" "pe_disk pe = oc_disk oc" "cr_routeTable cr' \<noteq> None" "iter_ok wd'"
  shows "\<exists>new. Start wd' cr' = Inr new \<and> http_table new = map json_route (cc_HTTPRoutes c) \<and>
    cr_tcpTable new = cr_tcpTable (oc_router oc) \<and>
    (\<forall>p. map_of (active_of new) p =
       (if p \<in> ct_Port ` set (cc_TCPRoutes c) \<and> \<not> get_or False (reservedTCPPorts (cr_config cr')) p
        then (case wd_openPort wd' p of Inl _ \<Rightarrow> None | Inr ln \<Rightarrow> Some \<lparr>tl_port = p, tl_ln = ln\<rparr>) else None))"
proof -
  from callback_saved [OF assms(1-9)] obtain s where s: "oc_disk oc = Document s" "ps_HTTPRoutes s = map json_route (cc_HTTPRoutes c)"
    "ps_TCPRoutes s = cc_TCPRoutes c" and t: "cr_tcpTable (oc_router oc) = Some (TCPTable_Update NewTCPTable (cc_TCPRoutes c))" by blast
  note p = Provision_tables [OF assms(10,12), unfolded assms(11) s(1) disk.case]
  let ?tt = "TCPTable_Update NewTCPTable (cc_TCPRoutes c)"
  have tt: "cr_tcpTable cr' = Some ?tt" using p(2,5) s(3) by simp
  from Start_wired [OF p(1) assms(13) tt] obtain new where new: "Start wd' cr' = Inr new" "http_table new = http_table cr'"
    "cr_tcpTable new = Some ?tt" and act: "TCPTable_Ports ?tt = [] \<longrightarrow> active_of new = active_of cr'"
    "TCPTable_Ports ?tt \<noteq> [] \<longrightarrow> (\<forall>p. map_of (active_of new) p =
       (if p \<notin> set (TCPTable_Ports ?tt) \<or> get_or False (reserved_of cr') p then None
        else case map_of (active_of cr') p of
               Some l \<Rightarrow> Some l
             | None \<Rightarrow> (case wd_openPort wd' p of Inl _ \<Rightarrow> None | Inr ln \<Rightarrow> Some \<lparr>tl_port = p, tl_ln = ln\<rparr>)))" by blast
  have ports: "set (TCPTable_Ports ?tt) = ct_Port ` set (cc_TCPRoutes c)" by (rule Ports_Update)
  have "map_of (active_of new) p =
       (if p \<in> ct_Port ` set (cc_TCPRoutes c) \<and> \<not> get_or False (reservedTCPPorts (cr_config cr')) p
        then (case wd_openPort wd' p of Inl _ \<Rightarrow> None | Inr ln \<Rightarrow> Some \<lparr>tl_port = p, tl_ln = ln\<rparr>) else None)" for p
    using act ports p(4,7) by (cases "TCPTable_Ports ?tt = []") auto
  with new p(2,3) s(2) t show ?thesis by simp
qed

lemma callback_total:
  assumes "wired cr" "iter_ok wd" "\<forall>um. cr_upstreamMgr cr = Some um \<longrightarrow> range_ok um"
  shows "\<exists>res. onServicesChanged wd svcs (cr, d) = Some res \<and>
    (isl res \<longleftrightarrow> (\<exists>(n, s) \<in> set svcs. \<exists>inst \<in> set (ss_Instances s).
       si_Healthy inst \<and> si_Address inst \<noteq> [] \<and> (\<exists>t \<in> set (si_Tags inst). blank_tag t)))"
proof (cases "parse_services cr svcs")
  case (Inl p)
  with parse_services_panics [of cr svcs] show ?thesis by (simp add: onServicesChanged_cases compiled_for_def)
next
  case (Inr parsed)
  let ?c = "Compile (wd_sort wd) (converge_routes wd cr svcs parsed)"
  obtain um reg where s: "sync_sidecar wd cr (local_connect_services cr parsed (connect_services cr svcs parsed)) = Some (um, reg)"
    using assms(3) sync_sidecar_total [OF _ assms(2) local_connect_services_ok [OF connect_services_ok]] by blast
  let ?cr = "cr\<lparr>cr_upstreamMgr := um, cr_metrics := converge_metrics svcs (converge_routes wd cr svcs parsed) ?c (IncDebounce (cr_metrics cr))\<rparr>"
  have "wired ?cr" using assms(1) by simp
  from publish_wired [OF this assms(2), of ?c svcs reg d] obtain oc where "publish wd ?c svcs reg (?cr, d) = Inr oc" by blast
  with Inr s have "onServicesChanged wd svcs (cr, d) = Some (Inr oc)" by (simp add: onServicesChanged_cases compiled_for_def)
  with Inr parse_services_panics [of cr svcs] show ?thesis by simp
qed

subsection \<open>Properties\<close>









text \<open>The no-cache matcher of a service does not survive a reload. After a callback has saved its state, an instance provisioned
  from it and then called back with routes of the same JSON text (nothing has changed in Consul) keeps the routes of the file: not
  one of them has its own matcher, whatever the compiled routes say.\<close>

theorem reload_loses_matchers:
  assumes "reachable hash S cr d" "route_hash hash S" "routes_closed S" "iter_ok wd" "wd_hash wd = hash"
    and "compiled_for wd cr svcs = Some c" "cc_HTTPRoutes c \<in> S" "onServicesChanged wd svcs (cr, d) = Some (Inr oc)"
    and "wd_write wd = Written" "Provision pe gm cfg = Inr (cr', gm')" "pe_disk pe = oc_disk oc" "cr_routeTable cr' \<noteq> None"
    and "iter_ok wd'" "wd_hash wd' = hash" "compiled_for wd' cr' svcs' = Some c'" "same_json (cc_HTTPRoutes c') (cc_HTTPRoutes c)"
    and "onServicesChanged wd' svcs' (cr', d') = Some (Inr oc')"
  shows "http_table (oc_router oc') = map json_route (cc_HTTPRoutes c) \<and>
    (\<forall>r \<in> set (http_table (oc_router oc')). ch_NoCacheMatcher r = None)"
proof -
  from callback_saved [OF assms(1-9)] obtain s where s: "oc_disk oc = Document s" "ps_HTTPRoutes s = map json_route (cc_HTTPRoutes c)"
    "ps_HTTPRouteHash s = hash (cc_HTTPRoutes c)" by blast
  note p = Provision_tables [OF assms(10,12), unfolded assms(11) s(1) disk.case]
  from onServicesChanged_Inr [OF p(1) assms(13,17)] assms(15) obtain um reg m where
    q: "publish wd' c' svcs' reg (cr'\<lparr>cr_upstreamMgr := um, cr_metrics := m\<rparr>, d') = Inr oc'" by auto
  have "wired (cr'\<lparr>cr_upstreamMgr := um, cr_metrics := m\<rparr>)" using p(1) by simp
  from publish_wired [OF this assms(13), of c' svcs' reg d'] q have "http_table (oc_router oc') =
      (if wd_hash wd' (cc_HTTPRoutes c') = ps_HTTPRouteHash (state_of cr') then http_table cr' else cc_HTTPRoutes c')" by simp
  moreover have "hash (cc_HTTPRoutes c') = hash (cc_HTTPRoutes c)" using assms(2,16) by (simp add: route_hash_def)
  ultimately have "http_table (oc_router oc') = map json_route (cc_HTTPRoutes c)" using p(2,3) s assms(14) by simp
  then show ?thesis by (auto simp: json_route_def)
qed

theorem reload_loses_matchers_witness:
  "\<exists>oc oc'. onServicesChanged sample_world (sample_services ''4xx'') (sample_router NoFile, NoFile) = Some (Inr oc) \<and>
     onServicesChanged sample_world (sample_services ''4xx'') (sample_router (oc_disk oc), oc_disk oc) = Some (Inr oc') \<and>
     ch_NoCacheMatcher sample_http_route \<noteq> None \<and> http_table (oc_router oc') = [json_route sample_http_route]"
proof -
  obtain oc where oc: "onServicesChanged sample_world (sample_services ''4xx'') (sample_router NoFile, NoFile) = Some (Inr oc)"
    using sample_runs by blast
  obtain oc' where oc': "onServicesChanged sample_world (sample_services ''4xx'') (sample_router (oc_disk oc), oc_disk oc) = Some (Inr oc')"
    using sample_runs by blast
  have h: "ch_Host sample_http_route \<noteq> []" by (simp add: sample_http_route_def)
  have s: "cc_HTTPRoutes sample_compiled \<in> {[], [sample_http_route], [json_route sample_http_route]}" by (simp add: sample_compiled_def)
  have w: "wd_write sample_world = Written" by (simp add: sample_world_def)
  note d = sample_router_facts(6,5) [of "oc_disk oc"]
  from reload_loses_matchers [OF sample_reachable sample_hash [OF h] sample_iter refl sample_compiles s oc w sample_Provision d sample_iter
      refl sample_compiles same_json_refl oc']
  have "http_table (oc_router oc') = [json_route sample_http_route]" by (simp add: sample_compiled_def)
  with oc oc' show ?thesis by (auto simp: sample_http_route_def)
qed

text \<open>C7: With the service proxy switched off, traffic only goes through the mesh: every compiled HTTP route that is not a redirect has
  exactly one upstream, the local bind address of an entry for its own service in the sidecar proxy's registration, and
  carries the Connect tag. The same holds of the TCP routes, but for one gap: a TCP definition that also has redirect metadata
  skips the second pass and keeps its direct upstreams. When in addition \<open>l4_mode\<close> is \<open>node\<close>, only such routes are left,
  because a sidecar upstream has no node name.\<close>

theorem mesh_only:
  assumes "compiled_for wd cr svcs = Some c" "slice_sort (wd_sort wd)" "\<not> serviceProxyEnabled cr"
  shows "(\<forall>h \<in> set (cc_HTTPRoutes c). ch_RedirectCode h = 0 \<longrightarrow>
      (\<exists>i. through_sidecar (wd_resolve wd i) cr (ch_ServiceName h) (ch_Upstreams h)) \<and> ch_Via h = co_ConnectTag (cr_config cr)) \<and>
    (\<forall>t \<in> set (cc_TCPRoutes c).
      (\<not> node_mode cr \<and> (\<exists>i. through_sidecar (wd_resolve wd i) cr (ct_ServiceName t) (ct_Upstreams t))) \<or>
      (\<exists>r. is_tcp r \<and> IsRedirect r \<and> compile_tcp_route r = Some t))"
proof -
  have healthy: "filter up_Healthy ups = ups" if "through_sidecar agent cr name ups" for agent name ups
    using that by (auto simp: through_sidecar_def sidecar_upstream_def)
  have "(\<exists>i. through_sidecar (wd_resolve wd i) cr (ch_ServiceName h) (ch_Upstreams h)) \<and> ch_Via h = co_ConnectTag (cr_config cr)"
    if h: "h \<in> set (cc_HTTPRoutes c)" and code: "ch_RedirectCode h = 0" for h
  proof -
    from compiled_for_origin(1) [OF assms(1,2) h] obtain i m r where
      c: "compile_http_route (assign_route (wd_resolve wd i) cr m r) = Some h" by blast
    let ?r = "assign_route (wd_resolve wd i) cr m r"
    note f = compile_http_route_fields [OF c] and a = assign_route_cases [where agent = "wd_resolve wd i" and cr = cr and m = m and r = r]
    have nr: "\<not> IsRedirect ?r" using f(4) code by (auto simp: IsRedirect_def)
    with f(4) a(2,4) assms(3) have t: "through_sidecar (wd_resolve wd i) cr (rd_ServiceName r) (rd_Upstreams ?r)"
      "rd_Via ?r = co_ConnectTag (cr_config cr)" by auto
    moreover have "ch_Via h = rd_Via ?r" using c by (auto simp: compile_http_route_def Let_def split: prod.splits if_splits)
    ultimately show ?thesis using healthy [OF t(1)] f(3,4) a(1) nr by auto
  qed
  moreover have "(\<not> node_mode cr \<and> (\<exists>i. through_sidecar (wd_resolve wd i) cr (ct_ServiceName t) (ct_Upstreams t))) \<or>
      (\<exists>r. is_tcp r \<and> IsRedirect r \<and> compile_tcp_route r = Some t)" if t: "t \<in> set (cc_TCPRoutes c)" for t
  proof -
    from compiled_for_origin(2) [OF assms(1,2) t] obtain i m r where
      c: "compile_tcp_route (assign_route (wd_resolve wd i) cr m r) = Some t" "is_tcp (assign_route (wd_resolve wd i) cr m r)"
      and l: "node_mode cr \<longrightarrow> (\<exists>u \<in> set (rd_Upstreams (assign_route (wd_resolve wd i) cr m r)). up_NodeName u = cr_nodeName cr)" by blast
    let ?r = "assign_route (wd_resolve wd i) cr m r"
    note f = compile_tcp_route_fields [OF c(1)] and a = assign_route_cases [where agent = "wd_resolve wd i" and cr = cr and m = m and r = r]
    show ?thesis
    proof (cases "IsRedirect ?r")
      case False
      with a(2,4) f(4,5) assms(3) have s: "through_sidecar (wd_resolve wd i) cr (rd_ServiceName r) (rd_Upstreams ?r)" by auto
      with l have "\<not> node_mode cr" by (auto simp: through_sidecar_def sidecar_upstream_def node_mode_def)
      moreover have "through_sidecar (wd_resolve wd i) cr (ct_ServiceName t) (ct_Upstreams t)" using s healthy [OF s] f(3,4) a(1) by simp
      ultimately show ?thesis by blast
    qed (use c in blast)
  qed
  ultimately show ?thesis by blast
qed

definition mesh_router :: ConsulRouter where
  "mesh_router = (new_router (sample_config\<lparr>co_ServiceProxyEnable := Some False, co_ConnectProxyEnable := Some True,
     co_ServiceTag := ''caddy-consul'', co_ConnectTag := ''caddy-consul''\<rparr>))\<lparr>cr_sidecarResolver := Some \<lparr>sr_serviceName = ''caddy''\<rparr>\<rparr>"

definition mesh_world :: world where
  "mesh_world = sample_world\<lparr>wd_resolve := (\<lambda>_ _. Inr (Some \<lparr>as_ID = ''p'', as_Service = ''p'', as_Port = 1, as_Tags = [], as_Meta = [],
     as_Proxy = Some [\<lparr>cu_DestinationName = ''web'', cu_LocalBindAddress = [], cu_LocalBindPort = 20\<rparr>]\<rparr>))\<rparr>"

theorem mesh_only_witness:
  "\<exists>c. compiled_for mesh_world mesh_router (sample_services ''4xx'') = Some c \<and> \<not> serviceProxyEnabled mesh_router \<and>
     map (map up_Address \<circ> ch_Upstreams) (cc_HTTPRoutes c) = [[''127.0.0.1:20'']] \<and> cc_TCPRoutes c = [] \<and>
     (\<forall>h \<in> set (cc_HTTPRoutes c). ch_RedirectCode h = 0 \<longrightarrow> ch_Via h = ''caddy-consul'')"
proof -
  define c where "c = the (compiled_for mesh_world mesh_router (sample_services ''4xx''))"
  have c: "compiled_for mesh_world mesh_router (sample_services ''4xx'') = Some c" unfolding c_def by code_simp
  have f: "map (map up_Address \<circ> ch_Upstreams) (cc_HTTPRoutes c) = [[''127.0.0.1:20'']]" "cc_TCPRoutes c = []" unfolding c_def by code_simp+
  have d: "\<not> serviceProxyEnabled mesh_router" "co_ConnectTag (cr_config mesh_router) = ''caddy-consul''"
    by (simp_all add: mesh_router_def serviceProxyEnabled_def boolVal_def new_router_def)
  have "wd_sort mesh_world = stable_sort" by (simp add: mesh_world_def sample_world_def)
  then have "slice_sort (wd_sort mesh_world)" using stable.slice_sort_axioms by simp
  from mesh_only [OF c this d(1)] c f d show ?thesis by auto
qed

text \<open>A callback that comes after \<open>Stop\<close> (the watcher allows one) opens the listeners again: nothing stands in the way of a
  stopped instance holding the ports of the routes it compiles.\<close>

theorem callback_after_stop_reopens:
  assumes "reachable hash S cr d" "route_hash hash S" "routes_closed S" "Stop cr = (cr', ls)" "iter_ok wd" "wd_hash wd = hash"
    and "compiled_for wd cr' svcs = Some c" "cc_HTTPRoutes c \<in> S" "onServicesChanged wd svcs (cr', d) = Some (Inr oc)"
    and "t \<in> set (cc_TCPRoutes c)" "\<not> get_or False (reserved_of cr) (ct_Port t)" "wd_openPort wd (ct_Port t) = Inr ln"
  shows "active_of cr' = [] \<and> map_of (active_of (oc_router oc)) (ct_Port t) = Some \<lparr>tl_port = ct_Port t, tl_ln = ln\<rparr>"
proof -
  note v = Stop_views [OF assms(4)]
  from callback_facts [OF rs_stop [OF assms(1,4)] assms(2,3,5-9)] have "map_of (active_of (oc_router oc)) (ct_Port t) =
       (if ct_Port t \<notin> ct_Port ` set (cc_TCPRoutes c) \<or> get_or False (reserved_of cr') (ct_Port t) then None
        else case map_of (active_of cr') (ct_Port t) of
               Some l \<Rightarrow> Some l
             | None \<Rightarrow> (case wd_openPort wd (ct_Port t) of Inl _ \<Rightarrow> None | Inr ln \<Rightarrow> Some \<lparr>tl_port = ct_Port t, tl_ln = ln\<rparr>))" by blast
  with v(3,4) assms(10-12) show ?thesis by simp
qed

theorem callback_after_stop_reopens_witness:
  "\<exists>stopped ls oc. Stop (sample_router NoFile) = (stopped, ls) \<and>
     onServicesChanged sample_world (sample_services ''4xx'') (stopped, NoFile) = Some (Inr oc) \<and>
     map_of (active_of (oc_router oc)) 90 = Some \<lparr>tl_port = 90, tl_ln = 90\<rparr>"
proof -
  let ?S = "{[], [sample_http_route], [json_route sample_http_route]}"
  obtain cr' ls where st: "Stop (sample_router NoFile) = (cr', ls)" by fastforce
  then have v: "cr_config cr' = cr_config (sample_router NoFile)" "cr_nodeName cr' = cr_nodeName (sample_router NoFile)"
    "cr_sidecarResolver cr' = cr_sidecarResolver (sample_router NoFile)" "cr_upstreamMgr cr' = cr_upstreamMgr (sample_router NoFile)"
    by (auto simp: Stop_def Let_def split: option.splits prod.splits)
  have c: "compiled_for sample_world cr' (sample_services ''4xx'') = Some sample_compiled"
    using compiled_for_cong [OF v(1-3)] sample_compiles by simp
  have "wired cr'" by (rule Stop_views(5) [OF st sample_router_facts(1)])
  from runs_without_connect [OF this sample_iter _ c] v(4) sample_router_facts(2) obtain oc where
    oc: "onServicesChanged sample_world (sample_services ''4xx'') (cr', NoFile) = Some (Inr oc)" by force
  have h: "ch_Host sample_http_route \<noteq> []" by (simp add: sample_http_route_def)
  have s: "cc_HTTPRoutes sample_compiled \<in> ?S" and t: "sample_tcp_route \<in> set (cc_TCPRoutes sample_compiled)"
    by (simp_all add: sample_compiled_def)
  have p: "ct_Port sample_tcp_route = 90" by (simp add: sample_tcp_route_def)
  have free: "\<not> get_or False (reserved_of (sample_router NoFile)) (ct_Port sample_tcp_route)"
    unfolding p sample_router_facts(4) by (rule sample_port_free)
  have o: "wd_openPort sample_world (ct_Port sample_tcp_route) = Inr 90" by (simp add: p sample_world_def)
  from callback_after_stop_reopens [OF sample_reachable sample_hash [OF h] st sample_iter refl c s oc t free o] st oc show ?thesis
    unfolding p by blast
qed

end
