(* ===== verification/System.thy ===== *)
theory System
  imports Router_Proofs
begin

text \<open>
  The watcher and the app together: how the answers of Consul reach the published tables when the goroutines interleave. The steps
  are those of the locks in \<open>watcher.go\<close>: the locked section of a watch loop or of a fetch, the queueing of its changes, the debounce
  timer, the two locked sections of \<open>flushChanges\<close>, and the callback \<open>onServicesChanged\<close>.

  A callback is one step here. \<open>flushChanges\<close> runs in a goroutine of its own for every timer that fires, and nothing in the
  code keeps two of them apart; with the parameter \<open>serial\<close> a flush waits for the callback of the one before. \<open>W\<close> is the set of
  worlds that callbacks may meet, \<open>S\<close> the set of HTTP route lists they compile.
\<close>

subsection \<open>State and steps\<close>

record system =
  sy_watcher :: ConsulWatcher
  sy_owed :: "ServiceChange list list"
  sy_taken :: nat
  sy_calls :: "(string, ServiceState) gomap list"
  sy_router :: ConsulRouter
  sy_disk :: disk
  sy_served :: "(string, ServiceState) gomap option"
  sy_failed :: "go_panic option"

text \<open>\<open>sy_owed\<close> are changes made to the cache and not queued yet, \<open>sy_taken\<close> counts flushes that have emptied the buffer and not
  looked at the cache yet, \<open>sy_calls\<close> are the snapshots of the callbacks under way. \<open>sy_served\<close> is the snapshot of the callback that
  ended last. \<open>sy_failed\<close> is a panic, which nothing recovers.\<close>

definition system_start :: "ConsulRouter \<Rightarrow> disk \<Rightarrow> ConsulWatcher \<Rightarrow> system" where
  "system_start cr d w =
     \<lparr>sy_watcher = w, sy_owed = [], sy_taken = 0, sy_calls = [], sy_router = cr, sy_disk = d, sy_served = None, sy_failed = None\<rparr>"

text \<open>The first locked section of \<open>flushChanges\<close>.\<close>

definition take_changes :: "ConsulWatcher \<Rightarrow> ConsulWatcher" where
  "take_changes w = w\<lparr>w_pendingChanges := [], w_inDebounce := False\<rparr>"

lemma flushChanges_split:
  "flushChanges w = (take_changes w, if w_pendingChanges w = [] then None else Some (w_pendingChanges w, snapshot (take_changes w)))"
  by (simp add: flushChanges_def take_changes_def Let_def)

definition owe :: "ServiceChange list \<Rightarrow> system \<Rightarrow> system" where
  "owe changes s = (if changes = [] then s else s\<lparr>sy_owed := sy_owed s @ [changes]\<rparr>)"

text \<open>What comes from outside: answers of Consul, and the end of the app.\<close>

inductive env_step :: "system \<Rightarrow> system \<Rightarrow> bool" where
  ev_catalog:
    "\<lbrakk>sy_failed s = None; reconcile_locked ((sy_watcher s)\<lparr>w_catalogIndex := i\<rparr>) services = (w', new, removed)\<rbrakk> \<Longrightarrow>
     env_step s (owe removed (s\<lparr>sy_watcher := w'\<rparr>))"
| ev_health:
    "\<lbrakk>sy_failed s = None; health_locked ((sy_watcher s)\<lparr>w_healthStateIndex := i\<rparr>) checks = (w', changes, refetch)\<rbrakk> \<Longrightarrow>
     env_step s (owe changes (s\<lparr>sy_watcher := w'\<rparr>))"
| ev_fetch:
    "\<lbrakk>sy_failed s = None; fetch_locked (sy_watcher s) name entries i = (w', changes)\<rbrakk> \<Longrightarrow>
     env_step s (owe changes (s\<lparr>sy_watcher := w'\<rparr>))"
| ev_stop:
    "\<lbrakk>sy_failed s = None; Stop ((sy_router s)\<lparr>cr_watcher := Some (sy_watcher s)\<rparr>) = (cr', ls)\<rbrakk> \<Longrightarrow>
     env_step s (s\<lparr>sy_watcher := Watcher_Stop (sy_watcher s), sy_router := cr'\<rparr>)"

text \<open>What the program then does by itself.\<close>

inductive internal_step :: "bool \<Rightarrow> world set \<Rightarrow> CompiledHTTPRoute list set \<Rightarrow> system \<Rightarrow> system \<Rightarrow> bool" for serial W S where
  is_queue:
    "\<lbrakk>sy_failed s = None; sy_owed s = xs @ changes # ys\<rbrakk> \<Longrightarrow>
     internal_step serial W S s (s\<lparr>sy_watcher := queueChanges (sy_watcher s) changes, sy_owed := xs @ ys\<rparr>)"
| is_fire:
    "\<lbrakk>sy_failed s = None; w_timerArmed (sy_watcher s)\<rbrakk> \<Longrightarrow>
     internal_step serial W S s (s\<lparr>sy_watcher := timer_fires (sy_watcher s)\<rparr>)"
| is_take:
    "\<lbrakk>sy_failed s = None; w_timerFired (sy_watcher s) > 0; serial \<longrightarrow> sy_taken s = 0 \<and> sy_calls s = []\<rbrakk> \<Longrightarrow>
     internal_step serial W S s
       (s\<lparr>sy_watcher := take_changes ((sy_watcher s)\<lparr>w_timerFired := w_timerFired (sy_watcher s) - 1\<rparr>),
          sy_taken := sy_taken s + (if w_pendingChanges (sy_watcher s) = [] then 0 else 1)\<rparr>)"
| is_snap:
    "\<lbrakk>sy_failed s = None; sy_taken s > 0\<rbrakk> \<Longrightarrow>
     internal_step serial W S s (s\<lparr>sy_taken := sy_taken s - 1, sy_calls := sy_calls s @ [snapshot (sy_watcher s)]\<rparr>)"
| is_call:
    "\<lbrakk>sy_failed s = None; sy_calls s = xs @ svcs # ys; wd \<in> W; compiled_for wd (sy_router s) svcs = Some c; cc_HTTPRoutes c \<in> S;
      onServicesChanged wd svcs ((sy_router s)\<lparr>cr_watcher := Some (sy_watcher s)\<rparr>, sy_disk s) = Some (Inr oc)\<rbrakk> \<Longrightarrow>
     internal_step serial W S s
       (s\<lparr>sy_router := oc_router oc, sy_disk := oc_disk oc, sy_calls := xs @ ys, sy_served := Some svcs\<rparr>)"
| is_crash:
    "\<lbrakk>sy_failed s = None; sy_calls s = xs @ svcs # ys; wd \<in> W;
      onServicesChanged wd svcs ((sy_router s)\<lparr>cr_watcher := Some (sy_watcher s)\<rparr>, sy_disk s) = Some (Inl p)\<rbrakk> \<Longrightarrow>
     internal_step serial W S s (s\<lparr>sy_calls := xs @ ys, sy_failed := Some p\<rparr>)"

definition system_step :: "bool \<Rightarrow> world set \<Rightarrow> CompiledHTTPRoute list set \<Rightarrow> system \<Rightarrow> system \<Rightarrow> bool" where
  "system_step serial W S s s' \<longleftrightarrow> env_step s s' \<or> internal_step serial W S s s'"

inductive_cases env_stepE: "env_step s s'"
inductive_cases internal_stepE: "internal_step serial W S s s'"

text \<open>Nothing is under way: no change to queue, no timer, no flush and no callback.\<close>

definition quiet :: "system \<Rightarrow> bool" where
  "quiet s \<longleftrightarrow> sy_owed s = [] \<and> \<not> w_timerArmed (sy_watcher s) \<and> w_timerFired (sy_watcher s) = 0 \<and> sy_taken s = 0 \<and> sy_calls s = []"

text \<open>The tables are those that some callback compiles from the services.\<close>

definition published_for :: "world set \<Rightarrow> ConsulRouter \<Rightarrow> (string, ServiceState) gomap \<Rightarrow> bool" where
  "published_for W cr svcs \<longleftrightarrow>
     (\<exists>wd \<in> W. \<exists>c. compiled_for wd cr svcs = Some c \<and> same_json (http_table cr) (cc_HTTPRoutes c) \<and>
        cr_tcpTable cr = Some (TCPTable_Update NewTCPTable (cc_TCPRoutes c)))"

subsection \<open>The cache changes only with a change to queue\<close>

lemma health_loop_unchanged:
  "health_loop cur names services = (ss, [], rs) \<Longrightarrow> ss = services"
  by (induction cur names services arbitrary: ss rs rule: health_loop.induct)
    (auto simp: Let_def split: option.splits prod.splits if_splits)

lemma health_locked_unchanged:
  assumes "health_locked w checks = (w', [], refetch)"
  shows "w_services w' = w_services w"
proof -
  let ?cur = "current_passing checks"
  obtain ss cs rs where l: "health_loop ?cur (changed_services w ?cur) (w_services w) = (ss, cs, rs)" using prod_cases3 by blast
  with assms have "w_services w' = ss" "cs = []" by (auto simp: health_locked_def Let_def)
  with health_loop_unchanged l show ?thesis by blast
qed

lemma reconcile_locked_unchanged:
  assumes "reconcile_locked w services = (w', new, [])"
  shows "w_services w' = w_services w"
proof -
  let ?r = "current_routable (w_serviceTag w) (w_connectTag w) services"
  from assms have w': "w_services w' = filter (\<lambda>(name, svc). get_or False ?r name) (w_services w)"
    and none: "filter (\<lambda>(name, svc). \<not> get_or False ?r name) (w_services w) = []"
    by (auto simp: reconcile_locked_def Let_def)
  from none have "\<forall>x \<in> set (w_services w). case x of (name, svc) \<Rightarrow> get_or False ?r name"
    by (simp add: filter_empty_conv case_prod_unfold)
  then have "filter (\<lambda>(name, svc). get_or False ?r name) (w_services w) = w_services w" by (simp only: filter_id_conv)
  with w' show ?thesis by (rule trans)
qed

lemma fetch_locked_changes:
  "fetch_locked w name entries i = (w', changes) \<Longrightarrow> changes \<noteq> [] \<and> debounce_part w' = debounce_part w"
  by (auto simp: fetch_locked_def Let_def debounce_part_def)

lemma snapshot_services: "w_services w = w_services w' \<Longrightarrow> snapshot w = snapshot w'"
  by (simp add: snapshot_def)

text \<open>One step from outside, as the rest sees it.\<close>

lemma env_step_effect:
  assumes "env_step s s'"
  shows "sy_taken s' = sy_taken s \<and> sy_calls s' = sy_calls s \<and> sy_served s' = sy_served s \<and> sy_disk s' = sy_disk s \<and>
    sy_failed s' = None \<and> sy_failed s = None \<and>
    ((\<exists>changes. (if changes = [] then w_services (sy_watcher s') = w_services (sy_watcher s) \<and> sy_owed s' = sy_owed s
                 else sy_owed s' = sy_owed s @ [changes]) \<and>
        debounce_part (sy_watcher s') = debounce_part (sy_watcher s) \<and> sy_router s' = sy_router s) \<or>
     sy_owed s' = sy_owed s \<and> sy_watcher s' = Watcher_Stop (sy_watcher s) \<and>
        (\<exists>ls. Stop ((sy_router s)\<lparr>cr_watcher := Some (sy_watcher s)\<rparr>) = (sy_router s', ls)))"
  using assms
proof (cases rule: env_step.cases)
  case (ev_catalog i services w' new removed)
  from debounce_part_locked(1) [OF ev_catalog(3)] have "debounce_part w' = debounce_part (sy_watcher s)" by simp
  moreover have "removed = [] \<Longrightarrow> w_services w' = w_services (sy_watcher s)"
    using reconcile_locked_unchanged ev_catalog(3) by fastforce
  ultimately show ?thesis using ev_catalog(1,2) by (auto simp: owe_def intro!: exI [of _ removed])
next
  case (ev_health i checks w' changes refetch)
  from debounce_part_locked(2) [OF ev_health(3)] have "debounce_part w' = debounce_part (sy_watcher s)" by simp
  moreover have "changes = [] \<Longrightarrow> w_services w' = w_services (sy_watcher s)"
    using health_locked_unchanged ev_health(3) by fastforce
  ultimately show ?thesis using ev_health(1,2) by (auto simp: owe_def intro!: exI [of _ changes])
next
  case (ev_fetch name entries i w' changes)
  from fetch_locked_changes [OF ev_fetch(3)] ev_fetch(1,2) show ?thesis by (auto simp: owe_def)
next
  case (ev_stop cr' ls)
  then show ?thesis by auto
qed

subsection \<open>Invariants\<close>

text \<open>The callback keeps what the compiler reads of the router.\<close>

lemma callback_config:
  assumes "wired cr" "iter_ok wd" "onServicesChanged wd svcs (cr, d) = Some (Inr oc)"
  shows "wired (oc_router oc) \<and> cr_config (oc_router oc) = cr_config cr \<and> cr_nodeName (oc_router oc) = cr_nodeName cr \<and>
    cr_sidecarResolver (oc_router oc) = cr_sidecarResolver cr"
proof -
  from onServicesChanged_Inr [OF assms] obtain c um reg m where
    p: "publish wd c svcs reg (cr\<lparr>cr_upstreamMgr := um, cr_metrics := m\<rparr>, d) = Inr oc" by blast
  have "wired (cr\<lparr>cr_upstreamMgr := um, cr_metrics := m\<rparr>)" using assms(1) by simp
  from publish_wired [OF this assms(2), of c svcs reg d] p show ?thesis by auto
qed

lemma compiled_for_watcher [simp]: "compiled_for wd (cr\<lparr>cr_watcher := w\<rparr>) svcs = compiled_for wd cr svcs"
  by (rule compiled_for_cong) simp_all

lemma reachable_wired: "reachable hash S cr d \<Longrightarrow> wired cr"
proof (induction rule: reachable.induct)
  case (rs_start cr d wd cr')
  then obtain tt where "cr_tcpTable cr = Some tt" by (auto simp: wired_def)
  from Start_wired [OF rs_start.IH rs_start.hyps(2) this] rs_start.hyps(3) show ?case by auto
next
  case (rs_callback cr d wd svcs c oc)
  from callback_config [OF rs_callback.IH rs_callback.hyps(2,6)] show ?case by simp
qed (auto intro: Provision_tables(1) Stop_views(5))

lemma Stop_published:
  assumes "Stop (cr\<lparr>cr_watcher := Some w\<rparr>) = (cr', ls)"
  shows "published_for W cr' svcs = published_for W cr svcs"
proof -
  note v = Stop_views [OF assms]
  have "cr_nodeName cr' = cr_nodeName cr" "cr_sidecarResolver cr' = cr_sidecarResolver cr"
    using assms by (auto simp: Stop_def Let_def split: option.splits prod.splits)
  then have c: "compiled_for wd cr' svcs = compiled_for wd cr svcs" for wd using v(7) by (intro compiled_for_cong) simp_all
  have h: "http_table cr' = http_table cr" "cr_tcpTable cr' = cr_tcpTable cr" using v(1,6) by simp_all
  show ?thesis unfolding published_for_def c h ..
qed

text \<open>The tables always belong to the snapshot of the callback that ended last, whatever the interleaving.\<close>

definition tables_ok :: "(CompiledHTTPRoute list \<Rightarrow> string) \<Rightarrow> world set \<Rightarrow> CompiledHTTPRoute list set \<Rightarrow> system \<Rightarrow> bool" where
  "tables_ok hash W S s \<longleftrightarrow>
     reachable hash S (sy_router s) (sy_disk s) \<and> (\<forall>svcs. sy_served s = Some svcs \<longrightarrow> published_for W (sy_router s) svcs)"

definition worlds_ok :: "(CompiledHTTPRoute list \<Rightarrow> string) \<Rightarrow> world set \<Rightarrow> bool" where
  "worlds_ok hash W \<longleftrightarrow> (\<forall>wd \<in> W. iter_ok wd \<and> wd_hash wd = hash)"

lemma call_published:
  assumes "worlds_ok hash W" "route_hash hash S" "routes_closed S" "reachable hash S cr d" "wd \<in> W"
    and "compiled_for wd cr svcs = Some c" "cc_HTTPRoutes c \<in> S" "onServicesChanged wd svcs (cr\<lparr>cr_watcher := Some w\<rparr>, d) = Some (Inr oc)"
  shows "reachable hash S (oc_router oc) (oc_disk oc) \<and> published_for W (oc_router oc) svcs"
proof -
  from assms(1,5) have wd: "iter_ok wd" "wd_hash wd = hash" by (simp_all add: worlds_ok_def)
  let ?cr = "cr\<lparr>cr_watcher := Some w\<rparr>"
  have r: "reachable hash S ?cr d" by (rule rs_watcher [OF assms(4)])
  have c: "compiled_for wd ?cr svcs = Some c" using assms(6) by simp
  from callback_config [OF reachable_wired [OF r] wd(1) assms(8)] have
    "compiled_for wd (oc_router oc) svcs = compiled_for wd ?cr svcs" by (intro compiled_for_cong) simp_all
  with callback_facts [OF r assms(2,3) wd c assms(7,8)] c assms(5) have "published_for W (oc_router oc) svcs"
    unfolding published_for_def by auto
  with rs_callback [OF r wd c assms(7,8)] show ?thesis by blast
qed

lemma tables_ok_step:
  assumes "worlds_ok hash W" "route_hash hash S" "routes_closed S" "system_step serial W S s s'" "tables_ok hash W S s"
  shows "tables_ok hash W S s'"
  using assms(4) unfolding system_step_def
proof
  assume "env_step s s'"
  from env_step_effect [OF this] consider "sy_router s' = sy_router s" "sy_served s' = sy_served s" "sy_disk s' = sy_disk s"
    | ls where "Stop ((sy_router s)\<lparr>cr_watcher := Some (sy_watcher s)\<rparr>) = (sy_router s', ls)" "sy_served s' = sy_served s" "sy_disk s' = sy_disk s"
    by blast
  then show ?thesis
  proof cases
    case 2
    from assms(5) have "reachable hash S (sy_router s') (sy_disk s)"
      by (auto simp: tables_ok_def intro: rs_stop [OF rs_watcher 2(1)])
    with 2 Stop_published [OF 2(1)] assms(5) show ?thesis by (simp add: tables_ok_def)
  qed (use assms(5) in \<open>simp add: tables_ok_def\<close>)
next
  assume "internal_step serial W S s s'"
  then show ?thesis
  proof (cases rule: internal_step.cases)
    case (is_call xs svcs ys wd c oc)
    from assms(5) have "reachable hash S (sy_router s) (sy_disk s)" by (simp add: tables_ok_def)
    from call_published [OF assms(1-3) this is_call(4-7)] is_call(1) show ?thesis by (simp add: tables_ok_def)
  qed (use assms(5) in \<open>simp_all add: tables_ok_def\<close>)
qed

text \<open>One callback at a time: once every change has been taken, the callback under way has the current snapshot, or the last one had it.
  \<open>svcs0\<close> is the cache before the first change.\<close>

definition clean :: "system \<Rightarrow> bool" where
  "clean s \<longleftrightarrow> sy_owed s = [] \<and> w_pendingChanges (sy_watcher s) = [] \<and> sy_taken s = 0"

definition current :: "(string, ServiceState) gomap \<Rightarrow> system \<Rightarrow> bool" where
  "current svcs0 s \<longleftrightarrow>
     (if sy_calls s = []
      then sy_served s = Some (snapshot (sy_watcher s)) \<or> sy_served s = None \<and> w_services (sy_watcher s) = svcs0
      else hd (sy_calls s) = snapshot (sy_watcher s))"

definition fresh_ok :: "(string, ServiceState) gomap \<Rightarrow> system \<Rightarrow> bool" where
  "fresh_ok svcs0 s \<longleftrightarrow>
     list_all (\<lambda>changes. changes \<noteq> []) (sy_owed s) \<and> debounce_ok (sy_watcher s) \<and> sy_taken s + length (sy_calls s) \<le> 1 \<and>
     (sy_failed s = None \<and> clean s \<longrightarrow> current svcs0 s)"

lemma debounce_ok_part: "debounce_part w = debounce_part w' \<Longrightarrow> debounce_ok w = debounce_ok w'"
  by (simp add: debounce_part_def debounce_ok_def)

lemma Watcher_Stop_fields [simp]:
  "w_services (Watcher_Stop w) = w_services w" "w_pendingChanges (Watcher_Stop w) = w_pendingChanges w" "snapshot (Watcher_Stop w) = snapshot w"
  by (simp_all add: Watcher_Stop_def snapshot_def)

lemma watcher_op_fields [simp]:
  "w_services (timer_fires w) = w_services w" "w_pendingChanges (timer_fires w) = w_pendingChanges w" "snapshot (timer_fires w) = snapshot w"
  "w_services (take_changes w) = w_services w" "w_pendingChanges (take_changes w) = []" "snapshot (take_changes w) = snapshot w"
  "snapshot (w\<lparr>w_timerFired := n\<rparr>) = snapshot w"
  "w_timerArmed (take_changes w) = w_timerArmed w" "w_timerFired (take_changes w) = w_timerFired w"
  "\<not> w_timerArmed (timer_fires w)" "w_timerFired (timer_fires w) = Suc (w_timerFired w)"
  "w_timerFired (queueChanges w cs) = w_timerFired w" "w_stopped (timer_fires w) = w_stopped w" "w_stopped (take_changes w) = w_stopped w"
  by (simp_all add: timer_fires_def take_changes_def queueChanges_def snapshot_def)

lemma fresh_ok_env:
  assumes "env_step s s'" "fresh_ok svcs0 s"
  shows "fresh_ok svcs0 s'"
proof -
  note eff = env_step_effect [OF assms(1)]
  from eff consider (same) "w_services (sy_watcher s') = w_services (sy_watcher s)" "sy_owed s' = sy_owed s"
      "debounce_part (sy_watcher s') = debounce_part (sy_watcher s)"
    | (owed) changes where "changes \<noteq> []" "sy_owed s' = sy_owed s @ [changes]" "debounce_part (sy_watcher s') = debounce_part (sy_watcher s)"
    | (stop) "sy_owed s' = sy_owed s" "sy_watcher s' = Watcher_Stop (sy_watcher s)"
    by (metis (no_types, lifting))
  then show ?thesis
  proof cases
    case same
    have "w_pendingChanges (sy_watcher s') = w_pendingChanges (sy_watcher s)" using same(3) by (simp add: debounce_part_def)
    with same eff assms(2) debounce_ok_part [OF same(3)] snapshot_services [OF same(1)] show ?thesis
      by (simp add: fresh_ok_def clean_def current_def)
  next
    case owed
    with eff assms(2) debounce_ok_part [OF owed(3)] show ?thesis by (simp add: fresh_ok_def clean_def)
  next
    case stop
    have "debounce_ok (sy_watcher s) \<Longrightarrow> debounce_ok (Watcher_Stop (sy_watcher s))" by (auto simp: debounce_ok_def Watcher_Stop_def)
    with stop eff assms(2) show ?thesis by (simp add: fresh_ok_def clean_def current_def)
  qed
qed

lemma fresh_ok_internal:
  assumes "internal_step True W S s s'" "fresh_ok svcs0 s"
  shows "fresh_ok svcs0 s'"
  using assms(1)
proof (cases rule: internal_step.cases)
  case (is_queue xs changes ys)
  have "changes \<noteq> []" using assms(2) is_queue(3) by (simp add: fresh_ok_def)
  with is_queue assms(2) show ?thesis by (simp add: fresh_ok_def clean_def debounce_ok_def)
next
  case is_fire
  with assms(2) show ?thesis by (simp add: fresh_ok_def clean_def current_def debounce_ok_def)
next
  case is_take
  with assms(2) show ?thesis by (auto simp: fresh_ok_def clean_def current_def debounce_ok_def)
next
  case is_snap
  from assms(2) have "sy_taken s + length (sy_calls s) \<le> 1" by (simp add: fresh_ok_def)
  with is_snap(3) have "sy_taken s = 1" "length (sy_calls s) = 0" by linarith+
  with is_snap assms(2) show ?thesis by (simp add: fresh_ok_def clean_def current_def)
next
  case (is_call xs svcs ys wd c oc)
  with assms(2) have "sy_taken s = 0" "xs = []" "ys = []" by (auto simp: fresh_ok_def)
  with is_call assms(2) show ?thesis by (auto simp: fresh_ok_def clean_def current_def)
next
  case (is_crash xs svcs ys wd p)
  with assms(2) show ?thesis by (auto simp: fresh_ok_def)
qed

lemma system_run_ok:
  assumes "worlds_ok hash W" "route_hash hash S" "routes_closed S" "reachable hash S cr d"
    and "debounce_ok w" "w_pendingChanges w = []" "(system_step True W S)\<^sup>*\<^sup>* (system_start cr d w) s"
  shows "tables_ok hash W S s \<and> fresh_ok (w_services w) s"
  using assms(7)
proof (induction rule: rtranclp_induct)
  case base
  from assms(4-6) show ?case by (simp add: system_start_def tables_ok_def fresh_ok_def current_def)
next
  case (step s s')
  from step(3) tables_ok_step [OF assms(1-3) step(2)] have "tables_ok hash W S s'" by blast
  moreover have "fresh_ok (w_services w) s'"
    using step(2,3) fresh_ok_env fresh_ok_internal unfolding system_step_def by blast
  ultimately show ?case ..
qed

text \<open>When nothing is under way, the tables are those of the cache.\<close>

lemma quiet_published:
  assumes "worlds_ok hash W" "route_hash hash S" "routes_closed S" "reachable hash S cr d" "w_pendingChanges w = []"
    and "(system_step True W S)\<^sup>*\<^sup>* (system_start cr d w) s" "quiet s" "sy_failed s = None" "\<not> w_stopped (sy_watcher s)"
  shows "sy_served s = None \<and> w_services (sy_watcher s) = w_services w \<or> published_for W (sy_router s) (snapshot (sy_watcher s))"
proof -
  have "debounce_ok w" using assms(5) by (simp add: debounce_ok_def)
  from system_run_ok [OF assms(1-4) this assms(5,6)] have t: "tables_ok hash W S s" and f: "fresh_ok (w_services w) s" by simp_all
  from f assms(7,9) have "clean s" by (auto simp: fresh_ok_def clean_def quiet_def debounce_ok_def)
  with f assms(7,8) have "sy_served s = Some (snapshot (sy_watcher s)) \<or> sy_served s = None \<and> w_services (sy_watcher s) = w_services w"
    by (simp add: fresh_ok_def current_def quiet_def)
  with t show ?thesis by (auto simp: tables_ok_def)
qed

subsection \<open>The program comes to rest\<close>

definition system_rank :: "system \<Rightarrow> nat" where
  "system_rank s = 5 * length (sy_owed s) + 4 * of_bool (w_timerArmed (sy_watcher s)) + 3 * w_timerFired (sy_watcher s) +
     2 * sy_taken s + length (sy_calls s)"

text \<open>A router whose callbacks return.\<close>

definition runnable :: "ConsulRouter \<Rightarrow> bool" where
  "runnable cr \<longleftrightarrow> wired cr \<and> (\<forall>um. cr_upstreamMgr cr = Some um \<longrightarrow> range_ok um)"

lemma sync_sidecar_range:
  assumes "sync_sidecar wd cr m = Some (um', reg)" "gomap_ok m" "iter_ok wd" "\<forall>um. cr_upstreamMgr cr = Some um \<longrightarrow> range_ok um"
  shows "\<forall>um. um' = Some um \<longrightarrow> range_ok um"
proof (cases "cr_upstreamMgr cr")
  case (Some um)
  have "mset (map fst (wd_iterServices wd m)) = mset (map fst m)" using assms(3) by (simp add: iter_ok_def)
  with assms(2) have "gomap_ok (wd_iterServices wd m)" using mset_eq_imp_distinct_iff by blast
  from SyncUpstreams_total [OF _ this, of um "wd_service wd" "wd_register wd"] Some assms(1,4) show ?thesis
    by (auto simp: sync_sidecar_def split: if_splits)
qed (use assms(1) in \<open>auto simp: sync_sidecar_def\<close>)

lemma callback_runnable:
  assumes "runnable cr" "iter_ok wd" "onServicesChanged wd svcs (cr, d) = Some (Inr oc)"
  shows "runnable (oc_router oc)"
proof -
  from assms(3) obtain c parsed um reg m where
    s: "sync_sidecar wd cr (local_connect_services cr parsed (connect_services cr svcs parsed)) = Some (um, reg)"
    and p: "publish wd c svcs reg (cr\<lparr>cr_upstreamMgr := um, cr_metrics := m\<rparr>, d) = Inr oc"
    by (auto simp: onServicesChanged_cases split: option.splits sum.splits)
  from assms(1) have w: "wired (cr\<lparr>cr_upstreamMgr := um, cr_metrics := m\<rparr>)" by (simp add: runnable_def)
  from publish_wired [OF w assms(2), of c svcs reg d] p have "wired (oc_router oc)" "cr_upstreamMgr (oc_router oc) = um" by auto
  moreover have "\<forall>um. cr_upstreamMgr cr = Some um \<longrightarrow> range_ok um" using assms(1) by (simp add: runnable_def)
  note sync_sidecar_range [OF s local_connect_services_ok [OF connect_services_ok] assms(2) this]
  ultimately show ?thesis unfolding runnable_def by blast
qed

lemma runnable_watcher [simp]: "runnable cr \<Longrightarrow> runnable (cr\<lparr>cr_watcher := Some w\<rparr>)"
  by (simp add: runnable_def)

lemma call_possible:
  assumes "runnable (sy_router s)" "wd \<in> W" "iter_ok wd" "sy_failed s = None" "sy_calls s = svcs # ys"
  shows "\<exists>s'. internal_step serial W UNIV s s'"
proof -
  let ?cr = "(sy_router s)\<lparr>cr_watcher := Some (sy_watcher s)\<rparr>"
  have r: "runnable ?cr" using assms(1) by simp
  then obtain res where res: "onServicesChanged wd svcs (?cr, sy_disk s) = Some res"
    using callback_total [OF _ assms(3), of ?cr svcs "sy_disk s"] by (auto simp: runnable_def)
  have calls: "sy_calls s = [] @ svcs # ys" using assms(5) by simp
  show ?thesis
  proof (cases res)
    case (Inl p)
    with is_crash [OF assms(4) calls assms(2)] res show ?thesis by blast
  next
    case (Inr oc)
    from r have "wired ?cr" by (simp add: runnable_def)
    from onServicesChanged_Inr [OF this assms(3)] res Inr obtain c where "compiled_for wd ?cr svcs = Some c" by blast
    then have "compiled_for wd (sy_router s) svcs = Some c" by simp
    from is_call [OF assms(4) calls assms(2) this UNIV_I] res Inr show ?thesis by blast
  qed
qed

lemma internal_step_runnable:
  assumes "\<forall>wd \<in> W. iter_ok wd" "internal_step serial W S s s'" "runnable (sy_router s)"
  shows "runnable (sy_router s')"
  using assms(2)
proof (cases rule: internal_step.cases)
  case (is_call xs svcs ys wd c oc)
  have "iter_ok wd" using assms(1) is_call(4) by blast
  from callback_runnable [OF runnable_watcher [OF assms(3)] this is_call(7)] is_call(1) show ?thesis by simp
qed (use assms(3) in simp_all)

lemma internal_step_rank: "internal_step serial W S s s' \<Longrightarrow> system_rank s' < system_rank s"
  by (induction rule: internal_step.induct) (simp_all add: system_rank_def, arith)

lemma internal_progress:
  assumes "wd \<in> W" "iter_ok wd" "runnable (sy_router s)" "sy_failed s = None" "\<not> quiet s"
  shows "\<exists>s'. internal_step serial W UNIV s s'"
proof (cases "sy_calls s")
  case (Cons svcs ys)
  from call_possible [OF assms(3,1,2,4) Cons] show ?thesis .
next
  case Nil
  consider changes ys where "sy_owed s = [] @ changes # ys" | "w_timerArmed (sy_watcher s)" | "sy_taken s > 0"
    | "w_timerFired (sy_watcher s) > 0" "sy_taken s = 0"
    using assms(5) Nil by (cases "sy_owed s") (auto simp: quiet_def)
  then show ?thesis
  proof cases
    case 1
    from is_queue [OF assms(4) 1] show ?thesis by blast
  next
    case 2
    from is_fire [OF assms(4) 2] show ?thesis by blast
  next
    case 3
    from is_snap [OF assms(4) 3] show ?thesis by blast
  next
    case 4
    with is_take [OF assms(4) 4(1)] Nil show ?thesis by blast
  qed
qed

text \<open>The goroutines of the program settle, for every set of worlds in which maps are iterated properly.\<close>

definition iter_worlds :: "world set \<Rightarrow> bool" where
  "iter_worlds W \<longleftrightarrow> W \<noteq> {} \<and> (\<forall>wd \<in> W. iter_ok wd)"

definition at_rest :: "system \<Rightarrow> bool" where
  "at_rest s \<longleftrightarrow> sy_failed s \<noteq> None \<or> quiet s"

interpretation sys: settling "\<lambda>s s'. iter_worlds W \<and> internal_step serial W UNIV s s'" at_rest system_rank
  "\<lambda>s. iter_worlds W \<and> runnable (sy_router s)" for serial W
proof
  fix s s'
  show "iter_worlds W \<and> runnable (sy_router s) \<Longrightarrow> iter_worlds W \<and> internal_step serial W UNIV s s' \<Longrightarrow>
      iter_worlds W \<and> runnable (sy_router s')"
    using internal_step_runnable unfolding iter_worlds_def by blast
  show "iter_worlds W \<and> internal_step serial W UNIV s s' \<Longrightarrow> system_rank s' < system_rank s"
    using internal_step_rank by blast
  show "iter_worlds W \<and> runnable (sy_router s) \<Longrightarrow> \<not> at_rest s \<Longrightarrow>
      \<exists>s'. iter_worlds W \<and> internal_step serial W UNIV s s'"
    using internal_progress unfolding iter_worlds_def at_rest_def by blast
qed

subsection \<open>Sample runs\<close>

lemma callback_runs:
  assumes "runnable cr" "iter_ok wd" "compiled_for wd cr svcs = Some c"
  shows "\<exists>oc. onServicesChanged wd svcs (cr, d) = Some (Inr oc)"
proof -
  from assms(1) callback_total [OF _ assms(2), of cr svcs d] obtain res where
    res: "onServicesChanged wd svcs (cr, d) = Some res" and l: "isl res \<longleftrightarrow> (\<exists>p. parse_services cr svcs = Inl p)"
    unfolding runnable_def parse_services_panics by blast
  from assms(3) have "\<nexists>p. parse_services cr svcs = Inl p" by (auto simp: compiled_for_def split: sum.splits)
  with l res show ?thesis by (cases res) auto
qed

lemma internal_run:
  "internal_step serial W S s t \<Longrightarrow> (system_step serial W S)\<^sup>*\<^sup>* t u \<Longrightarrow> (system_step serial W S)\<^sup>*\<^sup>* s u"
  by (rule converse_rtranclp_into_rtranclp) (unfold system_step_def, blast+)

lemma env_run: "env_step s t \<Longrightarrow> (system_step serial W S)\<^sup>*\<^sup>* t u \<Longrightarrow> (system_step serial W S)\<^sup>*\<^sup>* s u"
  by (rule converse_rtranclp_into_rtranclp) (unfold system_step_def, blast+)

text \<open>Changes owed by one goroutine, with no flush under way, end up in a callback's snapshot.\<close>

lemma flush_run:
  fixes s changes defines "w' \<equiv> take_changes ((timer_fires (queueChanges (sy_watcher s) changes))\<lparr>w_timerFired := 0\<rparr>)"
  assumes "sy_failed s = None" "sy_owed s = [changes]" "changes \<noteq> []" "w_timerFired (sy_watcher s) = 0" "sy_taken s = 0"
    and "serial \<longrightarrow> sy_calls s = []"
  shows "(system_step serial W S)\<^sup>*\<^sup>* s (s\<lparr>sy_watcher := w', sy_owed := [], sy_calls := sy_calls s @ [snapshot (sy_watcher s)]\<rparr>)"
proof -
  let ?w1 = "queueChanges (sy_watcher s) changes"
  let ?s1 = "s\<lparr>sy_watcher := ?w1, sy_owed := []\<rparr>"
  let ?s2 = "?s1\<lparr>sy_watcher := timer_fires ?w1\<rparr>"
  let ?s3 = "?s2\<lparr>sy_watcher := w', sy_taken := 1\<rparr>"
  have "internal_step serial W S s ?s1" using is_queue [OF assms(2), of "[]" changes "[]"] assms(3) by simp
  note 1 = internal_run [OF this]
  have "internal_step serial W S ?s1 ?s2" using is_fire [of ?s1] assms(2) by simp
  note 2 = internal_run [OF this]
  have "internal_step serial W S ?s2 ?s3"
    using is_take [of ?s2 serial W S] assms(2,4-7) by (simp add: w'_def)
  note 3 = internal_run [OF this]
  have "internal_step serial W S ?s3 (?s3\<lparr>sy_taken := 0, sy_calls := sy_calls s @ [snapshot w']\<rparr>)"
    using is_snap [of ?s3 serial W S] assms(2) by simp
  note 4 = internal_run [OF this rtranclp.rtrancl_refl]
  have "?s3\<lparr>sy_taken := 0, sy_calls := sy_calls s @ [snapshot w']\<rparr> =
      s\<lparr>sy_watcher := w', sy_owed := [], sy_calls := sy_calls s @ [snapshot (sy_watcher s)]\<rparr>"
    using assms(6) by (cases s) (simp add: w'_def snapshot_def queueChanges_def timer_fires_def take_changes_def)
  then show ?thesis using 1 [OF 2 [OF 3 [OF 4]]] by (rule subst)
qed

lemma call_run:
  assumes "runnable (sy_router s)" "iter_ok wd" "wd \<in> W" "compiled_for wd (sy_router s) svcs = Some c" "cc_HTTPRoutes c \<in> S"
    and "sy_failed s = None" "sy_calls s = xs @ svcs # ys"
  shows "\<exists>oc. onServicesChanged wd svcs ((sy_router s)\<lparr>cr_watcher := Some (sy_watcher s)\<rparr>, sy_disk s) = Some (Inr oc) \<and>
    runnable (oc_router oc) \<and> (\<forall>svcs'. compiled_for wd (oc_router oc) svcs' = compiled_for wd (sy_router s) svcs') \<and>
    system_step serial W S s
      (s\<lparr>sy_router := oc_router oc, sy_disk := oc_disk oc, sy_calls := xs @ ys, sy_served := Some svcs\<rparr>)"
proof -
  let ?cr = "(sy_router s)\<lparr>cr_watcher := Some (sy_watcher s)\<rparr>"
  have r: "runnable ?cr" using assms(1) by simp
  have "compiled_for wd ?cr svcs = Some c" using assms(4) by simp
  from callback_runs [OF r assms(2) this] obtain oc where oc: "onServicesChanged wd svcs (?cr, sy_disk s) = Some (Inr oc)" by blast
  from r have "wired ?cr" by (simp add: runnable_def)
  from callback_config [OF this assms(2) oc] have "compiled_for wd (oc_router oc) svcs' = compiled_for wd ?cr svcs'" for svcs'
    by (intro compiled_for_cong) simp_all
  with callback_runnable [OF r assms(2) oc] is_call [OF assms(6,7,3-5) oc] oc show ?thesis by (auto simp: system_step_def)
qed

definition cached_watcher :: ConsulWatcher where
  "cached_watcher = (NewConsulWatcher HealthPolicyPassing ''caddy-consul'' ''caddy-consul-connect'')\<lparr>w_services := sample_services ''4xx''\<rparr>"

definition sample_start :: system where
  "sample_start = system_start (sample_router NoFile) NoFile cached_watcher"

abbreviation "sample_lists \<equiv> {[], [sample_http_route], [json_route sample_http_route]}"

lemma sample_lists_ok: "route_hash (wd_hash sample_world) sample_lists" "routes_closed sample_lists"
  by (rule sample_hash, simp add: sample_http_route_def)+

lemma sample_runnable: "runnable (sample_router d)"
  by (simp add: runnable_def sample_router_facts)

lemma sample_worlds: "worlds_ok (wd_hash sample_world) {sample_world}" "iter_worlds {sample_world}"
  by (simp_all add: worlds_ok_def iter_worlds_def sample_iter)

lemma empty_compiles:
  "\<exists>c. compiled_for sample_world (sample_router d) [] = Some c \<and> cc_HTTPRoutes c = [] \<and> cc_TCPRoutes c = []"
proof -
  have "compiled_for sample_world (sample_router d) [] = compiled_for sample_world (new_router sample_config) []"
    by (rule compiled_for_cong) (simp_all add: sample_router_def provision_discovery_def Let_def)
  moreover have "map_option cc_HTTPRoutes (compiled_for sample_world (new_router sample_config) []) = Some []"
    "map_option cc_TCPRoutes (compiled_for sample_world (new_router sample_config) []) = Some []" by code_simp+
  ultimately show ?thesis by auto
qed

text \<open>A fetch of a service without entries and with index 0 changes the cache, but not the snapshot; its flush has started a
  callback.\<close>

definition other_watcher :: ConsulWatcher where
  "other_watcher = take_changes ((timer_fires (queueChanges (fst (fetch_locked cached_watcher ''other'' [] 0))
     (snd (fetch_locked cached_watcher ''other'' [] 0))))\<lparr>w_timerFired := 0\<rparr>)"

lemma other_watcher_facts:
  "snapshot (fst (fetch_locked cached_watcher ''other'' [] 0)) = sample_services ''4xx''" "snapshot other_watcher = sample_services ''4xx''"
  "w_services other_watcher \<noteq> []"
  "w_pendingChanges other_watcher = []" "\<not> w_timerArmed other_watcher" "w_timerFired other_watcher = 0" "\<not> w_stopped other_watcher"
  by (simp_all add: other_watcher_def cached_watcher_def fetch_locked_def Let_def queueChanges_def timer_fires_def take_changes_def
      snapshot_def NewConsulWatcher_def sample_services_def tcp_service_def http_service_def)

lemma sample_first_call:
  "(system_step serial W S)\<^sup>*\<^sup>* sample_start (sample_start\<lparr>sy_watcher := other_watcher, sy_calls := [sample_services ''4xx'']\<rparr>)"
proof -
  let ?f = "fetch_locked cached_watcher ''other'' [] 0"
  let ?s1 = "sample_start\<lparr>sy_watcher := fst ?f, sy_owed := [snd ?f]\<rparr>"
  have "snd ?f \<noteq> []" by (simp add: fetch_locked_def Let_def)
  moreover have "env_step sample_start (owe (snd ?f) (sample_start\<lparr>sy_watcher := fst ?f\<rparr>))"
    by (rule ev_fetch [of _ "''other''" "[]" 0]) (simp_all add: sample_start_def system_start_def)
  ultimately have "env_step sample_start ?s1" by (simp add: owe_def sample_start_def system_start_def)
  note start = env_run [OF this]
  have "(system_step serial W S)\<^sup>*\<^sup>* ?s1 (?s1\<lparr>sy_watcher := other_watcher, sy_owed := [],
      sy_calls := sy_calls ?s1 @ [snapshot (sy_watcher ?s1)]\<rparr>)"
    using flush_run [of ?s1 "snd ?f" serial W S] \<open>snd ?f \<noteq> []\<close>
    by (simp add: sample_start_def system_start_def other_watcher_def fetch_locked_def cached_watcher_def NewConsulWatcher_def Let_def)
  note run = start [OF this]
  have "?s1\<lparr>sy_watcher := other_watcher, sy_owed := [], sy_calls := sy_calls ?s1 @ [snapshot (sy_watcher ?s1)]\<rparr> =
      sample_start\<lparr>sy_watcher := other_watcher, sy_calls := [sample_services ''4xx'']\<rparr>"
    by (simp add: sample_start_def system_start_def other_watcher_facts)
  then show ?thesis using run by (rule subst)
qed

text \<open>The state after the callback with the sample services, reached with the given watcher.\<close>

definition sample_done :: "ConsulWatcher \<Rightarrow> system \<Rightarrow> bool" where
  "sample_done w s \<longleftrightarrow> sy_watcher s = w \<and> sy_owed s = [] \<and> sy_taken s = 0 \<and> sy_calls s = [] \<and> sy_failed s = None \<and>
     sy_served s = Some (sample_services ''4xx'') \<and> runnable (sy_router s) \<and>
     compiled_for sample_world (sy_router s) (sample_services ''4xx'') = Some sample_compiled"

lemma sample_call:
  assumes "runnable (sy_router s)" "compiled_for sample_world (sy_router s) (sample_services ''4xx'') = Some sample_compiled"
    and "sy_failed s = None" "sy_calls s = [sample_services ''4xx'']" "sy_owed s = []" "sy_taken s = 0"
  shows "\<exists>s'. system_step serial {sample_world} sample_lists s s' \<and> sample_done (sy_watcher s) s'"
proof -
  have l: "cc_HTTPRoutes sample_compiled \<in> sample_lists" by (simp add: sample_compiled_def)
  have "sy_calls s = [] @ sample_services ''4xx'' # []" using assms(4) by simp
  from call_run [OF assms(1) sample_iter insertI1 assms(2) l assms(3) this, of serial "{}"] obtain oc :: outcome where
    r: "runnable (oc_router oc)" "\<And>svcs. compiled_for sample_world (oc_router oc) svcs = compiled_for sample_world (sy_router s) svcs"
    and st: "system_step serial {sample_world} sample_lists s (s\<lparr>sy_router := oc_router oc, sy_disk := oc_disk oc, sy_calls := [] @ [],
      sy_served := Some (sample_services ''4xx'')\<rparr>)" by blast
  have "sample_done (sy_watcher s) (s\<lparr>sy_router := oc_router oc, sy_disk := oc_disk oc, sy_calls := [] @ [],
      sy_served := Some (sample_services ''4xx'')\<rparr>)" using assms r by (simp add: sample_done_def)
  with st show ?thesis by blast
qed

lemma sample_served: "\<exists>s. (system_step serial {sample_world} sample_lists)\<^sup>*\<^sup>* sample_start s \<and> sample_done other_watcher s"
proof -
  let ?s = "sample_start\<lparr>sy_watcher := other_watcher, sy_calls := [sample_services ''4xx'']\<rparr>"
  have r: "sy_router ?s = sample_router NoFile" by (simp add: sample_start_def system_start_def)
  have "runnable (sy_router ?s)" "compiled_for sample_world (sy_router ?s) (sample_services ''4xx'') = Some sample_compiled"
    unfolding r by (rule sample_runnable, rule sample_compiles)
  from sample_call [OF this] obtain s where s: "system_step serial {sample_world} sample_lists ?s s" "sample_done other_watcher s"
    by (auto simp: sample_start_def system_start_def)
  with sample_first_call [of serial "{sample_world}" sample_lists] show ?thesis by (meson rtranclp.rtrancl_into_rtrancl)
qed

lemma sample_done_facts:
  assumes "sample_done other_watcher s"
  shows "quiet s" "sy_failed s = None" "\<not> w_stopped (sy_watcher s)" "sy_served s \<noteq> None"
    "snapshot (sy_watcher s) = sample_services ''4xx''" "w_pendingChanges cached_watcher = []"
  using assms other_watcher_facts by (simp_all add: sample_done_def quiet_def cached_watcher_def NewConsulWatcher_def)

text \<open>The run in which a second flush overtakes the first: its callback is done when the first one publishes its older snapshot.\<close>

definition emptied :: "ConsulWatcher \<times> string list \<times> ServiceChange list" where
  "emptied = reconcile_locked (other_watcher\<lparr>w_catalogIndex := 7\<rparr>) []"

definition emptied_watcher :: ConsulWatcher where
  "emptied_watcher = take_changes ((timer_fires (queueChanges (fst emptied) (snd (snd emptied))))\<lparr>w_timerFired := 0\<rparr>)"

lemma emptied_facts:
  "snd (snd emptied) \<noteq> []" "w_timerFired (fst emptied) = 0" "snapshot (fst emptied) = []"
  "w_services emptied_watcher = []" "w_routableServices emptied_watcher = []" "w_pendingChanges emptied_watcher = []"
  "\<not> w_timerArmed emptied_watcher" "w_timerFired emptied_watcher = 0" "\<not> w_stopped emptied_watcher"
  using other_watcher_facts
  by (simp_all add: emptied_watcher_def emptied_def reconcile_locked_def current_routable_def get_or_def Let_def queueChanges_def
      timer_fires_def take_changes_def snapshot_def)

lemma overtaken_run:
  "(system_step False W S)\<^sup>*\<^sup>* sample_start (sample_start\<lparr>sy_watcher := emptied_watcher, sy_calls := [sample_services ''4xx'', []]\<rparr>)"
proof -
  let ?s = "sample_start\<lparr>sy_watcher := other_watcher, sy_calls := [sample_services ''4xx'']\<rparr>"
  let ?s1 = "?s\<lparr>sy_watcher := fst emptied, sy_owed := [snd (snd emptied)]\<rparr>"
  have e: "reconcile_locked ((sy_watcher ?s)\<lparr>w_catalogIndex := 7\<rparr>) [] = (fst emptied, fst (snd emptied), snd (snd emptied))"
    by (simp add: emptied_def)
  have "env_step ?s (owe (snd (snd emptied)) (?s\<lparr>sy_watcher := fst emptied\<rparr>))"
    by (rule ev_catalog [OF _ e]) (simp add: sample_start_def system_start_def)
  then have "env_step ?s ?s1" using emptied_facts(1) by (simp add: owe_def sample_start_def system_start_def)
  note start = env_run [OF this]
  have "(system_step False W S)\<^sup>*\<^sup>* ?s1 (?s1\<lparr>sy_watcher := emptied_watcher, sy_owed := [], sy_calls := sy_calls ?s1 @ [snapshot (sy_watcher ?s1)]\<rparr>)"
    using flush_run [of ?s1 "snd (snd emptied)" False W S] emptied_facts(1,2)
    by (simp add: sample_start_def system_start_def emptied_watcher_def)
  note run = rtranclp_trans [OF sample_first_call start [OF this]]
  have "?s1\<lparr>sy_watcher := emptied_watcher, sy_owed := [], sy_calls := sy_calls ?s1 @ [snapshot (sy_watcher ?s1)]\<rparr> =
      sample_start\<lparr>sy_watcher := emptied_watcher, sy_calls := [sample_services ''4xx'', []]\<rparr>"
    by (simp add: sample_start_def system_start_def emptied_facts)
  then show ?thesis using run by (rule subst)
qed

lemma overtaken_calls: "\<exists>s. (system_step False {sample_world} sample_lists)\<^sup>*\<^sup>* sample_start s \<and> sample_done emptied_watcher s"
proof -
  let ?s = "sample_start\<lparr>sy_watcher := emptied_watcher, sy_calls := [sample_services ''4xx'', []]\<rparr>"
  let ?run = "(system_step False {sample_world} sample_lists)\<^sup>*\<^sup>* sample_start"
  have f: "sy_failed ?s = None" "sy_router ?s = sample_router NoFile" "sy_calls ?s = [sample_services ''4xx''] @ [] # []"
    by (simp_all add: sample_start_def system_start_def)
  obtain c where c: "compiled_for sample_world (sy_router ?s) [] = Some c" and l: "cc_HTTPRoutes c \<in> sample_lists"
    using empty_compiles unfolding f(2) by blast
  have r: "runnable (sy_router ?s)" unfolding f(2) by (rule sample_runnable)
  from call_run [OF r sample_iter insertI1 c l f(1,3), of False "{}"] obtain oc :: outcome where
    r1: "runnable (oc_router oc)" "\<And>svcs. compiled_for sample_world (oc_router oc) svcs = compiled_for sample_world (sy_router ?s) svcs"
    and s1: "system_step False {sample_world} sample_lists ?s (?s\<lparr>sy_router := oc_router oc, sy_disk := oc_disk oc,
      sy_calls := [sample_services ''4xx''] @ [], sy_served := Some []\<rparr>)" by blast
  let ?s1 = "?s\<lparr>sy_router := oc_router oc, sy_disk := oc_disk oc, sy_calls := [sample_services ''4xx''] @ [], sy_served := Some []\<rparr>"
  have run1: "?run ?s1" using overtaken_run s1 by (rule rtranclp.rtrancl_into_rtrancl)
  have "runnable (sy_router ?s1)" "compiled_for sample_world (sy_router ?s1) (sample_services ''4xx'') = Some sample_compiled"
    using r1 sample_compiles f(2) by simp_all
  from sample_call [OF this] obtain s where "system_step False {sample_world} sample_lists ?s1 s" "sample_done emptied_watcher s"
    by (auto simp: sample_start_def system_start_def)
  with run1 show ?thesis by (meson rtranclp.rtrancl_into_rtrancl)
qed

subsection \<open>Properties\<close>

text \<open>C10: The published routes converge to Consul's services, when flushes do not overlap. Whatever the interleaving of the watch loops,
  fetches, timers, flushes and callbacks since the start of an instance, once nothing is under way and the instance has neither
  panicked nor been stopped, either nothing has changed since the start, or the tables are those compiled from the services that the
  watcher has in its cache at that moment.\<close>

theorem system_converges:
  assumes "worlds_ok hash W" "route_hash hash S" "routes_closed S" "reachable hash S cr d" "w_pendingChanges w = []"
    and "(system_step True W S)\<^sup>*\<^sup>* (system_start cr d w) s" "quiet s" "sy_failed s = None" "\<not> w_stopped (sy_watcher s)"
  shows "sy_served s = None \<and> w_services (sy_watcher s) = w_services w \<or> published_for W (sy_router s) (snapshot (sy_watcher s))"
  by (rule quiet_published [OF assms])

theorem system_converges_witness:
  "\<exists>s. (system_step True {sample_world} sample_lists)\<^sup>*\<^sup>* sample_start s \<and> quiet s \<and> snapshot (sy_watcher s) = sample_services ''4xx'' \<and>
     published_for {sample_world} (sy_router s) (sample_services ''4xx'')"
proof -
  obtain s where run: "(system_step True {sample_world} sample_lists)\<^sup>*\<^sup>* sample_start s" and s: "sample_done other_watcher s"
    using sample_served by blast
  note q = sample_done_facts [OF s]
  from system_converges [OF sample_worlds(1) sample_lists_ok sample_reachable q(6) run [unfolded sample_start_def] q(1-3)] q run show ?thesis
    by auto
qed



text \<open>Without that order the tables can stay behind for good. Two flushes overlap, the later one publishes first, and the earlier
  one then publishes its older snapshot: here Consul has removed every service, the cache is empty, nothing is under way and no
  re-fetch has anything to fetch, but the HTTP table still routes \<open>a.example\<close> to the removed service.\<close>

theorem overlapping_flushes_publish_stale:
  "\<exists>s. (system_step False {sample_world} sample_lists)\<^sup>*\<^sup>* sample_start s \<and> quiet s \<and> sy_failed s = None \<and>
     \<not> w_stopped (sy_watcher s) \<and> w_pendingChanges (sy_watcher s) = [] \<and> w_services (sy_watcher s) = [] \<and>
     w_routableServices (sy_watcher s) = [] \<and> map ch_Host (http_table (sy_router s)) = [''a.example'']"
proof -
  from overtaken_calls obtain s where run: "(system_step False {sample_world} sample_lists)\<^sup>*\<^sup>* sample_start s"
    and s: "sample_done emptied_watcher s" by blast
  have "tables_ok (wd_hash sample_world) {sample_world} sample_lists sample_start"
    using sample_reachable by (simp add: tables_ok_def sample_start_def system_start_def)
  with run have "tables_ok (wd_hash sample_world) {sample_world} sample_lists s"
    by (induction rule: rtranclp_induct) (auto intro: tables_ok_step [OF sample_worlds(1) sample_lists_ok])
  with s have "published_for {sample_world} (sy_router s) (sample_services ''4xx'')" by (simp add: tables_ok_def sample_done_def)
  with s have "same_json (http_table (sy_router s)) [sample_http_route]" by (auto simp: published_for_def sample_compiled_def sample_done_def)
  from same_json_hosts [OF this] have "map ch_Host (http_table (sy_router s)) = [''a.example'']" by (simp add: sample_http_route_def)
  with run s emptied_facts show ?thesis by (auto simp: quiet_def sample_done_def)
qed

end
