(* ===== verification/Service_Store.thy ===== *)
theory Service_Store
  imports Watcher
begin

text \<open>
  \<open>clone\<close> of \<open>types.go\<close>, on a store. Elsewhere in the development a service state is a value; in the code it holds pointers to
  arrays and maps, and the health-state watcher writes flags into the array of instances in place. Here the arrays and maps have
  addresses: a slice or map is None when nil and an address otherwise, and the store says what lies there. The theory shows that a
  snapshot made of clones is a value, and that the in-place writes do what \<open>set_health\<close> does on values.
\<close>

subsection \<open>Model\<close>

record InstanceRef =
  ir_ID :: string
  ir_Address :: string
  ir_Port :: int
  ir_Tags :: "nat option"
  ir_Meta :: "nat option"
  ir_Healthy :: bool
  ir_Weight :: int
  ir_NodeName :: string

record StateRef =
  rf_Name :: string
  rf_Tags :: "nat option"
  rf_Meta :: "nat option"
  rf_Instances :: "nat option"
  rf_LastIndex :: "64 word"

record store =
  st_strings :: "nat \<Rightarrow> string list"
  st_maps :: "nat \<Rightarrow> (string, string) gomap"
  st_instances :: "nat \<Rightarrow> InstanceRef list"
  st_next :: nat

definition empty_store :: store where
  "empty_store = \<lparr>st_strings = (\<lambda>_. []), st_maps = (\<lambda>_. []), st_instances = (\<lambda>_. []), st_next = 0\<rparr>"

text \<open>\<open>make\<close> followed by the copy, for a slice of strings, a map and a slice of instances.\<close>

definition new_strings :: "string list \<Rightarrow> store \<Rightarrow> nat \<times> store" where
  "new_strings v h = (st_next h, h\<lparr>st_strings := (st_strings h)(st_next h := v), st_next := Suc (st_next h)\<rparr>)"

definition new_map :: "(string, string) gomap \<Rightarrow> store \<Rightarrow> nat \<times> store" where
  "new_map v h = (st_next h, h\<lparr>st_maps := (st_maps h)(st_next h := v), st_next := Suc (st_next h)\<rparr>)"

definition new_instances :: "InstanceRef list \<Rightarrow> store \<Rightarrow> nat \<times> store" where
  "new_instances v h = (st_next h, h\<lparr>st_instances := (st_instances h)(st_next h := v), st_next := Suc (st_next h)\<rparr>)"

definition copy_strings :: "nat option \<Rightarrow> store \<Rightarrow> nat option \<times> store" where
  "copy_strings p h = (case p of None \<Rightarrow> (None, h) | Some a \<Rightarrow> map_prod Some id (new_strings (st_strings h a) h))"

definition copy_map :: "nat option \<Rightarrow> store \<Rightarrow> nat option \<times> store" where
  "copy_map p h = (case p of None \<Rightarrow> (None, h) | Some a \<Rightarrow> map_prod Some id (new_map (st_maps h a) h))"

definition Instance_clone :: "InstanceRef \<Rightarrow> store \<Rightarrow> InstanceRef \<times> store" where
  "Instance_clone si h =
     (case copy_strings (ir_Tags si) h of (tags, h1) \<Rightarrow>
      case copy_map (ir_Meta si) h1 of (meta, h2) \<Rightarrow> (si\<lparr>ir_Tags := tags, ir_Meta := meta\<rparr>, h2))"

fun clone_loop :: "InstanceRef list \<Rightarrow> store \<Rightarrow> InstanceRef list \<times> store" where
  "clone_loop [] h = ([], h)"
| "clone_loop (inst # insts) h =
     (case Instance_clone inst h of (c, h1) \<Rightarrow> case clone_loop insts h1 of (cs, h2) \<Rightarrow> (c # cs, h2))"

definition State_clone :: "StateRef \<Rightarrow> store \<Rightarrow> StateRef \<times> store" where
  "State_clone s h =
     (case copy_strings (rf_Tags s) h of (tags, h1) \<Rightarrow>
      case copy_map (rf_Meta s) h1 of (meta, h2) \<Rightarrow>
      case rf_Instances s of
        None \<Rightarrow> (s\<lparr>rf_Tags := tags, rf_Meta := meta, rf_Instances := None\<rparr>, h2)
      | Some a \<Rightarrow>
          (case clone_loop (st_instances h2 a) h2 of (cs, h3) \<Rightarrow>
           case new_instances cs h3 of (b, h4) \<Rightarrow> (s\<lparr>rf_Tags := tags, rf_Meta := meta, rf_Instances := Some b\<rparr>, h4)))"

text \<open>The values that references stand for.\<close>

definition read_strings :: "store \<Rightarrow> nat option \<Rightarrow> string list" where
  "read_strings h p = (case p of None \<Rightarrow> [] | Some a \<Rightarrow> st_strings h a)"

definition read_map :: "store \<Rightarrow> nat option \<Rightarrow> (string, string) gomap" where
  "read_map h p = (case p of None \<Rightarrow> [] | Some a \<Rightarrow> st_maps h a)"

definition read_instance :: "store \<Rightarrow> InstanceRef \<Rightarrow> ServiceInstance" where
  "read_instance h si =
     \<lparr>si_ID = ir_ID si, si_Address = ir_Address si, si_Port = ir_Port si, si_Tags = read_strings h (ir_Tags si),
      si_Meta = read_map h (ir_Meta si), si_Healthy = ir_Healthy si, si_Weight = ir_Weight si, si_NodeName = ir_NodeName si\<rparr>"

definition read_state :: "store \<Rightarrow> StateRef \<Rightarrow> ServiceState" where
  "read_state h s =
     \<lparr>ss_Name = rf_Name s, ss_Tags = read_strings h (rf_Tags s), ss_Meta = read_map h (rf_Meta s),
      ss_Instances = (case rf_Instances s of None \<Rightarrow> [] | Some a \<Rightarrow> map (read_instance h) (st_instances h a)),
      ss_LastIndex = rf_LastIndex s\<rparr>"

text \<open>The loop of the health-state watcher over the instances of one service, in place.\<close>

definition write_health :: "(string, bool) gomap \<Rightarrow> nat \<Rightarrow> store \<Rightarrow> store" where
  "write_health passingIDs a h =
     h\<lparr>st_instances := (st_instances h)(a := map (\<lambda>inst. inst\<lparr>ir_Healthy := get_or False passingIDs (ir_ID inst)\<rparr>) (st_instances h a))\<rparr>"

lemmas [go_eval] = empty_store_def new_strings_def new_map_def new_instances_def copy_strings_def copy_map_def Instance_clone_def
  State_clone_def read_strings_def read_map_def read_instance_def read_state_def write_health_def

subsection \<open>Addresses\<close>

text \<open>The references of an instance and of a state lie in a set of addresses.\<close>

definition ptr_in :: "nat set \<Rightarrow> nat option \<Rightarrow> bool" where
  "ptr_in A p \<longleftrightarrow> (\<forall>a. p = Some a \<longrightarrow> a \<in> A)"

definition instance_in :: "nat set \<Rightarrow> InstanceRef \<Rightarrow> bool" where
  "instance_in A si \<longleftrightarrow> ptr_in A (ir_Tags si) \<and> ptr_in A (ir_Meta si)"

definition state_in :: "nat set \<Rightarrow> store \<Rightarrow> StateRef \<Rightarrow> bool" where
  "state_in A h s \<longleftrightarrow> ptr_in A (rf_Tags s) \<and> ptr_in A (rf_Meta s) \<and> ptr_in A (rf_Instances s) \<and>
     (\<forall>a. rf_Instances s = Some a \<longrightarrow> list_all (instance_in A) (st_instances h a))"

definition same_on :: "nat set \<Rightarrow> store \<Rightarrow> store \<Rightarrow> bool" where
  "same_on A h h' \<longleftrightarrow> (\<forall>a \<in> A. st_strings h' a = st_strings h a \<and> st_maps h' a = st_maps h a \<and> st_instances h' a = st_instances h a)"

abbreviation below :: "store \<Rightarrow> nat set" where
  "below h \<equiv> {..<st_next h}"

abbreviation between :: "store \<Rightarrow> store \<Rightarrow> nat set" where
  "between h h' \<equiv> {st_next h..<st_next h'}"

lemma same_on_refl: "same_on A h h"
  by (simp add: same_on_def)

lemma same_on_trans: "same_on A h h' \<Longrightarrow> same_on B h' h'' \<Longrightarrow> A \<subseteq> B \<Longrightarrow> same_on A h h''"
  unfolding same_on_def by (metis subsetD)

lemma ptr_in_mono: "ptr_in A p \<Longrightarrow> A \<subseteq> B \<Longrightarrow> ptr_in B p"
  by (auto simp: ptr_in_def)

lemma instance_in_mono: "instance_in A si \<Longrightarrow> A \<subseteq> B \<Longrightarrow> instance_in B si"
  by (auto simp: instance_in_def intro: ptr_in_mono)

lemma read_same:
  assumes "same_on A h h'"
  shows "ptr_in A p \<Longrightarrow> read_strings h' p = read_strings h p" "ptr_in A p \<Longrightarrow> read_map h' p = read_map h p"
    "instance_in A si \<Longrightarrow> read_instance h' si = read_instance h si"
proof -
  show 1: "ptr_in A p \<Longrightarrow> read_strings h' p = read_strings h p" "ptr_in A p \<Longrightarrow> read_map h' p = read_map h p" for p
    using assms by (auto simp: same_on_def ptr_in_def read_strings_def read_map_def split: option.split)
  show "instance_in A si \<Longrightarrow> read_instance h' si = read_instance h si"
    using 1 by (simp add: instance_in_def read_instance_def)
qed

lemma read_state_same:
  assumes "same_on A h h'" "state_in A h s"
  shows "read_state h' s = read_state h s"
proof -
  have "map (read_instance h') (st_instances h' a) = map (read_instance h) (st_instances h a)" if "rf_Instances s = Some a" for a
  proof -
    from that assms have "st_instances h' a = st_instances h a" by (auto simp: state_in_def ptr_in_def same_on_def)
    moreover have "list_all (instance_in A) (st_instances h a)" using that assms(2) by (simp add: state_in_def)
    ultimately show ?thesis using read_same(3) [OF assms(1)] by (auto simp: list_all_iff)
  qed
  then show ?thesis
    using assms read_same(1,2) [OF assms(1)] by (auto simp: state_in_def read_state_def split: option.split)
qed

text \<open>What a copy does: it keeps what was there, takes only new addresses, and reads the same.\<close>

definition fresh_copy :: "store \<Rightarrow> store \<Rightarrow> bool" where
  "fresh_copy h h' \<longleftrightarrow> st_next h \<le> st_next h' \<and> same_on (below h) h h'"

lemma fresh_copy_trans: "fresh_copy h h' \<Longrightarrow> fresh_copy h' h'' \<Longrightarrow> fresh_copy h h''"
  unfolding fresh_copy_def using same_on_trans by (metis lessThan_subset_iff order_trans)

lemma copy_strings_fresh:
  "copy_strings p h = (q, h') \<Longrightarrow> fresh_copy h h' \<and> ptr_in (between h h') q \<and> read_strings h' q = read_strings h p"
  by (auto simp: copy_strings_def new_strings_def fresh_copy_def same_on_def ptr_in_def read_strings_def split: option.splits)

lemma copy_map_fresh:
  "copy_map p h = (q, h') \<Longrightarrow> fresh_copy h h' \<and> ptr_in (between h h') q \<and> read_map h' q = read_map h p"
  by (auto simp: copy_map_def new_map_def fresh_copy_def same_on_def ptr_in_def read_map_def split: option.splits)

lemma fresh_copy_reads:
  assumes "fresh_copy h h'"
  shows "ptr_in (below h) p \<Longrightarrow> read_strings h' p = read_strings h p" "ptr_in (below h) p \<Longrightarrow> read_map h' p = read_map h p"
    "instance_in (below h) si \<Longrightarrow> read_instance h' si = read_instance h si" "below h \<subseteq> below h'"
  using assms read_same unfolding fresh_copy_def by (simp_all, blast+)

lemma fresh_copy_map_read:
  "fresh_copy h h' \<Longrightarrow> list_all (instance_in (below h)) insts \<Longrightarrow> map (read_instance h') insts = map (read_instance h) insts"
  using fresh_copy_reads(3) by (auto simp: list_all_iff)

text \<open>A new address of one part of a copy is a new address of the whole, and reads on as it did.\<close>

lemma ptr_between: "ptr_in (between h1 h2) p \<Longrightarrow> st_next h \<le> st_next h1 \<Longrightarrow> st_next h2 \<le> st_next h' \<Longrightarrow> ptr_in (between h h') p"
  by (erule ptr_in_mono) auto

lemma ptr_below: "ptr_in (between h1 h2) p \<Longrightarrow> ptr_in (below h2) p"
  by (erule ptr_in_mono) auto

lemma Instance_clone_fresh:
  assumes "Instance_clone si h = (c, h')" "instance_in (below h) si"
  shows "fresh_copy h h' \<and> instance_in (between h h') c \<and> read_instance h' c = read_instance h si"
proof -
  obtain tags h1 where t: "copy_strings (ir_Tags si) h = (tags, h1)" by fastforce
  obtain meta h2 where m: "copy_map (ir_Meta si) h1 = (meta, h2)" by fastforce
  from assms(1) t m have eqs: "c = si\<lparr>ir_Tags := tags, ir_Meta := meta\<rparr>" "h' = h2" by (simp_all add: Instance_clone_def)
  note f1 = copy_strings_fresh [OF t] and f2 = copy_map_fresh [OF m]
  from f1 f2 have f: "fresh_copy h h1" "fresh_copy h1 h2" by blast+
  then have le: "st_next h \<le> st_next h1" "st_next h1 \<le> st_next h2" by (simp_all add: fresh_copy_def)
  have "read_strings h2 tags = read_strings h (ir_Tags si)"
    using f1 fresh_copy_reads(1) [OF f(2) ptr_below] by metis
  moreover have "read_map h2 meta = read_map h (ir_Meta si)"
    using f2 fresh_copy_reads(2) [OF f(1)] assms(2) by (simp add: instance_in_def)
  moreover have "instance_in (between h h2) c"
    using f1 f2 le by (auto simp: eqs instance_in_def intro: ptr_between)
  ultimately show ?thesis using fresh_copy_trans [OF f] by (simp add: eqs read_instance_def)
qed

lemma clone_loop_fresh:
  "clone_loop insts h = (cs, h') \<Longrightarrow> list_all (instance_in (below h)) insts \<Longrightarrow>
   fresh_copy h h' \<and> list_all (instance_in (between h h')) cs \<and> map (read_instance h') cs = map (read_instance h) insts"
proof (induction insts arbitrary: h cs h')
  case Nil
  then show ?case by (simp add: fresh_copy_def same_on_refl)
next
  case (Cons si insts)
  obtain c h1 where c: "Instance_clone si h = (c, h1)" by fastforce
  obtain ds h2 where l: "clone_loop insts h1 = (ds, h2)" by fastforce
  from Cons.prems(1) c l have eqs: "cs = c # ds" "h' = h2" by simp_all
  from Cons.prems(2) have si: "instance_in (below h) si" and rest: "list_all (instance_in (below h)) insts" by simp_all
  note one = Instance_clone_fresh [OF c si]
  then have f1: "fresh_copy h h1" by blast
  from rest fresh_copy_reads(4) [OF f1] have "list_all (instance_in (below h1)) insts"
    by (auto simp: list_all_iff intro: instance_in_mono)
  note more = Cons.IH [OF l this]
  then have f2: "fresh_copy h1 h2" by blast
  have le: "st_next h \<le> st_next h1" "st_next h1 \<le> st_next h2" using f1 f2 by (simp_all add: fresh_copy_def)
  have "instance_in (below h1) c" using one by (auto intro: instance_in_mono)
  then have "read_instance h2 c = read_instance h si" using one fresh_copy_reads(3) [OF f2] by simp
  moreover have "map (read_instance h2) ds = map (read_instance h) insts"
    using more fresh_copy_map_read [OF f1 rest] by simp
  moreover have "instance_in (between h h2) c" "list_all (instance_in (between h h2)) ds"
    using one more le by (auto simp: list_all_iff intro: instance_in_mono)
  ultimately show ?case using fresh_copy_trans [OF f1 f2] by (simp add: eqs)
qed

lemma new_instances_fresh:
  "new_instances v h = (a, h') \<Longrightarrow> fresh_copy h h' \<and> a \<in> between h h' \<and> st_instances h' a = v \<and> same_on (below h) h h'"
  by (auto simp: new_instances_def fresh_copy_def same_on_def)

lemma clone_array_fresh:
  assumes l: "clone_loop insts h = (cs, h1)" and n: "new_instances cs h1 = (b, h2)" and "list_all (instance_in (below h)) insts"
  shows "fresh_copy h h2 \<and> b \<in> between h h2 \<and> st_instances h2 b = cs \<and> list_all (instance_in (between h h2)) cs \<and>
    map (read_instance h2) cs = map (read_instance h) insts"
proof -
  note loop = clone_loop_fresh [OF l assms(3)] and new = new_instances_fresh [OF n]
  then have g: "fresh_copy h h1" "fresh_copy h1 h2" by blast+
  have le: "st_next h \<le> st_next h1" "st_next h1 \<le> st_next h2" using g by (simp_all add: fresh_copy_def)
  have "list_all (instance_in (below h1)) cs" using loop by (auto simp: list_all_iff intro: instance_in_mono)
  from fresh_copy_map_read [OF g(2) this] loop have "map (read_instance h2) cs = map (read_instance h) insts" by simp
  moreover have "list_all (instance_in (between h h2)) cs" using loop le by (auto simp: list_all_iff intro: instance_in_mono)
  moreover have "b \<in> between h h2" using new le by auto
  ultimately show ?thesis using new fresh_copy_trans [OF g] by blast
qed

lemma State_clone_fresh:
  assumes "State_clone s h = (c, h')" "state_in (below h) h s"
  shows "fresh_copy h h' \<and> state_in (between h h') h' c \<and> read_state h' c = read_state h s"
proof -
  obtain tags h1 where t: "copy_strings (rf_Tags s) h = (tags, h1)" by fastforce
  obtain meta h2 where m: "copy_map (rf_Meta s) h1 = (meta, h2)" by fastforce
  note f1 = copy_strings_fresh [OF t] and f2 = copy_map_fresh [OF m]
  from f1 f2 have f: "fresh_copy h h1" "fresh_copy h1 h2" by blast+
  have f02: "fresh_copy h h2" by (rule fresh_copy_trans [OF f])
  have le: "st_next h \<le> st_next h1" "st_next h1 \<le> st_next h2" using f by (simp_all add: fresh_copy_def)
  have tags: "read_strings h2 tags = read_strings h (rf_Tags s)" using f1 fresh_copy_reads(1) [OF f(2) ptr_below] by metis
  have meta: "read_map h2 meta = read_map h (rf_Meta s)" using f2 fresh_copy_reads(2) [OF f(1)] assms(2) by (simp add: state_in_def)
  show ?thesis
  proof (cases "rf_Instances s")
    case None
    with assms(1) t m have eqs: "c = s\<lparr>rf_Tags := tags, rf_Meta := meta, rf_Instances := None\<rparr>" "h' = h2" by (simp_all add: State_clone_def)
    have "ptr_in (between h h2) tags" "ptr_in (between h h2) meta" using f1 f2 le by (auto intro: ptr_between)
    then have "state_in (between h h2) h2 c" by (simp add: eqs state_in_def ptr_in_def)
    then show ?thesis using f02 tags meta None by (simp add: eqs read_state_def)
  next
    case (Some a)
    obtain cs h3 where l: "clone_loop (st_instances h2 a) h2 = (cs, h3)" by fastforce
    obtain b h4 where n: "new_instances cs h3 = (b, h4)" by fastforce
    from assms(1) t m Some l n have eqs: "c = s\<lparr>rf_Tags := tags, rf_Meta := meta, rf_Instances := Some b\<rparr>" "h' = h4"
      by (simp_all add: State_clone_def)
    have a: "st_instances h2 a = st_instances h a" and insts: "list_all (instance_in (below h)) (st_instances h a)"
      using Some assms(2) f02 by (auto simp: state_in_def ptr_in_def fresh_copy_def same_on_def)
    then have "list_all (instance_in (below h2)) (st_instances h2 a)"
      using fresh_copy_reads(4) [OF f02] by (auto simp: list_all_iff intro: instance_in_mono)
    note arr = clone_array_fresh [OF l n this]
    then have f24: "fresh_copy h2 h4" by blast
    have le': "st_next h2 \<le> st_next h4" using f24 by (simp add: fresh_copy_def)
    have "map (read_instance h4) cs = map (read_instance h) (st_instances h a)"
      using arr a fresh_copy_map_read [OF f02 insts] by simp
    moreover have "ptr_in (below h2) tags" using f1 le by (auto elim: ptr_in_mono)
    then have "read_strings h4 tags = read_strings h (rf_Tags s)" using tags fresh_copy_reads(1) [OF f24] by simp
    moreover have "read_map h4 meta = read_map h (rf_Meta s)" using meta f2 fresh_copy_reads(2) [OF f24 ptr_below] by metis
    moreover have "ptr_in (between h h4) tags" "ptr_in (between h h4) meta" using f1 f2 le le' by (auto intro: ptr_between)
    moreover have "list_all (instance_in (between h h4)) cs" using arr le le' by (auto simp: list_all_iff intro: instance_in_mono)
    moreover have "b \<in> between h h4" using arr le le' by auto
    ultimately show ?thesis
      using arr Some fresh_copy_trans [OF f02 f24] by (simp add: eqs read_state_def state_in_def ptr_in_def)
  qed
qed

subsection \<open>Properties\<close>

text \<open>C16: A clone is a value: it reads as the service state it was made of, the state itself reads as before, and whatever is written later
  into arrays and maps that existed before the clone, flags of the health-state watcher included, the clone keeps reading the
  same. The snapshot handed to the callback is made of such clones.\<close>

theorem clone_isolated:
  assumes "State_clone s h = (c, h')" "state_in (below h) h s"
  shows "read_state h' c = read_state h s \<and> read_state h' s = read_state h s \<and>
    (\<forall>h''. same_on (between h h') h' h'' \<longrightarrow> read_state h'' c = read_state h s)"
proof -
  note f = State_clone_fresh [OF assms]
  have "read_state h' s = read_state h s" using f read_state_same [OF _ assms(2)] by (simp add: fresh_copy_def)
  moreover have "read_state h'' c = read_state h s" if "same_on (between h h') h' h''" for h''
    using f read_state_same [OF that] by simp
  ultimately show ?thesis using f by blast
qed

definition sample_ref :: StateRef where
  "sample_ref = \<lparr>rf_Name = ''web'', rf_Tags = Some 0, rf_Meta = None, rf_Instances = Some 1, rf_LastIndex = 1\<rparr>"

definition sample_store :: store where
  "sample_store =
     \<lparr>st_strings = (\<lambda>_. [])(0 := [''caddy'']), st_maps = (\<lambda>_. []),
      st_instances = (\<lambda>_. [])(1 := [\<lparr>ir_ID = ''a'', ir_Address = ''10.0.0.1'', ir_Port = 80, ir_Tags = Some 0, ir_Meta = None,
        ir_Healthy = True, ir_Weight = 1, ir_NodeName = ''n1''\<rparr>]), st_next = 2\<rparr>"

theorem clone_isolated_witness:
  "\<exists>c h'. State_clone sample_ref sample_store = (c, h') \<and>
     map si_Healthy (ss_Instances (read_state (write_health [] 1 h') sample_ref)) = [False] \<and>
     map si_Healthy (ss_Instances (read_state (write_health [] 1 h') c)) = [True]"
proof -
  obtain c h' where c: "State_clone sample_ref sample_store = (c, h')" by fastforce
  have s: "state_in (below sample_store) sample_store sample_ref"
    by (simp add: state_in_def ptr_in_def instance_in_def sample_ref_def sample_store_def)
  have "st_next sample_store = 2" by (simp add: sample_store_def)
  then have "same_on (between sample_store h') h' (write_health [] 1 h')" by (simp add: same_on_def write_health_def)
  with clone_isolated [OF c s] have r: "read_state (write_health [] 1 h') c = read_state sample_store sample_ref" by blast
  have "st_instances h' 1 = st_instances sample_store 1"
    using State_clone_fresh [OF c s] by (simp add: fresh_copy_def same_on_def sample_store_def)
  then have "map si_Healthy (ss_Instances (read_state (write_health [] 1 h') sample_ref)) = [False]"
    by (simp add: read_state_def read_instance_def write_health_def sample_ref_def sample_store_def get_or_def)
  moreover have "map si_Healthy (ss_Instances (read_state (write_health [] 1 h') c)) = [True]"
    unfolding r by (simp add: read_state_def read_instance_def sample_ref_def sample_store_def)
  ultimately show ?thesis using c by (intro exI [of _ c] exI [of _ h']) simp
qed

text \<open>The in-place writes of the health-state watcher are \<open>set_health\<close> on the values: every state whose instances lie in the
  written array reads as \<open>set_health\<close> of what it was, and every other state as before.\<close>

theorem write_health_correct:
  "read_state (write_health ids a h) s =
     (if rf_Instances s = Some a then set_health ids (read_state h s) else read_state h s)"
  by (auto simp: read_state_def write_health_def set_health_def read_instance_def read_strings_def read_map_def split: option.split)

end
