(* ===== verification/Go_HTTP.thy ===== *)
theory Go_HTTP
  imports Go_Prelude
begin

text \<open>
  What the HTTP handlers use of Go's \<open>net/http\<close>, \<open>net/url\<close> and \<open>net/http/httputil\<close>: header maps with canonical keys, the
  escaped form of a URL path, requests and response writers, and \<open>ReverseProxy\<close> with a \<open>Rewrite\<close> hook. The functions
  follow the standard library. A \<open>ReverseProxy\<close> takes two parameters for the network: \<open>roundTrip\<close>, the answer of the
  transport to the request it is given, and \<open>upgrade\<close>, the error of switching protocols (None when it succeeds). Query
  strings, bodies of requests, trailers, informational answers of an upstream and bodies cut short are left out.
\<close>

subsection \<open>Headers\<close>

type_synonym header = "(string, string list) gomap"

definition upper_char :: "char \<Rightarrow> char" where
  "upper_char c = (if 97 \<le> byte c \<and> byte c \<le> 122 then char_of (byte c - 32) else c)"

definition is_alpha :: "char \<Rightarrow> bool" where
  "is_alpha c \<longleftrightarrow> (65 \<le> byte c \<and> byte c \<le> 90) \<or> (97 \<le> byte c \<and> byte c \<le> 122)"

definition token_byte :: "char \<Rightarrow> bool" where
  "token_byte c \<longleftrightarrow> is_alpha c \<or> is_digit c \<or> c \<in> set ''!#$%&*+-.^_`|~'' \<or> byte c = 39"

fun header_case :: "bool \<Rightarrow> string \<Rightarrow> string" where
  "header_case upper [] = []"
| "header_case upper (c # s) = (if upper then upper_char c else lower_char c) # header_case (c = CHR ''-'') s"

definition CanonicalHeaderKey :: "string \<Rightarrow> string" where
  "CanonicalHeaderKey k = (if list_all token_byte k then header_case True k else k)"

definition Header_Values :: "header \<Rightarrow> string \<Rightarrow> string list" where
  "Header_Values h k = get_or [] h (CanonicalHeaderKey k)"

definition Header_Get :: "header \<Rightarrow> string \<Rightarrow> string" where
  "Header_Get h k = (case Header_Values h k of [] \<Rightarrow> [] | v # _ \<Rightarrow> v)"

definition Header_Set :: "header \<Rightarrow> string \<Rightarrow> string \<Rightarrow> header" where
  "Header_Set h k v = AList.update (CanonicalHeaderKey k) [v] h"

definition Header_Add :: "header \<Rightarrow> string \<Rightarrow> string \<Rightarrow> header" where
  "Header_Add h k v = AList.update (CanonicalHeaderKey k) (Header_Values h k @ [v]) h"

definition Header_Del :: "header \<Rightarrow> string \<Rightarrow> header" where
  "Header_Del h k = AList.delete (CanonicalHeaderKey k) h"

text \<open>\<open>strings.Join\<close>.\<close>

fun Join :: "string list \<Rightarrow> string \<Rightarrow> string" where
  "Join [] sep = []"
| "Join [s] sep = s"
| "Join (s # t # ss) sep = s @ sep @ Join (t # ss) sep"

definition copyHeader :: "header \<Rightarrow> header \<Rightarrow> header" where
  "copyHeader dst src = foldl (\<lambda>dst (k, vv). foldl (\<lambda>dst v. Header_Add dst k v) dst vv) dst src"

lemmas [go_eval] = upper_char_def is_alpha_def token_byte_def CanonicalHeaderKey_def Header_Values_def Header_Get_def
  Header_Set_def Header_Add_def Header_Del_def copyHeader_def

subsection \<open>Paths of URLs\<close>

record URL =
  url_Scheme :: string
  url_Host :: string
  url_Path :: string
  url_RawPath :: string

definition hex_digit :: "char \<Rightarrow> bool" where
  "hex_digit c \<longleftrightarrow> is_digit c \<or> (65 \<le> byte c \<and> byte c \<le> 70) \<or> (97 \<le> byte c \<and> byte c \<le> 102)"

definition unhex :: "char \<Rightarrow> nat" where
  "unhex c = (if is_digit c then byte c - 48 else if 97 \<le> byte c then byte c - 87 else byte c - 55)"

definition upper_hex :: "nat \<Rightarrow> char" where
  "upper_hex d = (if d < 10 then char_of (48 + d) else char_of (55 + d))"

text \<open>\<open>shouldEscape\<close>, \<open>escape\<close>, \<open>unescape\<close> and \<open>validEncoded\<close> for the mode \<open>encodePath\<close>.\<close>

definition shouldEscape :: "char \<Rightarrow> bool" where
  "shouldEscape c \<longleftrightarrow> \<not> (is_alpha c \<or> is_digit c \<or> c \<in> set ''-_.~$&+,/:;=@'')"

fun escape_path :: "string \<Rightarrow> string" where
  "escape_path [] = []"
| "escape_path (c # s) =
     (if shouldEscape c then [CHR ''%'', upper_hex (byte c div 16), upper_hex (byte c mod 16)] else [c]) @ escape_path s"

fun unescape_path :: "string \<Rightarrow> string option" where
  "unescape_path [] = Some []"
| "unescape_path (c # s) =
     (if c = CHR ''%'' then
        (case s of
           a # b # s' \<Rightarrow>
             if hex_digit a \<and> hex_digit b then map_option (Cons (char_of (16 * unhex a + unhex b))) (unescape_path s') else None
         | _ \<Rightarrow> None)
      else map_option (Cons c) (unescape_path s))"

definition validEncoded :: "string \<Rightarrow> bool" where
  "validEncoded s = list_all (\<lambda>c. c \<in> set ''!$&()*+,;=:@[]%'' \<or> byte c = 39 \<or> \<not> shouldEscape c) s"

definition EscapedPath :: "URL \<Rightarrow> string" where
  "EscapedPath u =
     (if url_RawPath u \<noteq> [] \<and> validEncoded (url_RawPath u) \<and> unescape_path (url_RawPath u) = Some (url_Path u) then url_RawPath u
      else if url_Path u = ''*'' then ''*''
      else escape_path (url_Path u))"

text \<open>\<open>joinURLPath\<close> onto a target whose path is empty.\<close>

definition join_path :: "URL \<Rightarrow> string \<times> string" where
  "join_path u =
     (if url_RawPath u = [] then (if HasPrefix (url_Path u) ''/'' then url_Path u else CHR ''/'' # url_Path u, [])
      else let bpath = EscapedPath u in
           if HasPrefix bpath ''/'' then (url_Path u, bpath) else (CHR ''/'' # url_Path u, CHR ''/'' # bpath))"

lemmas [go_eval] = hex_digit_def unhex_def upper_hex_def shouldEscape_def validEncoded_def EscapedPath_def join_path_def

subsection \<open>Requests and responses\<close>

datatype var_value = VString string | VBool bool

text \<open>\<open>rq_TLS\<close>: the connection is encrypted. \<open>rq_vars\<close>: Caddy's table of request variables.\<close>

record Request =
  rq_Host :: string
  rq_URL :: URL
  rq_RequestURI :: string
  rq_RemoteAddr :: string
  rq_Header :: header
  rq_TLS :: bool
  rq_vars :: "(string, var_value) gomap"

record Response =
  rs_StatusCode :: int
  rs_Header :: header
  rs_Body :: string

text \<open>A response writer: the header map, what \<open>WriteHeader\<close> has sent (the final status with the headers at that moment),
  the informational statuses sent before and the body.\<close>

record ResponseWriter =
  rw_Header :: header
  rw_sent :: "(int \<times> header) option"
  rw_informational :: "int list"
  rw_Body :: string

definition WriteHeader :: "int \<Rightarrow> ResponseWriter \<Rightarrow> ResponseWriter go" where
  "WriteHeader code w =
     (if rw_sent w \<noteq> None then Inr w
      else if code < 100 \<or> 999 < code then Inl InvalidWriteHeaderCode
      else if code \<le> 199 \<and> code \<noteq> 101 then Inr (w\<lparr>rw_informational := rw_informational w @ [code]\<rparr>)
      else Inr (w\<lparr>rw_sent := Some (code, rw_Header w)\<rparr>))"

definition Write :: "string \<Rightarrow> ResponseWriter \<Rightarrow> ResponseWriter" where
  "Write b w =
     (let w1 = (if rw_sent w = None then w\<lparr>rw_sent := Some (200, rw_Header w)\<rparr> else w) in w1\<lparr>rw_Body := rw_Body w1 @ b\<rparr>)"

definition set_header :: "string \<Rightarrow> string \<Rightarrow> ResponseWriter \<Rightarrow> ResponseWriter" where
  "set_header k v w = w\<lparr>rw_Header := Header_Set (rw_Header w) k v\<rparr>"

lemmas [go_eval] = WriteHeader_def Write_def set_header_def

subsection \<open>The reverse proxy\<close>

definition trim_list_element :: "string \<Rightarrow> string" where
  "trim_list_element s =
     (let sp = (\<lambda>c. c \<in> {CHR '' '', CHR 0x09, CHR 0x0A, CHR 0x0D}) in rev (dropWhile sp (rev (dropWhile sp s))))"

definition list_elements :: "string list \<Rightarrow> string list" where
  "list_elements vs = filter (\<lambda>e. e \<noteq> []) (map trim_list_element (concat (map (\<lambda>v. Split v (CHR '','')) vs)))"

definition hopHeaders :: "string list" where
  "hopHeaders = [''Connection'', ''Proxy-Connection'', ''Keep-Alive'', ''Proxy-Authenticate'', ''Proxy-Authorization'', ''Te'',
     ''Trailer'', ''Transfer-Encoding'', ''Upgrade'']"

definition removeHopByHopHeaders :: "header \<Rightarrow> header" where
  "removeHopByHopHeaders h = foldl Header_Del h (list_elements (Header_Values h ''Connection'') @ hopHeaders)"

definition contains_token :: "string list \<Rightarrow> string \<Rightarrow> bool" where
  "contains_token vs token \<longleftrightarrow> ToLower token \<in> set (map ToLower (list_elements vs))"

definition upgradeType :: "header \<Rightarrow> string" where
  "upgradeType h = (if contains_token (Header_Values h ''Connection'') ''Upgrade'' then Header_Get h ''Upgrade'' else [])"

text \<open>The headers of the outbound request before \<open>Rewrite\<close>, which sees them without the forwarding headers of the client.\<close>

definition proxy_header :: "header \<Rightarrow> header" where
  "proxy_header h =
     (let up = upgradeType h;
          h1 = removeHopByHopHeaders h;
          h2 = (if contains_token (Header_Values h ''Te'') ''trailers'' then Header_Set h1 ''Te'' ''trailers'' else h1);
          h3 = (if up \<noteq> [] then Header_Set (Header_Set h2 ''Connection'' ''Upgrade'') ''Upgrade'' up else h2)
      in foldl Header_Del h3 [''Forwarded'', ''X-Forwarded-For'', ''X-Forwarded-Host'', ''X-Forwarded-Proto''])"

definition with_user_agent :: "header \<Rightarrow> header" where
  "with_user_agent h = (if map_of h ''User-Agent'' = None then Header_Set h ''User-Agent'' [] else h)"

text \<open>The request given to the transport; None when the upgrade type is not printable.\<close>

definition outbound :: "(Request \<Rightarrow> Request) \<Rightarrow> Request \<Rightarrow> Request option" where
  "outbound rewrite r =
     (if \<not> list_all (\<lambda>c. 32 \<le> byte c \<and> byte c \<le> 126) (upgradeType (rq_Header r)) then None
      else let out = rewrite (r\<lparr>rq_Header := proxy_header (rq_Header r)\<rparr>)
           in Some (out\<lparr>rq_Header := with_user_agent (rq_Header out)\<rparr>))"

definition ReverseProxy ::
  "(Request \<Rightarrow> string + Response) \<Rightarrow> (Request \<Rightarrow> Response \<Rightarrow> string option) \<Rightarrow> (Request \<Rightarrow> Request) \<Rightarrow> (Response \<Rightarrow> Response) \<Rightarrow>
   (ResponseWriter \<Rightarrow> ResponseWriter go) \<Rightarrow> ResponseWriter \<Rightarrow> Request \<Rightarrow> ResponseWriter go" where
  "ReverseProxy roundTrip upgrade rewrite modifyResponse errorHandler w r =
     (case outbound rewrite r of
        None \<Rightarrow> errorHandler w
      | Some out \<Rightarrow>
          (case roundTrip out of
             Inl err \<Rightarrow> errorHandler w
           | Inr res \<Rightarrow>
               if rs_StatusCode res = 101 then
                 (let res' = modifyResponse res in
                  case upgrade out res' of
                    Some err \<Rightarrow> errorHandler w
                  | None \<Rightarrow> Inr (w\<lparr>rw_Header := copyHeader (rw_Header w) (rs_Header res'),
                                   rw_sent := Some (101, copyHeader (rw_Header w) (rs_Header res'))\<rparr>))
               else
                 (let res' = modifyResponse (res\<lparr>rs_Header := removeHopByHopHeaders (rs_Header res)\<rparr>) in
                  go_bind (WriteHeader (rs_StatusCode res') (w\<lparr>rw_Header := copyHeader (rw_Header w) (rs_Header res')\<rparr>))
                    (\<lambda>w'. Inr (Write (rs_Body res') w')))))"

lemmas [go_eval] = trim_list_element_def list_elements_def hopHeaders_def removeHopByHopHeaders_def contains_token_def
  upgradeType_def proxy_header_def with_user_agent_def outbound_def ReverseProxy_def

subsection \<open>Facts on headers\<close>

lemma header_case_idem: "header_case u (header_case u s) = header_case u s"
proof (induction u s rule: header_case.induct)
  case (2 u c s)
  have "upper_char (upper_char c) = upper_char c" "upper_char c = CHR ''-'' \<longleftrightarrow> c = CHR ''-''" "lower_char c = CHR ''-'' \<longleftrightarrow> c = CHR ''-''"
    by (auto simp: upper_char_def lower_char_def char_of_eq_iff take_bit_eq_mod)
  with 2 show ?case by simp
qed simp

lemma token_byte_case: "token_byte (upper_char c) = token_byte c" "token_byte (lower_char c) = token_byte c"
  by (auto simp: token_byte_def upper_char_def lower_char_def is_alpha_def is_digit_def)

lemma header_case_tokens: "list_all token_byte (header_case u s) = list_all token_byte s"
  by (induction u s rule: header_case.induct) (simp_all add: token_byte_case)

lemma CanonicalHeaderKey_idem [simp]: "CanonicalHeaderKey (CanonicalHeaderKey k) = CanonicalHeaderKey k"
  by (simp add: CanonicalHeaderKey_def header_case_idem header_case_tokens)

lemma Values_Set: "Header_Values (Header_Set h k v) k' = (if CanonicalHeaderKey k' = CanonicalHeaderKey k then [v] else Header_Values h k')"
  by (simp add: Header_Values_def Header_Set_def get_or_def update_conv')

lemma Values_Add:
  "Header_Values (Header_Add h k v) k' =
   (if CanonicalHeaderKey k' = CanonicalHeaderKey k then Header_Values h k @ [v] else Header_Values h k')"
  by (simp add: Header_Values_def Header_Add_def get_or_def update_conv')

lemma Values_Del: "Header_Values (Header_Del h k) k' = (if CanonicalHeaderKey k' = CanonicalHeaderKey k then [] else Header_Values h k')"
  by (simp add: Header_Values_def Header_Del_def get_or_def delete_conv')

lemma Values_Del_all:
  "Header_Values (foldl Header_Del h ks) k =
   (if CanonicalHeaderKey k \<in> CanonicalHeaderKey ` set ks then [] else Header_Values h k)"
  by (induction ks arbitrary: h) (auto simp: Values_Del)

lemma Values_Add_all:
  "Header_Values (foldl (\<lambda>h v. Header_Add h k v) h vs) k' =
   (if CanonicalHeaderKey k' = CanonicalHeaderKey k then Header_Values h k @ vs else Header_Values h k')"
proof (induction vs arbitrary: h)
  case Nil
  then show ?case by (simp add: Header_Values_def)
qed (auto simp: Values_Add)

text \<open>\<open>copyHeader\<close> adds the values of a map whose keys are canonical, as those of \<open>net/http\<close> are.\<close>

definition header_ok :: "header \<Rightarrow> bool" where
  "header_ok h \<longleftrightarrow> gomap_ok h \<and> (\<forall>k \<in> keys h. CanonicalHeaderKey k = k)"

lemma header_ok_update: "header_ok h \<Longrightarrow> CanonicalHeaderKey k = k \<Longrightarrow> header_ok (AList.update k v h)"
  unfolding header_ok_def keys_update by (simp del: set_map)

lemma header_ok_delete: "header_ok h \<Longrightarrow> header_ok (AList.delete k h)"
  unfolding header_ok_def keys_delete by (simp del: set_map)

lemma header_ok_Set [simp]: "header_ok h \<Longrightarrow> header_ok (Header_Set h k v)"
  by (simp add: Header_Set_def header_ok_update)

lemma header_ok_Del_all [simp]: "header_ok h \<Longrightarrow> header_ok (foldl Header_Del h ks)"
  by (induction ks arbitrary: h) (simp_all add: Header_Del_def header_ok_delete)

lemma header_ok_hop [simp]: "header_ok h \<Longrightarrow> header_ok (removeHopByHopHeaders h)"
  by (simp add: removeHopByHopHeaders_def)

lemma Values_copyHeader:
  "header_ok src \<Longrightarrow> Header_Values (copyHeader dst src) k = Header_Values dst k @ Header_Values src k"
proof (induction src arbitrary: dst)
  case (Cons e src)
  obtain k' vs where e: "e = (k', vs)" by fastforce
  let ?d = "foldl (\<lambda>dst v. Header_Add dst k' v) dst vs"
  have ok: "CanonicalHeaderKey k' = k'" "k' \<notin> keys src" "header_ok src" using Cons.prems by (auto simp: e header_ok_def)
  have n: "Header_Values src k = []" if "CanonicalHeaderKey k = k'"
    using ok(2) that by (simp add: Header_Values_def get_or_def map_of_eq_None_iff [THEN iffD2])
  have "copyHeader dst (e # src) = copyHeader ?d src" by (simp add: copyHeader_def e)
  then have "Header_Values (copyHeader dst (e # src)) k = Header_Values ?d k @ Header_Values src k" using Cons.IH ok(3) by simp
  also have "\<dots> = Header_Values dst k @ Header_Values (e # src) k"
    using ok(1) n by (auto simp: Values_Add_all e) (auto simp: Header_Values_def get_or_def)
  finally show ?case .
qed (simp add: copyHeader_def Header_Values_def get_or_def)

subsection \<open>Facts on paths\<close>

lemma upper_hex_facts:
  assumes "d < 16"
  shows "hex_digit (upper_hex d)" "unhex (upper_hex d) = d"
  using assms by (auto simp: hex_digit_def unhex_def upper_hex_def is_digit_def)

lemma unescape_escape: "unescape_path (escape_path s) = Some s"
proof (induction s)
  case (Cons c s)
  have b: "byte c < 256" by simp
  have "hex_digit (upper_hex (byte c div 16))" "hex_digit (upper_hex (byte c mod 16))"
    "unhex (upper_hex (byte c div 16)) = byte c div 16" "unhex (upper_hex (byte c mod 16)) = byte c mod 16"
    using upper_hex_facts [of "byte c div 16"] upper_hex_facts [of "byte c mod 16"] b by (simp_all add: less_mult_imp_div_less)
  moreover have "c = CHR ''%'' \<Longrightarrow> shouldEscape c" by (simp add: shouldEscape_def is_alpha_def is_digit_def)
  ultimately show ?case using Cons.IH by simp
qed simp

text \<open>The escaped path always decodes to the path.\<close>

lemma unescape_EscapedPath: "unescape_path (EscapedPath u) = Some (url_Path u)"
  by (simp add: EscapedPath_def unescape_escape)

end
