(* ===== verification/Handler.thy ===== *)
theory Handler
  imports Router Go_HTTP
begin

text \<open>
  \<open>handler.go\<close>: the \<open>consul_proxy\<close> HTTP handler. It holds a pointer to the route table of the consul app, so every request
  sees the routes last published: the current table is an argument of \<open>ServeHTTP\<close>. Outside the program, hence parameters:
  \<open>rnd\<close>, the draw of \<open>rand.Intn\<close> (\<open>intn\<close> states its contract), the transport and the protocol switch of the reverse proxy,
  the answer of Caddy to \<open>ctx.App\<close> and the next handler. A handler returns the response writer and an error, or panics.
\<close>

record proxy_env =
  px_rnd :: "int \<Rightarrow> int"
  px_roundTrip :: "Request \<Rightarrow> string + Response"
  px_upgrade :: "Request \<Rightarrow> Response \<Rightarrow> string option"

text \<open>The error of a Caddy handler: the status of the \<open>HandlerError\<close> in its chain, if there is one, and its text.\<close>

datatype caddy_error = CaddyError (err_status: "int option") string

type_synonym handler_result = "(ResponseWriter \<times> caddy_error option) go"

record ConsulProxyHandler =
  hd_globalNoCacheMatcher :: "StatusMatcher option"

subsection \<open>Provisioning\<close>

datatype caddy_app = ConsulApp ConsulRouter | OtherApp

datatype app_error = AppNotConfigured string | UnexpectedAppType | RouteTableNotInitialized

text \<open>\<open>RouteTable\<close> and \<open>NoCacheMatcher\<close> of the consul app.\<close>

definition app_RouteTable :: "ConsulRouter \<Rightarrow> RouteTable option" where
  "app_RouteTable cr = cr_routeTable cr"

definition app_NoCacheMatcher :: "ConsulRouter \<Rightarrow> StatusMatcher option" where
  "app_NoCacheMatcher cr = cr_noCacheMatcher cr"

definition consul_app :: "string + caddy_app \<Rightarrow> app_error + ConsulRouter" where
  "consul_app app =
     (case app of
        Inl err \<Rightarrow> Inl (AppNotConfigured err)
      | Inr OtherApp \<Rightarrow> Inl UnexpectedAppType
      | Inr (ConsulApp cr) \<Rightarrow> if app_RouteTable cr = None then Inl RouteTableNotInitialized else Inr cr)"

definition Handler_Provision :: "string + caddy_app \<Rightarrow> app_error + ConsulProxyHandler" where
  "Handler_Provision app =
     (case consul_app app of Inl err \<Rightarrow> Inl err | Inr cr \<Rightarrow> Inr \<lparr>hd_globalNoCacheMatcher = app_NoCacheMatcher cr\<rparr>)"

text \<open>The directive takes no arguments: \<open>args\<close> are the tokens after its name on the same line.\<close>

definition Handler_UnmarshalCaddyfile :: "string list \<Rightarrow> ConsulProxyHandler \<Rightarrow> config_error + ConsulProxyHandler" where
  "Handler_UnmarshalCaddyfile args h = (if args \<noteq> [] then Inl (ArgErr ''consul_proxy'') else Inr h)"

definition parseConsulProxyDirective :: "string list \<Rightarrow> config_error + ConsulProxyHandler" where
  "parseConsulProxyDirective args = Handler_UnmarshalCaddyfile args \<lparr>hd_globalNoCacheMatcher = None\<rparr>"

subsection \<open>Serving a request\<close>

definition expandRedirectURL :: "string \<Rightarrow> Request \<Rightarrow> string" where
  "expandRedirectURL template r =
     ReplaceAll (ReplaceAll template ''{http.request.uri}'' (rq_RequestURI r)) ''{http.request.host}'' (rq_Host r)"

definition effectiveNoCacheMatcher :: "ConsulProxyHandler \<Rightarrow> CompiledHTTPRoute \<Rightarrow> StatusMatcher option" where
  "effectiveNoCacheMatcher h route =
     (if ch_NoCacheOptOut route then None
      else if ch_NoCacheMatcher route \<noteq> None then ch_NoCacheMatcher route
      else hd_globalNoCacheMatcher h)"

definition setNoCacheHeaders :: "header \<Rightarrow> header" where
  "setNoCacheHeaders h =
     Header_Set (Header_Set (Header_Set h ''Cache-Control'' ''no-cache, no-store, must-revalidate'') ''Pragma'' ''no-cache'') ''Expires'' ''0''"

definition setNoCacheIfMatched :: "StatusMatcher option \<Rightarrow> int \<Rightarrow> header \<Rightarrow> header" where
  "setNoCacheIfMatched matcher statusCode h =
     (if matcher \<noteq> None \<and> Matches matcher statusCode then setNoCacheHeaders h else h)"

definition healthyUpstreams :: "Upstream list \<Rightarrow> Upstream list" where
  "healthyUpstreams upstreams = filter up_Healthy upstreams"

definition setForwardedHeaders :: "header \<Rightarrow> Request \<Rightarrow> header" where
  "setForwardedHeaders out r =
     (let trusted = (map_of (rq_vars r) ''trusted_proxy'' = Some (VBool True));
          out1 = (case SplitHostPort (rq_RemoteAddr r) of
                    None \<Rightarrow> out
                  | Some (peer, _) \<Rightarrow>
                      let prior = Join (Header_Values (rq_Header r) ''X-Forwarded-For'') '', '' in
                      if trusted \<and> prior \<noteq> [] then Header_Set out ''X-Forwarded-For'' (prior @ '', '' @ peer)
                      else Header_Set out ''X-Forwarded-For'' peer);
          proto = Header_Get (rq_Header r) ''X-Forwarded-Proto''
      in if trusted \<and> proto \<noteq> [] then Header_Set out1 ''X-Forwarded-Proto'' proto
         else if rq_TLS r then Header_Set out1 ''X-Forwarded-Proto'' ''https''
         else Header_Set out1 ''X-Forwarded-Proto'' ''http'')"

text \<open>The \<open>Rewrite\<close> hook: \<open>SetURL\<close> onto the upstream, the prefix stripped, host and forwarding headers.\<close>

definition strips :: "CompiledHTTPRoute \<Rightarrow> bool" where
  "strips route \<longleftrightarrow> ch_StripPrefix route \<and> ch_Path route \<noteq> [] \<and> ch_Path route \<noteq> ''/''"

definition strip_path :: "CompiledHTTPRoute \<Rightarrow> string \<Rightarrow> string" where
  "strip_path route path =
     (if strips route then let p = TrimPrefix path (ch_Path route) in if p = [] then ''/'' else p else path)"

definition rewrite_request :: "CompiledHTTPRoute \<Rightarrow> Upstream \<Rightarrow> Request \<Rightarrow> Request \<Rightarrow> Request" where
  "rewrite_request route upstream r out =
     (case join_path (rq_URL out) of (path, raw) \<Rightarrow>
        out\<lparr>rq_URL := \<lparr>url_Scheme = ''http'', url_Host = up_Address upstream, url_Path = strip_path route path,
                       url_RawPath = (if strips route then TrimPrefix raw (ch_Path route) else raw)\<rparr>,
            rq_Host := rq_Host r, rq_Header := setForwardedHeaders (rq_Header out) r\<rparr>)"

definition set_via :: "CompiledHTTPRoute \<Rightarrow> header \<Rightarrow> header" where
  "set_via route h = (if ch_Via route \<noteq> [] then Header_Set h ''X-Caddy-Consul-Via'' (ch_Via route) else h)"

text \<open>The \<open>ModifyResponse\<close> hook, and the answer when there is no upstream or it cannot be reached.\<close>

definition modify_response :: "CompiledHTTPRoute \<Rightarrow> StatusMatcher option \<Rightarrow> Response \<Rightarrow> Response" where
  "modify_response route matcher res =
     res\<lparr>rs_Header := setNoCacheIfMatched matcher (rs_StatusCode res) (set_via route (rs_Header res))\<rparr>"

definition bad_gateway :: "CompiledHTTPRoute \<Rightarrow> StatusMatcher option \<Rightarrow> ResponseWriter \<Rightarrow> ResponseWriter go" where
  "bad_gateway route matcher w =
     WriteHeader 502 (w\<lparr>rw_Header := setNoCacheIfMatched matcher 502 (set_via route (rw_Header w))\<rparr>)"

definition serve_redirect :: "CompiledHTTPRoute \<Rightarrow> ResponseWriter \<Rightarrow> Request \<Rightarrow> ResponseWriter go" where
  "serve_redirect route w r =
     (let h = Header_Set (rw_Header w) ''Location'' (expandRedirectURL (ch_RedirectURL route) r)
      in WriteHeader (ch_RedirectCode route) (w\<lparr>rw_Header := (if ch_RedirectNoCache route then setNoCacheHeaders h else h)\<rparr>))"

definition redirects :: "CompiledHTTPRoute \<Rightarrow> bool" where
  "redirects route \<longleftrightarrow> ch_RedirectCode route > 0 \<and> ch_RedirectURL route \<noteq> []"

definition ServeHTTP ::
  "proxy_env \<Rightarrow> ConsulProxyHandler \<Rightarrow> RouteTable \<Rightarrow> (ResponseWriter \<Rightarrow> Request \<Rightarrow> handler_result) \<Rightarrow>
   ResponseWriter \<Rightarrow> Request \<Rightarrow> handler_result" where
  "ServeHTTP px h rt next w r =
     (case Match rt (rq_Host r) (url_Path (rq_URL r)) of
        None \<Rightarrow> next w r
      | Some route \<Rightarrow>
          if redirects route
          then go_bind (serve_redirect route w r) (\<lambda>w'. Inr (w', None))
          else let matcher = effectiveNoCacheMatcher h route;
                   upstreams = healthyUpstreams (ch_Upstreams route)
               in if upstreams = [] then go_bind (bad_gateway route matcher w) (\<lambda>w'. Inr (w', None))
                  else let upstream = upstreams ! nat (px_rnd px (int (length upstreams)))
                       in go_bind (ReverseProxy (px_roundTrip px) (px_upgrade px) (rewrite_request route upstream r)
                                     (modify_response route matcher) (bad_gateway route matcher) w r)
                            (\<lambda>w'. Inr (w', None)))"

lemmas [go_eval] = app_RouteTable_def app_NoCacheMatcher_def consul_app_def Handler_Provision_def Handler_UnmarshalCaddyfile_def
  parseConsulProxyDirective_def expandRedirectURL_def effectiveNoCacheMatcher_def setNoCacheHeaders_def setNoCacheIfMatched_def
  healthyUpstreams_def setForwardedHeaders_def strips_def strip_path_def rewrite_request_def set_via_def modify_response_def
  bad_gateway_def serve_redirect_def redirects_def ServeHTTP_def

subsection \<open>The response headers\<close>

text \<open>\<open>h'\<close> is \<open>h\<close> with the \<open>Via\<close> header of the route and, if asked for, the three no-cache headers; every other header is kept.\<close>

definition decorated :: "string \<Rightarrow> bool \<Rightarrow> header \<Rightarrow> header \<Rightarrow> bool" where
  "decorated via nocache h h' \<longleftrightarrow>
     (\<forall>k. Header_Values h' k =
        (if via \<noteq> [] \<and> CanonicalHeaderKey k = ''X-Caddy-Consul-Via'' then [via]
         else if nocache \<and> CanonicalHeaderKey k = ''Cache-Control'' then [''no-cache, no-store, must-revalidate'']
         else if nocache \<and> CanonicalHeaderKey k = ''Pragma'' then [''no-cache'']
         else if nocache \<and> CanonicalHeaderKey k = ''Expires'' then [''0'']
         else Header_Values h k))"

lemma canonical_constants [simp]:
  "CanonicalHeaderKey ''X-Caddy-Consul-Via'' = ''X-Caddy-Consul-Via''" "CanonicalHeaderKey ''Cache-Control'' = ''Cache-Control''"
  "CanonicalHeaderKey ''Pragma'' = ''Pragma''" "CanonicalHeaderKey ''Expires'' = ''Expires''" "CanonicalHeaderKey ''Location'' = ''Location''"
  "CanonicalHeaderKey ''X-Forwarded-For'' = ''X-Forwarded-For''" "CanonicalHeaderKey ''X-Forwarded-Proto'' = ''X-Forwarded-Proto''"
  "CanonicalHeaderKey ''X-Forwarded-Host'' = ''X-Forwarded-Host''" "CanonicalHeaderKey ''Forwarded'' = ''Forwarded''"
  "CanonicalHeaderKey ''Te'' = ''Te''" "CanonicalHeaderKey ''Connection'' = ''Connection''" "CanonicalHeaderKey ''Upgrade'' = ''Upgrade''"
  "CanonicalHeaderKey ''User-Agent'' = ''User-Agent''"
  by code_simp+

lemma decorated_no_cache: "decorated [] nocache h (if nocache then setNoCacheHeaders h else h)"
  by (auto simp: decorated_def setNoCacheHeaders_def Values_Set)

lemma decorated_response: "decorated (ch_Via route) (Matches matcher code) h (setNoCacheIfMatched matcher code (set_via route h))"
  by (cases matcher) (auto simp: decorated_def setNoCacheIfMatched_def setNoCacheHeaders_def set_via_def Values_Set)

lemma header_ok_response [simp]: "header_ok h \<Longrightarrow> header_ok (setNoCacheIfMatched matcher code (set_via route h))"
  by (simp add: setNoCacheIfMatched_def setNoCacheHeaders_def set_via_def)

text \<open>The answer when no upstream can be reached.\<close>

definition gateway_error :: "CompiledHTTPRoute \<Rightarrow> StatusMatcher option \<Rightarrow> ResponseWriter \<Rightarrow> ResponseWriter \<Rightarrow> bool" where
  "gateway_error route matcher w w' \<longleftrightarrow>
     (\<exists>hdr. rw_sent w' = Some (502, hdr) \<and> decorated (ch_Via route) (Matches matcher 502) (rw_Header w) hdr) \<and> rw_Body w' = rw_Body w"

lemma bad_gateway_answers: "rw_sent w = None \<Longrightarrow> \<exists>w'. bad_gateway route matcher w = Inr w' \<and> gateway_error route matcher w w'"
  using decorated_response [of route matcher 502 "rw_Header w"] by (simp add: bad_gateway_def WriteHeader_def gateway_error_def)

text \<open>An answer of the upstream, with the route's headers on its headers \<open>h\<close>, and its body.\<close>

definition forwards ::
  "CompiledHTTPRoute \<Rightarrow> StatusMatcher option \<Rightarrow> int \<Rightarrow> header \<Rightarrow> string \<Rightarrow> ResponseWriter \<Rightarrow> ResponseWriter \<Rightarrow> bool" where
  "forwards route matcher code h body w w' \<longleftrightarrow>
     (\<exists>hdr hdr'. rw_sent w' = Some (code, hdr) \<and> decorated (ch_Via route) (Matches matcher code) h hdr' \<and>
        (\<forall>k. Header_Values hdr k = Header_Values (rw_Header w) k @ Header_Values hdr' k)) \<and>
     rw_Body w' = rw_Body w @ body"

lemma forwardsI:
  assumes "header_ok h" "hdr = copyHeader (rw_Header w) (setNoCacheIfMatched matcher code (set_via route h))"
    and "rw_sent w' = Some (code, hdr)" "rw_Body w' = rw_Body w @ body"
  shows "forwards route matcher code h body w w'"
proof -
  let ?h = "setNoCacheIfMatched matcher code (set_via route h)"
  have "header_ok ?h" using assms(1) by simp
  from Values_copyHeader [OF this, of "rw_Header w"] decorated_response [of route matcher code h] assms show ?thesis
    unfolding forwards_def by blast
qed

subsection \<open>The request the upstream gets\<close>

definition trusted_peer :: "Request \<Rightarrow> bool" where
  "trusted_peer r \<longleftrightarrow> map_of (rq_vars r) ''trusted_proxy'' = Some (VBool True)"

definition forwarding_headers :: "string set" where
  "forwarding_headers = {''Forwarded'', ''X-Forwarded-For'', ''X-Forwarded-Host'', ''X-Forwarded-Proto''}"

text \<open>The headers of a request that are between the client and the upstream only.\<close>

definition end_to_end :: "header \<Rightarrow> string \<Rightarrow> bool" where
  "end_to_end h k \<longleftrightarrow> CanonicalHeaderKey k \<notin>
     CanonicalHeaderKey ` set (list_elements (Header_Values h ''Connection'') @ hopHeaders) \<union> forwarding_headers \<union> {''User-Agent''}"

text \<open>What \<open>X-Forwarded-For\<close> and \<open>X-Forwarded-Proto\<close> are meant to be.\<close>

definition forwarded_for :: "Request \<Rightarrow> string list" where
  "forwarded_for r =
     (let prior = Join (Header_Values (rq_Header r) ''X-Forwarded-For'') '', '' in
      case SplitHostPort (rq_RemoteAddr r) of
        None \<Rightarrow> []
      | Some (peer, _) \<Rightarrow> [if trusted_peer r \<and> prior \<noteq> [] then prior @ '', '' @ peer else peer])"

definition forwarded_proto :: "Request \<Rightarrow> string" where
  "forwarded_proto r =
     (let proto = Header_Get (rq_Header r) ''X-Forwarded-Proto'' in
      if trusted_peer r \<and> proto \<noteq> [] then proto else if rq_TLS r then ''https'' else ''http'')"

lemma Values_forwarding_stripped: "CanonicalHeaderKey k \<in> forwarding_headers \<Longrightarrow> Header_Values (proxy_header h) k = []"
  by (auto simp: proxy_header_def Let_def Values_Del forwarding_headers_def)

lemma Values_proxy_header: "end_to_end h k \<Longrightarrow> Header_Values (proxy_header h) k = Header_Values h k"
proof -
  assume e: "end_to_end h k"
  have hops: "''Te'' \<in> CanonicalHeaderKey ` set hopHeaders" "''Connection'' \<in> CanonicalHeaderKey ` set hopHeaders"
    "''Upgrade'' \<in> CanonicalHeaderKey ` set hopHeaders" by (simp_all add: hopHeaders_def)
  from e hops have n: "CanonicalHeaderKey k \<noteq> ''Te''" "CanonicalHeaderKey k \<noteq> ''Connection''" "CanonicalHeaderKey k \<noteq> ''Upgrade''"
    "CanonicalHeaderKey k \<notin> forwarding_headers" by (auto simp: end_to_end_def)
  have "Header_Values (removeHopByHopHeaders h) k = Header_Values h k"
    using e unfolding end_to_end_def removeHopByHopHeaders_def Values_Del_all by simp
  with n show ?thesis by (simp add: proxy_header_def Let_def Values_Del Values_Set forwarding_headers_def)
qed

lemma Values_setForwardedHeaders:
  "Header_Values (setForwardedHeaders out r) k =
     (if CanonicalHeaderKey k = ''X-Forwarded-For'' \<and> forwarded_for r \<noteq> [] then forwarded_for r
      else if CanonicalHeaderKey k = ''X-Forwarded-Proto'' then [forwarded_proto r]
      else Header_Values out k)"
  by (auto simp: setForwardedHeaders_def forwarded_for_def forwarded_proto_def trusted_peer_def Let_def Values_Set split: option.split)

lemma Values_with_user_agent: "CanonicalHeaderKey k \<noteq> ''User-Agent'' \<Longrightarrow> Header_Values (with_user_agent h) k = Header_Values h k"
  by (simp add: with_user_agent_def Values_Set)

lemma upstream_request:
  assumes "outbound (rewrite_request route u r) r = Some out"
  shows "rq_Host out = rq_Host r" "url_Scheme (rq_URL out) = ''http''" "url_Host (rq_URL out) = up_Address u"
    and "CanonicalHeaderKey k \<noteq> ''User-Agent'' \<Longrightarrow>
      Header_Values (rq_Header out) k = Header_Values (setForwardedHeaders (proxy_header (rq_Header r)) r) k"
  using assms by (auto simp: outbound_def rewrite_request_def Let_def Values_with_user_agent split: if_splits prod.splits)

lemma upstream_forwarded:
  assumes "outbound (rewrite_request route u r) r = Some out"
  shows "Header_Values (rq_Header out) ''X-Forwarded-For'' = forwarded_for r"
    "Header_Values (rq_Header out) ''X-Forwarded-Proto'' = [forwarded_proto r]"
    "Header_Values (rq_Header out) ''X-Forwarded-Host'' = []" "Header_Values (rq_Header out) ''Forwarded'' = []"
  using upstream_request(4) [OF assms]
  by (simp_all add: Values_setForwardedHeaders Values_forwarding_stripped forwarding_headers_def)

lemma picked_upstream:
  assumes "intn rnd" "healthyUpstreams ups \<noteq> []"
  shows "healthyUpstreams ups ! nat (rnd (int (length (healthyUpstreams ups)))) \<in> {u \<in> set ups. up_Healthy u}"
proof -
  let ?hs = "healthyUpstreams ups"
  have "0 < int (length ?hs)" using assms(2) by simp
  with assms(1) have "nat (rnd (int (length ?hs))) < length ?hs" unfolding intn_def by (metis int_nat_eq less_eq_int_code(1) nat_less_iff of_nat_less_iff)
  then have "?hs ! nat (rnd (int (length ?hs))) \<in> set ?hs" by (rule nth_mem)
  then show ?thesis by (simp add: healthyUpstreams_def)
qed

lemma join_path_absolute:
  assumes "HasPrefix (url_Path u) ''/''" "url_RawPath u = [] \<or> HasPrefix (url_RawPath u) ''/''"
  shows "fst (join_path u) = url_Path u"
proof -
  have "HasPrefix (escape_path (url_Path u)) ''/''" "url_Path u \<noteq> ''*''"
    using assms(1) by (auto simp: HasPrefix_iff shouldEscape_def)
  then have "url_RawPath u \<noteq> [] \<Longrightarrow> HasPrefix (EscapedPath u) ''/''" using assms(2) by (auto simp: EscapedPath_def)
  with assms(1) show ?thesis by (simp add: join_path_def Let_def)
qed

lemma matched_path:
  assumes "Match rt host path = Some route" "strips route" "path \<noteq> []"
  obtains rest where "path = ch_Path route @ rest"
proof -
  have "request_matches host path route" using Match_first_best [of host path rt] assms(1) first_best_in_set by fastforce
  with assms(2,3) have "HasPrefix path (ch_Path route)" by (auto simp: request_matches_def path_matches_def strips_def)
  with that show ?thesis by (auto simp: HasPrefix_iff)
qed

lemma upstream_url_path:
  assumes "outbound (rewrite_request route u r) r = Some out"
  shows "url_Path (rq_URL out) = strip_path route (fst (join_path (rq_URL r)))"
  using assms by (auto simp: outbound_def rewrite_request_def Let_def split: if_splits prod.splits)

subsection \<open>Answers\<close>

lemma isl_go_bind: "isl (go_bind m f) \<longleftrightarrow> isl m \<or> (\<exists>x. m = Inr x \<and> isl (f x))"
  by (cases m) simp_all

text \<open>The matcher in force for a route: none for a service that opted out, else its own, else the global one.\<close>

definition matcher_for :: "ConsulProxyHandler \<Rightarrow> CompiledHTTPRoute \<Rightarrow> StatusMatcher option" where
  "matcher_for h route =
     (if ch_NoCacheOptOut route then None
      else case ch_NoCacheMatcher route of Some m \<Rightarrow> Some m | None \<Rightarrow> hd_globalNoCacheMatcher h)"

lemma effectiveNoCacheMatcher_eq: "effectiveNoCacheMatcher h route = matcher_for h route"
  by (simp add: matcher_for_def effectiveNoCacheMatcher_def split: option.split)

text \<open>The transport answers with a final status or a protocol switch, under canonical header keys.\<close>

definition transport_ok :: "proxy_env \<Rightarrow> bool" where
  "transport_ok px \<longleftrightarrow> (\<forall>out res. px_roundTrip px out = Inr res \<longrightarrow>
     (rs_StatusCode res = 101 \<or> 200 \<le> rs_StatusCode res \<and> rs_StatusCode res \<le> 999) \<and> header_ok (rs_Header res))"

text \<open>The answer to a proxied request when the upstream chosen is \<open>u\<close>.\<close>

definition answered_by ::
  "proxy_env \<Rightarrow> CompiledHTTPRoute \<Rightarrow> StatusMatcher option \<Rightarrow> Request \<Rightarrow> Upstream \<Rightarrow> ResponseWriter \<Rightarrow> ResponseWriter \<Rightarrow> bool" where
  "answered_by px route matcher r u w w' \<longleftrightarrow>
     (case outbound (rewrite_request route u r) r of
        None \<Rightarrow> gateway_error route matcher w w'
      | Some out \<Rightarrow>
          (case px_roundTrip px out of
             Inl _ \<Rightarrow> gateway_error route matcher w w'
           | Inr res \<Rightarrow>
               if rs_StatusCode res \<noteq> 101
               then forwards route matcher (rs_StatusCode res) (removeHopByHopHeaders (rs_Header res)) (rs_Body res) w w'
               else if px_upgrade px out (modify_response route matcher res) = None
               then forwards route matcher 101 (rs_Header res) [] w w'
               else gateway_error route matcher w w'))"

lemma ReverseProxy_answered:
  assumes "rw_sent w = None" "transport_ok px"
  shows "\<exists>w'. ReverseProxy (px_roundTrip px) (px_upgrade px) (rewrite_request route u r) (modify_response route m) (bad_gateway route m) w r
     = Inr w' \<and> answered_by px route m r u w w'"
proof (cases "outbound (rewrite_request route u r) r")
  case None
  with bad_gateway_answers [OF assms(1)] show ?thesis by (simp add: ReverseProxy_def answered_by_def)
next
  case (Some out)
  show ?thesis
  proof (cases "px_roundTrip px out")
    case (Inl err)
    with Some bad_gateway_answers [OF assms(1)] show ?thesis by (simp add: ReverseProxy_def answered_by_def)
  next
    case (Inr res)
    with assms(2) have s: "rs_StatusCode res = 101 \<or> 200 \<le> rs_StatusCode res \<and> rs_StatusCode res \<le> 999" and h: "header_ok (rs_Header res)"
      by (auto simp: transport_ok_def)
    note f = forwardsI [OF h refl] forwardsI [OF header_ok_hop [OF h] refl]
    show ?thesis
    proof (cases "rs_StatusCode res = 101")
      case True
      with Some Inr bad_gateway_answers [OF assms(1), of route m] show ?thesis
        by (cases "px_upgrade px out (modify_response route m res)")
          (auto simp: ReverseProxy_def answered_by_def Let_def modify_response_def intro!: f)
    next
      case False
      with s Some Inr assms(1) show ?thesis
        by (auto simp: ReverseProxy_def answered_by_def Let_def modify_response_def WriteHeader_def Write_def intro!: f)
    qed
  qed
qed

text \<open>The three ways a matched request is served.\<close>

lemma ServeHTTP_cases:
  assumes "Match rt (rq_Host r) (url_Path (rq_URL r)) = Some route"
  shows "redirects route \<Longrightarrow> ServeHTTP px h rt nxt w r = go_bind (serve_redirect route w r) (\<lambda>w'. Inr (w', None))"
    and "\<not> redirects route \<Longrightarrow> healthyUpstreams (ch_Upstreams route) = [] \<Longrightarrow>
      ServeHTTP px h rt nxt w r = go_bind (bad_gateway route (matcher_for h route) w) (\<lambda>w'. Inr (w', None))"
    and "\<not> redirects route \<Longrightarrow> healthyUpstreams (ch_Upstreams route) \<noteq> [] \<Longrightarrow> intn (px_rnd px) \<Longrightarrow>
      \<exists>u \<in> set (ch_Upstreams route). up_Healthy u \<and> ServeHTTP px h rt nxt w r =
        go_bind (ReverseProxy (px_roundTrip px) (px_upgrade px) (rewrite_request route u r) (modify_response route (matcher_for h route))
          (bad_gateway route (matcher_for h route)) w r) (\<lambda>w'. Inr (w', None))"
proof -
  show "redirects route \<Longrightarrow> ServeHTTP px h rt nxt w r = go_bind (serve_redirect route w r) (\<lambda>w'. Inr (w', None))"
    "\<not> redirects route \<Longrightarrow> healthyUpstreams (ch_Upstreams route) = [] \<Longrightarrow>
      ServeHTTP px h rt nxt w r = go_bind (bad_gateway route (matcher_for h route) w) (\<lambda>w'. Inr (w', None))"
    using assms by (simp_all add: ServeHTTP_def effectiveNoCacheMatcher_eq)
  assume u: "\<not> redirects route" "healthyUpstreams (ch_Upstreams route) \<noteq> []" "intn (px_rnd px)"
  let ?u = "healthyUpstreams (ch_Upstreams route) ! nat (px_rnd px (int (length (healthyUpstreams (ch_Upstreams route)))))"
  show "\<exists>u \<in> set (ch_Upstreams route). up_Healthy u \<and> ServeHTTP px h rt nxt w r =
        go_bind (ReverseProxy (px_roundTrip px) (px_upgrade px) (rewrite_request route u r) (modify_response route (matcher_for h route))
          (bad_gateway route (matcher_for h route)) w r) (\<lambda>w'. Inr (w', None))"
    using picked_upstream [OF u(3,2)] u(1,2) assms by (intro bexI [of _ ?u]) (simp_all add: ServeHTTP_def effectiveNoCacheMatcher_eq Let_def)
qed

lemma serve_redirect_answers:
  assumes "rw_sent w = None" "200 \<le> ch_RedirectCode route" "ch_RedirectCode route \<le> 999"
  shows "\<exists>w' hdr. serve_redirect route w r = Inr w' \<and> rw_sent w' = Some (ch_RedirectCode route, hdr) \<and> rw_Body w' = rw_Body w \<and>
    decorated [] (ch_RedirectNoCache route) (Header_Set (rw_Header w) ''Location'' (expandRedirectURL (ch_RedirectURL route) r)) hdr"
  using assms decorated_no_cache [of "ch_RedirectNoCache route" "Header_Set (rw_Header w) ''Location'' (expandRedirectURL (ch_RedirectURL route) r)"]
  by (simp add: serve_redirect_def WriteHeader_def Let_def)

subsection \<open>A concrete request\<close>

definition stripping_route :: CompiledHTTPRoute where
  "stripping_route =
     \<lparr>ch_Host = ''a.example'', ch_Path = ''/api/'', ch_Upstreams =
        [\<lparr>up_Address = ''10.0.0.2:80'', up_Weight = 1, up_Healthy = True, up_NodeName = ''n1''\<rparr>],
      ch_StripPrefix = True, ch_ServiceName = ''web'', ch_Via = ''caddy-consul'', ch_RedirectCode = 0, ch_RedirectURL = [],
      ch_RedirectNoCache = False, ch_NoCacheMatcher = None, ch_NoCacheOptOut = False, ch_TagValues = []\<rparr>"

definition stripping_upstream :: Upstream where
  "stripping_upstream = hd (ch_Upstreams stripping_route)"

definition sample_request :: Request where
  "sample_request =
     \<lparr>rq_Host = ''a.example'', rq_URL = \<lparr>url_Scheme = [], url_Host = [], url_Path = ''/api/users'', url_RawPath = []\<rparr>,
      rq_RequestURI = ''/api/users'', rq_RemoteAddr = ''192.0.2.1:4000'',
      rq_Header = [(''X-Forwarded-For'', [''6.6.6.6'']), (''Accept'', [''*/*''])], rq_TLS = True, rq_vars = []\<rparr>"

definition sample_px :: proxy_env where
  "sample_px =
     \<lparr>px_rnd = (\<lambda>n. n - 1), px_roundTrip = (\<lambda>out. Inr \<lparr>rs_StatusCode = 200, rs_Header = [(''Content-Type'', [''text/plain''])], rs_Body = ''ok''\<rparr>),
      px_upgrade = (\<lambda>_ _. None)\<rparr>"

definition fresh_writer :: ResponseWriter where
  "fresh_writer = \<lparr>rw_Header = [], rw_sent = None, rw_informational = [], rw_Body = []\<rparr>"

definition sample_handler :: ConsulProxyHandler where
  "sample_handler = \<lparr>hd_globalNoCacheMatcher = None\<rparr>"

text \<open>The route of an instance whose metadata ask for a redirect with code 42.\<close>

definition odd_redirect :: CompiledHTTPRoute where
  "odd_redirect = the (compile_http_route (parseNonIndexedMeta
     [(''caddy-host'', ''a.example''), (''caddy-redirect-code'', ''42''), (''caddy-redirect-url'', ''/'')]))"

lemma sample_facts:
  "intn (px_rnd sample_px)" "rw_sent fresh_writer = None" "transport_ok sample_px"
  "Match \<lparr>rt_routes = [stripping_route]\<rparr> (rq_Host sample_request) (url_Path (rq_URL sample_request)) = Some stripping_route"
  "\<not> redirects stripping_route" "strips stripping_route" "ch_Upstreams stripping_route = [stripping_upstream]" "up_Healthy stripping_upstream"
  "outbound (rewrite_request stripping_route stripping_upstream r) r \<noteq> None \<longleftrightarrow> list_all (\<lambda>c. 32 \<le> byte c \<and> byte c \<le> 126) (upgradeType (rq_Header r))"
  "upgradeType (rq_Header sample_request) = []"
proof -
  show "intn (px_rnd sample_px)" by (simp add: intn_def sample_px_def)
  show "transport_ok sample_px"
  proof -
    have "header_ok [(''Content-Type'', [''text/plain''])]" by code_simp
    then show ?thesis by (auto simp: transport_ok_def sample_px_def)
  qed
  show "Match \<lparr>rt_routes = [stripping_route]\<rparr> (rq_Host sample_request) (url_Path (rq_URL sample_request)) = Some stripping_route" by code_simp
  show "upgradeType (rq_Header sample_request) = []" by code_simp
  show "outbound (rewrite_request stripping_route stripping_upstream r) r \<noteq> None \<longleftrightarrow> list_all (\<lambda>c. 32 \<le> byte c \<and> byte c \<le> 126) (upgradeType (rq_Header r))"
    by (simp add: outbound_def Let_def)
qed (simp_all add: fresh_writer_def redirects_def strips_def stripping_route_def stripping_upstream_def)

subsection \<open>Properties\<close>

text \<open>C8: A request that matches a route is answered by that route. A redirect is answered with its code and the expanded
  location, with no-cache headers iff the route asks for them. A proxied request goes to one healthy upstream of the route, and the client
  gets the upstream's status, headers (without the hop-by-hop ones) and body; without a healthy upstream, or when the round trip
  fails, it gets 502. Either answer carries the route's \<open>Via\<close> tag, and no-cache headers iff the status is one of the
  matcher in force. A request that matches no route goes to the next handler untouched.\<close>

theorem ServeHTTP_correct:
  assumes "intn (px_rnd px)" "rw_sent w = None" "transport_ok px"
    and "\<forall>route \<in> set (rt_routes rt). redirects route \<longrightarrow> 200 \<le> ch_RedirectCode route \<and> ch_RedirectCode route \<le> 999"
  shows "case Match rt (rq_Host r) (url_Path (rq_URL r)) of
      None \<Rightarrow> ServeHTTP px h rt nxt w r = nxt w r
    | Some route \<Rightarrow> \<exists>w'. ServeHTTP px h rt nxt w r = Inr (w', None) \<and>
        (if redirects route
         then \<exists>hdr. rw_sent w' = Some (ch_RedirectCode route, hdr) \<and> rw_Body w' = rw_Body w \<and>
                decorated [] (ch_RedirectNoCache route)
                  (Header_Set (rw_Header w) ''Location'' (expandRedirectURL (ch_RedirectURL route) r)) hdr
         else if \<forall>u \<in> set (ch_Upstreams route). \<not> up_Healthy u then gateway_error route (matcher_for h route) w w'
         else \<exists>u \<in> set (ch_Upstreams route). up_Healthy u \<and> answered_by px route (matcher_for h route) r u w w')"
proof (cases "Match rt (rq_Host r) (url_Path (rq_URL r))")
  case None
  then show ?thesis by (simp add: ServeHTTP_def)
next
  case (Some route)
  let ?hs = "healthyUpstreams (ch_Upstreams route)" and ?m = "matcher_for h route"
  have none: "(\<forall>u \<in> set (ch_Upstreams route). \<not> up_Healthy u) \<longleftrightarrow> ?hs = []" by (simp add: healthyUpstreams_def filter_empty_conv)
  have "route \<in> set (rt_routes rt)" using Match_first_best [of "rq_Host r" "url_Path (rq_URL r)" rt] Some first_best_in_set by fastforce
  with assms(4) have codes: "redirects route \<Longrightarrow> 200 \<le> ch_RedirectCode route \<and> ch_RedirectCode route \<le> 999" by blast
  note cases = ServeHTTP_cases [OF Some, where px = px and h = h and nxt = nxt and w = w]
  consider (redirect) "redirects route" | (down) "\<not> redirects route" "?hs = []" | (up) "\<not> redirects route" "?hs \<noteq> []" by blast
  then show ?thesis
  proof cases
    case redirect
    from codes [OF redirect] have "200 \<le> ch_RedirectCode route" "ch_RedirectCode route \<le> 999" by simp_all
    from serve_redirect_answers [OF assms(2) this, of r] cases(1) [OF redirect] redirect show ?thesis by (auto simp: Some)
  next
    case down
    from bad_gateway_answers [OF assms(2), of route ?m] cases(2) [OF down] down none show ?thesis by (auto simp: Some)
  next
    case up
    from cases(3) [OF up assms(1)] obtain u where u: "u \<in> set (ch_Upstreams route)" "up_Healthy u" and
      s: "ServeHTTP px h rt nxt w r = go_bind (ReverseProxy (px_roundTrip px) (px_upgrade px) (rewrite_request route u r)
            (modify_response route ?m) (bad_gateway route ?m) w r) (\<lambda>w'. Inr (w', None))" by blast
    from ReverseProxy_answered [OF assms(2,3), of route u r ?m] s u up none show ?thesis by (auto simp: Some)
  qed
qed

theorem ServeHTTP_correct_witness:
  "\<exists>w'. ServeHTTP sample_px sample_handler \<lparr>rt_routes = [stripping_route]\<rparr> (\<lambda>w r. Inr (w, None)) fresh_writer sample_request = Inr (w', None) \<and>
     answered_by sample_px stripping_route None sample_request stripping_upstream fresh_writer w'"
proof -
  have m: "matcher_for sample_handler stripping_route = None" by code_simp
  have "\<forall>route \<in> set (rt_routes \<lparr>rt_routes = [stripping_route]\<rparr>). redirects route \<longrightarrow> 200 \<le> ch_RedirectCode route \<and> ch_RedirectCode route \<le> 999"
    using sample_facts(5) by simp
  from ServeHTTP_correct [OF sample_facts(1-3) this, where h = sample_handler and nxt = "\<lambda>w r. Inr (w, None)" and r = sample_request]
  show ?thesis using sample_facts(5,7,8) by (simp only: sample_facts(4) option.case) (simp add: m)
qed

text \<open>C37: The request sent to upstream \<open>u\<close> has the client's \<open>Host\<close> and end-to-end headers; \<open>X-Forwarded-For\<close> and
  \<open>X-Forwarded-Proto\<close> are the peer and the scheme of the connection, after what a trusted proxy reported; no
  \<open>Forwarded\<close> or \<open>X-Forwarded-Host\<close> gets through.\<close>

theorem upstream_headers_correct:
  assumes "outbound (rewrite_request route u r) r = Some out"
  shows "rq_Host out = rq_Host r \<and> url_Scheme (rq_URL out) = ''http'' \<and> url_Host (rq_URL out) = up_Address u \<and>
    Header_Values (rq_Header out) ''X-Forwarded-For'' = forwarded_for r \<and>
    Header_Values (rq_Header out) ''X-Forwarded-Proto'' = [forwarded_proto r] \<and>
    Header_Values (rq_Header out) ''X-Forwarded-Host'' = [] \<and> Header_Values (rq_Header out) ''Forwarded'' = [] \<and>
    (\<forall>k. end_to_end (rq_Header r) k \<longrightarrow> Header_Values (rq_Header out) k = Header_Values (rq_Header r) k)"
proof -
  have "Header_Values (rq_Header out) k = Header_Values (rq_Header r) k" if e: "end_to_end (rq_Header r) k" for k
  proof -
    from e have n: "CanonicalHeaderKey k \<noteq> ''User-Agent''" "CanonicalHeaderKey k \<notin> forwarding_headers" by (auto simp: end_to_end_def)
    then show ?thesis using upstream_request(4) [OF assms n(1)] Values_proxy_header [OF e]
      by (simp add: Values_setForwardedHeaders forwarding_headers_def)
  qed
  with upstream_request(1-3) [OF assms] upstream_forwarded [OF assms] show ?thesis by simp
qed

theorem upstream_headers_correct_witness:
  "\<exists>out. outbound (rewrite_request stripping_route stripping_upstream sample_request) sample_request = Some out \<and>
     Header_Values (rq_Header out) ''X-Forwarded-For'' = [''192.0.2.1''] \<and> Header_Values (rq_Header out) ''X-Forwarded-Proto'' = [''https'']"
proof -
  from sample_facts(9) [of sample_request] sample_facts(10) obtain out where
    o: "outbound (rewrite_request stripping_route stripping_upstream sample_request) sample_request = Some out" by auto
  have "forwarded_for sample_request = [''192.0.2.1'']" "forwarded_proto sample_request = ''https''" by code_simp+
  with upstream_headers_correct [OF o] o show ?thesis by simp
qed

text \<open>C13: A client that is not a trusted proxy cannot influence the forwarding headers: whatever headers it sends, the
  upstream sees the same ones.\<close>

theorem forwarding_headers_unforgeable:
  assumes "\<not> trusted_peer r" "CanonicalHeaderKey k \<in> forwarding_headers"
    and "outbound (rewrite_request route u r) r = Some out"
    and "outbound (rewrite_request route u (r\<lparr>rq_Header := forged\<rparr>)) (r\<lparr>rq_Header := forged\<rparr>) = Some out'"
  shows "Header_Values (rq_Header out') k = Header_Values (rq_Header out) k"
proof -
  have t: "\<not> trusted_peer (r\<lparr>rq_Header := forged\<rparr>)" using assms(1) by (simp add: trusted_peer_def)
  have f: "forwarded_for (r\<lparr>rq_Header := forged\<rparr>) = forwarded_for r" "forwarded_proto (r\<lparr>rq_Header := forged\<rparr>) = forwarded_proto r"
    using assms(1) t by (simp_all add: forwarded_for_def forwarded_proto_def Let_def split: option.split)
  have n: "CanonicalHeaderKey k \<noteq> ''User-Agent''" using assms(2) by (auto simp: forwarding_headers_def)
  show ?thesis using upstream_request(4) [OF assms(3) n] upstream_request(4) [OF assms(4) n] assms(2)
    by (simp add: Values_setForwardedHeaders f Values_forwarding_stripped)
qed

theorem forwarding_headers_unforgeable_witness:
  "\<exists>out out'. outbound (rewrite_request stripping_route stripping_upstream sample_request) sample_request = Some out \<and>
     outbound (rewrite_request stripping_route stripping_upstream (sample_request\<lparr>rq_Header := []\<rparr>)) (sample_request\<lparr>rq_Header := []\<rparr>) = Some out' \<and>
     Header_Values (rq_Header out') ''X-Forwarded-For'' = Header_Values (rq_Header out) ''X-Forwarded-For''"
proof -
  let ?r = "sample_request\<lparr>rq_Header := []\<rparr>"
  have "upgradeType (rq_Header ?r) = []" by code_simp
  with sample_facts(9) [of sample_request] sample_facts(9) [of ?r] sample_facts(10) obtain out out' where
    o: "outbound (rewrite_request stripping_route stripping_upstream sample_request) sample_request = Some out"
       "outbound (rewrite_request stripping_route stripping_upstream ?r) ?r = Some out'" by auto
  have "\<not> trusted_peer sample_request" by code_simp
  from forwarding_headers_unforgeable [OF this _ o, of "''X-Forwarded-For''"] o show ?thesis by (simp add: forwarding_headers_def)
qed

text \<open>C38: The path on the wire decodes to the path of the request, or, for a route that strips its prefix, to what
  follows the prefix, \<open>/\<close> when nothing does. What follows need not start with a slash (a prefix that ends in one, or is
  not followed by one), and then neither does the path sent.\<close>

theorem upstream_path_correct:
  assumes "Match rt (rq_Host r) (url_Path (rq_URL r)) = Some route" "outbound (rewrite_request route u r) r = Some out"
    and "HasPrefix (url_Path (rq_URL r)) ''/''" "url_RawPath (rq_URL r) = [] \<or> HasPrefix (url_RawPath (rq_URL r)) ''/''"
  shows "if strips route
    then \<exists>rest. url_Path (rq_URL r) = ch_Path route @ rest \<and>
      unescape_path (EscapedPath (rq_URL out)) = Some (if rest = [] then ''/'' else rest) \<and>
      (HasPrefix (url_Path (rq_URL out)) ''/'' \<longleftrightarrow> rest = [] \<or> HasPrefix rest ''/'')
    else unescape_path (EscapedPath (rq_URL out)) = Some (url_Path (rq_URL r))"
proof -
  have p: "url_Path (rq_URL out) = strip_path route (url_Path (rq_URL r))"
    using upstream_url_path [OF assms(2)] join_path_absolute [OF assms(3,4)] by simp
  have ne: "url_Path (rq_URL r) \<noteq> []" using assms(3) by (auto simp: HasPrefix_iff)
  show ?thesis
  proof (cases "strips route")
    case True
    from matched_path [OF assms(1) True ne] obtain rest where r: "url_Path (rq_URL r) = ch_Path route @ rest" .
    with p True have "url_Path (rq_URL out) = (if rest = [] then ''/'' else rest)" by (simp add: strip_path_def)
    with r True show ?thesis by (auto simp: unescape_EscapedPath HasPrefix_iff)
  qed (use p in \<open>simp add: unescape_EscapedPath strip_path_def\<close>)
qed

theorem upstream_path_correct_witness:
  "\<exists>out. outbound (rewrite_request stripping_route stripping_upstream sample_request) sample_request = Some out \<and>
     unescape_path (EscapedPath (rq_URL out)) = Some ''users'' \<and> \<not> HasPrefix (url_Path (rq_URL out)) ''/''"
proof -
  from sample_facts(9) [of sample_request] sample_facts(10) obtain out where
    o: "outbound (rewrite_request stripping_route stripping_upstream sample_request) sample_request = Some out" by auto
  have p: "HasPrefix (url_Path (rq_URL sample_request)) ''/''"
    "url_RawPath (rq_URL sample_request) = [] \<or> HasPrefix (url_RawPath (rq_URL sample_request)) ''/''"
    "url_Path (rq_URL sample_request) = ch_Path stripping_route @ rest \<longleftrightarrow> rest = ''users''" for rest
    by (auto simp: sample_request_def stripping_route_def HasPrefix_def)
  from upstream_path_correct [OF sample_facts(4) o p(1,2)] sample_facts(6) p(3) have
    "unescape_path (EscapedPath (rq_URL out)) = Some ''users''" "\<not> HasPrefix (url_Path (rq_URL out)) ''/''" by (auto simp: HasPrefix_def)
  with o show ?thesis by blast
qed



end
