(* ===== verification/Route_Info.thy ===== *)
theory Route_Info
  imports Handler
begin

text \<open>
  \<open>route_info.go\<close>: the \<open>consul_route_info\<close> HTTP handler, which looks a request up in the route table, sets request
  variables from the route, calls the next handler and counts the outcome. A handler is seen through the operations it performs on its
  response writer, in order, and the error it returns: the status recorder stands between the two. The counter of the handler is
  the one the collector has registered for its label names. Outside the program, hence a parameter: \<open>register_err\<close>, what Prometheus
  says of a list of label names.
\<close>

record ConsulRouteInfoHandler =
  ri_Vars :: "(string, string) gomap"
  ri_Metrics :: bool
  ri_MetricLabels :: "(string, string) gomap"
  ri_HostLabel :: string
  ri_counter :: "string list option"
  ri_labelNames :: "string list"
  ri_labelTagKeys :: "string list"

definition zero_info :: ConsulRouteInfoHandler where
  "zero_info = \<lparr>ri_Vars = [], ri_Metrics = False, ri_MetricLabels = [], ri_HostLabel = [], ri_counter = None,
     ri_labelNames = [], ri_labelTagKeys = []\<rparr>"

definition ServiceVarKey :: string where
  "ServiceVarKey = ''consul.service''"

subsection \<open>Caddyfile\<close>

text \<open>The lines of the block, each a list of tokens; \<open>args\<close> are the tokens after the name of the directive.\<close>

fun info_line :: "string list \<Rightarrow> ConsulRouteInfoHandler \<Rightarrow> config_error + ConsulRouteInfoHandler" where
  "info_line [] h = Inr h"
| "info_line (opt # args) h =
     (if opt = ''var'' then
        (case args of [name, tagKey] \<Rightarrow> Inr (h\<lparr>ri_Vars := AList.update name tagKey (ri_Vars h)\<rparr>) | _ \<Rightarrow> Inl (ArgErr opt))
      else if opt = ''metrics'' then (if args = [] then Inr (h\<lparr>ri_Metrics := True\<rparr>) else Inl (ArgErr opt))
      else if opt = ''metric_label'' then
        (case args of [name, tagKey] \<Rightarrow> Inr (h\<lparr>ri_MetricLabels := AList.update name tagKey (ri_MetricLabels h)\<rparr>) | _ \<Rightarrow> Inl (ArgErr opt))
      else if opt = ''metric_host_label'' then
        (case args of [name] \<Rightarrow> Inr (h\<lparr>ri_HostLabel := name\<rparr>) | _ \<Rightarrow> Inl (ArgErr opt))
      else Inl (Unrecognized opt))"

fun info_lines :: "string list list \<Rightarrow> ConsulRouteInfoHandler \<Rightarrow> config_error + ConsulRouteInfoHandler" where
  "info_lines [] h = Inr h"
| "info_lines (line # lines) h = (case info_line line h of Inl err \<Rightarrow> Inl err | Inr h' \<Rightarrow> info_lines lines h')"

definition Info_UnmarshalCaddyfile ::
  "string list \<Rightarrow> string list list \<Rightarrow> ConsulRouteInfoHandler \<Rightarrow> config_error + ConsulRouteInfoHandler" where
  "Info_UnmarshalCaddyfile args lines h = (if args \<noteq> [] then Inl (ArgErr ''consul_route_info'') else info_lines lines h)"

definition parseConsulRouteInfoDirective :: "string list \<Rightarrow> string list list \<Rightarrow> config_error + ConsulRouteInfoHandler" where
  "parseConsulRouteInfoDirective args lines = Info_UnmarshalCaddyfile args lines zero_info"

subsection \<open>Provisioning\<close>

datatype info_error =
    AppError app_error
  | LabelsWithoutMetrics
  | MetricsDisabled
  | EmptyTagKey string
  | HostLabelDuplicate string
  | InvalidLabelName string
  | CounterRejected string

text \<open>The regular expression \<open>^[a-zA-Z_][a-zA-Z0-9_]*$\<close>.\<close>

definition metricLabelName :: "string \<Rightarrow> bool" where
  "metricLabelName name =
     (case name of
        [] \<Rightarrow> False
      | c # cs \<Rightarrow> (is_alpha c \<or> c = CHR ''_'') \<and> list_all (\<lambda>c. is_alpha c \<or> is_digit c \<or> c = CHR ''_'') cs)"

definition label_name_ok :: "string \<Rightarrow> bool" where
  "label_name_ok name \<longleftrightarrow> metricLabelName name \<and> name \<noteq> ''service'' \<and> name \<noteq> ''class'' \<and> name \<noteq> ''error''"

text \<open>The three loops: over the metric labels, over the sources of all labels, over the sorted names. The maps are in the order
  in which they are iterated.\<close>

fun label_sources :: "(string, string) gomap \<Rightarrow> (string, string) gomap \<Rightarrow> info_error + (string, string) gomap" where
  "label_sources [] sources = Inr sources"
| "label_sources ((name, tagKey) # labels) sources =
     (if tagKey = [] then Inl (EmptyTagKey name) else label_sources labels (AList.update name tagKey sources))"

fun label_names :: "(string, string) gomap \<Rightarrow> string list \<Rightarrow> info_error + string list" where
  "label_names [] names = Inr names"
| "label_names ((name, _) # sources) names =
     (if \<not> label_name_ok name then Inl (InvalidLabelName name) else label_names sources (names @ [name]))"

definition metricLabelLayout :: "ConsulRouteInfoHandler \<Rightarrow> info_error + string list \<times> string list" where
  "metricLabelLayout h =
     (case label_sources (ri_MetricLabels h) [] of
        Inl err \<Rightarrow> Inl err
      | Inr sources \<Rightarrow>
          if ri_HostLabel h \<noteq> [] \<and> map_of sources (ri_HostLabel h) \<noteq> None then Inl (HostLabelDuplicate (ri_HostLabel h))
          else let sources' = (if ri_HostLabel h \<noteq> [] then AList.update (ri_HostLabel h) [] sources else sources) in
               case label_names sources' [] of
                 Inl err \<Rightarrow> Inl err
               | Inr names \<Rightarrow> let names' = sort names in Inr (names', map (get_or [] sources') names'))"

text \<open>The handler and the collector of the app after \<open>Provision\<close>.\<close>

definition Info_Provision ::
  "(string list \<Rightarrow> string option) \<Rightarrow> string + caddy_app \<Rightarrow> ConsulRouteInfoHandler \<Rightarrow> info_error + ConsulRouteInfoHandler \<times> metrics" where
  "Info_Provision register_err app h =
     (case consul_app app of
        Inl err \<Rightarrow> Inl (AppError err)
      | Inr cr \<Rightarrow>
          if \<not> ri_Metrics h then
            if ri_MetricLabels h \<noteq> [] \<or> ri_HostLabel h \<noteq> [] then Inl LabelsWithoutMetrics else Inr (h, cr_metrics cr)
          else if cr_metrics cr = None then Inl MetricsDisabled
          else (case metricLabelLayout h of
                  Inl err \<Rightarrow> Inl err
                | Inr (names, tagKeys) \<Rightarrow>
                    (case RouteRequestsCounter register_err (cr_metrics cr) names of
                       (Inl err, _) \<Rightarrow> Inl (CounterRejected err)
                     | (Inr counter, m) \<Rightarrow>
                         Inr (h\<lparr>ri_labelNames := names, ri_labelTagKeys := tagKeys, ri_counter := counter\<rparr>, m))))"

subsection \<open>The status recorder\<close>

datatype response_op = OpHeader string string | OpWriteHeader int | OpWrite string

fun writer_op :: "response_op \<Rightarrow> ResponseWriter \<Rightarrow> ResponseWriter go" where
  "writer_op (OpHeader k v) w = Inr (set_header k v w)"
| "writer_op (OpWriteHeader code) w = WriteHeader code w"
| "writer_op (OpWrite b) w = Inr (Write b w)"

record statusRecorder =
  sr_writer :: ResponseWriter
  sr_status :: int

definition recorder_WriteHeader :: "int \<Rightarrow> statusRecorder \<Rightarrow> statusRecorder go" where
  "recorder_WriteHeader code sr =
     (let sr' = (if sr_status sr = 0 \<and> code \<ge> 200 then sr\<lparr>sr_status := code\<rparr> else sr)
      in go_bind (WriteHeader code (sr_writer sr')) (\<lambda>w. Inr (sr'\<lparr>sr_writer := w\<rparr>)))"

definition recorder_Write :: "string \<Rightarrow> statusRecorder \<Rightarrow> statusRecorder" where
  "recorder_Write b sr =
     (let sr' = (if sr_status sr = 0 then sr\<lparr>sr_status := 200\<rparr> else sr) in sr'\<lparr>sr_writer := Write b (sr_writer sr')\<rparr>)"

fun recorder_op :: "response_op \<Rightarrow> statusRecorder \<Rightarrow> statusRecorder go" where
  "recorder_op (OpHeader k v) sr = Inr (sr\<lparr>sr_writer := set_header k v (sr_writer sr)\<rparr>)"
| "recorder_op (OpWriteHeader code) sr = recorder_WriteHeader code sr"
| "recorder_op (OpWrite b) sr = Inr (recorder_Write b sr)"

fun run_ops :: "(response_op \<Rightarrow> 's \<Rightarrow> 's go) \<Rightarrow> response_op list \<Rightarrow> 's \<Rightarrow> 's go" where
  "run_ops f [] s = Inr s"
| "run_ops f (x # xs) s = go_bind (f x s) (run_ops f xs)"

subsection \<open>Serving a request\<close>

definition setRouteVars :: "Request \<Rightarrow> CompiledHTTPRoute \<Rightarrow> (string, string) gomap \<Rightarrow> Request" where
  "setRouteVars r route vars =
     r\<lparr>rq_vars := foldl (\<lambda>vs (name, tagKey).
          case map_of (ch_TagValues route) tagKey of None \<Rightarrow> vs | Some v \<Rightarrow> AList.update name (VString v) vs)
        (AList.update ServiceVarKey (VString (ch_ServiceName route)) (rq_vars r)) vars\<rparr>"

definition request_status :: "int \<Rightarrow> caddy_error option \<Rightarrow> int" where
  "request_status status err =
     (case err of
        Some e \<Rightarrow> (case err_status e of Some code \<Rightarrow> if code \<noteq> 0 then code else 500 | None \<Rightarrow> 500)
      | None \<Rightarrow> if status = 0 then 200 else status)"

definition labelValues :: "ConsulRouteInfoHandler \<Rightarrow> CompiledHTTPRoute \<Rightarrow> int \<Rightarrow> caddy_error option \<Rightarrow> string list" where
  "labelValues h route status err =
     ch_ServiceName route #
       map (\<lambda>key. if key = [] then ch_Host route else get_or [] (ch_TagValues route) key) (ri_labelTagKeys h) @
       [Itoa (quot (request_status status err) 100) @ ''xx'', if err \<noteq> None then ''true'' else ''false'']"

text \<open>\<open>h.counter.WithLabelValues(...).Inc()\<close>: seen in the collector while it serves the counter of these label names.\<close>

definition count_request :: "string list \<Rightarrow> string list \<Rightarrow> metrics \<Rightarrow> metrics" where
  "count_request labels values m =
     (if (case m of Some mc \<Rightarrow> map_option rr_labels (mc_routeRequests mc) = Some labels | None \<Rightarrow> False)
      then IncRouteRequests values m else m)"

type_synonym next_handler = "Request \<Rightarrow> response_op list \<times> caddy_error option"

definition Info_ServeHTTP ::
  "ConsulRouteInfoHandler \<Rightarrow> RouteTable \<Rightarrow> next_handler \<Rightarrow> ResponseWriter \<times> metrics \<Rightarrow> Request \<Rightarrow>
   (ResponseWriter \<times> metrics \<times> caddy_error option) go" where
  "Info_ServeHTTP h rt nxt st r =
     (case st of (w, m) \<Rightarrow>
        (case Match rt (rq_Host r) (url_Path (rq_URL r)) of
           None \<Rightarrow> (case nxt r of (ops, err) \<Rightarrow> go_bind (run_ops writer_op ops w) (\<lambda>w'. Inr (w', m, err)))
         | Some route \<Rightarrow>
             (let r' = setRouteVars r route (ri_Vars h) in
              case nxt r' of (ops, err) \<Rightarrow>
                (case ri_counter h of
                   None \<Rightarrow> go_bind (run_ops writer_op ops w) (\<lambda>w'. Inr (w', m, err))
                 | Some labels \<Rightarrow>
                     go_bind (run_ops recorder_op ops \<lparr>sr_writer = w, sr_status = 0\<rparr>)
                       (\<lambda>rec. Inr (sr_writer rec, count_request labels (labelValues h route (sr_status rec) err) m, err))))))"

lemmas [go_eval] = zero_info_def ServiceVarKey_def Info_UnmarshalCaddyfile_def parseConsulRouteInfoDirective_def metricLabelName_def
  label_name_ok_def metricLabelLayout_def Info_Provision_def recorder_WriteHeader_def recorder_Write_def setRouteVars_def
  request_status_def labelValues_def count_request_def Info_ServeHTTP_def

subsection \<open>Label layout\<close>

lemma update_fresh: "k \<notin> keys m \<Longrightarrow> AList.update k v m = m @ [(k, v)]"
  by (induction m) auto

lemma label_sources_result:
  "distinct (map fst (sources @ labels)) \<Longrightarrow>
   label_sources labels sources = Inr res \<longleftrightarrow> [] \<notin> snd ` set labels \<and> res = sources @ labels"
proof (induction labels sources rule: label_sources.induct)
  case (2 name tagKey labels sources)
  then have f: "AList.update name tagKey sources = sources @ [(name, tagKey)]" by (intro update_fresh) auto
  from 2 show ?case by (auto simp: f)
qed auto

lemma label_names_result: "label_names sources names = Inr res \<longleftrightarrow> (\<forall>n \<in> keys sources. label_name_ok n) \<and> res = names @ map fst sources"
  by (induction sources names rule: label_names.induct) auto

definition all_labels :: "ConsulRouteInfoHandler \<Rightarrow> (string, string) gomap" where
  "all_labels h = ri_MetricLabels h @ (if ri_HostLabel h = [] then [] else [(ri_HostLabel h, [])])"

lemma metricLabelLayout_result:
  assumes "gomap_ok (ri_MetricLabels h)"
  shows "metricLabelLayout h = Inr (names, tagKeys) \<longleftrightarrow>
    [] \<notin> snd ` set (ri_MetricLabels h) \<and> (ri_HostLabel h \<noteq> [] \<longrightarrow> ri_HostLabel h \<notin> keys (ri_MetricLabels h)) \<and>
    (\<forall>n \<in> keys (all_labels h). label_name_ok n) \<and>
    names = sorted_list_of_set (keys (all_labels h)) \<and> tagKeys = map (get_or [] (all_labels h)) names"
proof (cases "[] \<in> snd ` set (ri_MetricLabels h) \<or> ri_HostLabel h \<noteq> [] \<and> ri_HostLabel h \<in> keys (ri_MetricLabels h)")
  case True
  then show ?thesis using label_sources_result [of "[]" "ri_MetricLabels h"] assms
    by (auto simp: metricLabelLayout_def map_of_eq_None_iff split: sum.splits)
next
  case False
  then have s: "label_sources (ri_MetricLabels h) [] = Inr (ri_MetricLabels h)"
    using label_sources_result [of "[]" "ri_MetricLabels h" "ri_MetricLabels h"] assms by simp
  have a: "(if ri_HostLabel h \<noteq> [] then AList.update (ri_HostLabel h) [] (ri_MetricLabels h) else ri_MetricLabels h) = all_labels h"
    using False by (auto simp: all_labels_def intro!: update_fresh)
  have "gomap_ok (all_labels h)" using False assms by (auto simp: all_labels_def)
  then have n: "sort (map fst (all_labels h)) = sorted_list_of_set (keys (all_labels h))"
    by (simp only: sorted_list_of_set_sort_remdups distinct_remdups_id)
  have "\<not> (ri_HostLabel h \<noteq> [] \<and> map_of (ri_MetricLabels h) (ri_HostLabel h) \<noteq> None)"
    using False map_of_eq_None_iff [of "ri_MetricLabels h" "ri_HostLabel h"] by auto
  with s a have layout: "metricLabelLayout h = (case label_names (all_labels h) [] of Inl err \<Rightarrow> Inl err
      | Inr names \<Rightarrow> Inr (sort names, map (get_or [] (all_labels h)) (sort names)))"
    by (auto simp: metricLabelLayout_def Let_def split: sum.split)
  show ?thesis
  proof (cases "label_names (all_labels h) []")
    case (Inl err)
    then show ?thesis using layout label_names_result [of "all_labels h" "[]" "map fst (all_labels h)"] by (simp del: set_map)
  next
    case (Inr ns)
    then have "(\<forall>n \<in> keys (all_labels h). label_name_ok n) \<and> ns = map fst (all_labels h)" using label_names_result [of "all_labels h" "[]"] by simp
    then show ?thesis using Inr False layout n by (auto simp del: set_map)
  qed
qed

lemma layout_facts:
  assumes "metricLabelLayout h = Inr (names, tagKeys)" "gomap_ok (ri_MetricLabels h)"
  shows "length tagKeys = length names" "distinct (route_labels names)"
proof -
  note l = metricLabelLayout_result [OF assms(2), THEN iffD1, OF assms(1)]
  then show "length tagKeys = length names" by simp
  have "distinct names" "\<forall>n \<in> set names. label_name_ok n" using l by simp_all
  then show "distinct (route_labels names)" by (auto simp: route_labels_def label_name_ok_def)
qed

subsection \<open>The recorder\<close>

definition final_status :: "ResponseWriter \<Rightarrow> int" where
  "final_status w = (case rw_sent w of None \<Rightarrow> 200 | Some (code, _) \<Rightarrow> code)"

text \<open>What the recorder knows of the writer behind it.\<close>

definition recorded :: "statusRecorder \<Rightarrow> bool" where
  "recorded sr \<longleftrightarrow> (case rw_sent (sr_writer sr) of None \<Rightarrow> sr_status sr = 0 | Some (code, _) \<Rightarrow> sr_status sr = code \<and> 200 \<le> code)"

lemma recorder_op_step:
  assumes "recorded sr" "x \<noteq> OpWriteHeader 101"
  shows "case writer_op x (sr_writer sr) of
      Inl p \<Rightarrow> recorder_op x sr = Inl p
    | Inr w \<Rightarrow> \<exists>sr'. recorder_op x sr = Inr sr' \<and> sr_writer sr' = w \<and> recorded sr'"
  using assms by (cases x)
    (auto simp: recorded_def recorder_WriteHeader_def recorder_Write_def WriteHeader_def Write_def set_header_def Let_def split: option.splits)

lemma run_recorder:
  assumes "recorded sr" "OpWriteHeader 101 \<notin> set ops"
  shows "case run_ops writer_op ops (sr_writer sr) of
      Inl p \<Rightarrow> run_ops recorder_op ops sr = Inl p
    | Inr w \<Rightarrow> \<exists>sr'. run_ops recorder_op ops sr = Inr sr' \<and> sr_writer sr' = w \<and> recorded sr'"
  using assms
proof (induction ops arbitrary: sr)
  case (Cons x ops)
  then have x: "x \<noteq> OpWriteHeader 101" by auto
  show ?case
  proof (cases "writer_op x (sr_writer sr)")
    case (Inl p)
    with recorder_op_step [OF Cons.prems(1) x] show ?thesis by simp
  next
    case (Inr w)
    with recorder_op_step [OF Cons.prems(1) x] obtain sr' where "recorder_op x sr = Inr sr'" "sr_writer sr' = w" "recorded sr'" by auto
    with Inr Cons.IH [of sr'] Cons.prems(2) show ?thesis by (simp split: sum.splits)
  qed
qed simp

lemma recorded_request_status: "recorded sr \<Longrightarrow> request_status (sr_status sr) None = final_status (sr_writer sr)"
  by (auto simp: recorded_def request_status_def final_status_def split: option.splits)

lemma request_status_error: "err \<noteq> None \<Longrightarrow> request_status s err = request_status s' err"
  by (auto simp: request_status_def)

subsection \<open>Request variables\<close>

lemma vars_fold:
  "gomap_ok vars \<Longrightarrow>
   map_of (foldl (\<lambda>vs (name, tagKey). case map_of tags tagKey of None \<Rightarrow> vs | Some v \<Rightarrow> AList.update name (VString v) vs) vs vars) k =
   (case Option.bind (map_of vars k) (map_of tags) of Some v \<Rightarrow> Some (VString v) | None \<Rightarrow> map_of vs k)"
proof (induction vars arbitrary: vs)
  case (Cons e vars)
  obtain name tagKey where e: "e = (name, tagKey)" by fastforce
  from Cons.prems have "map_of vars name = None" by (simp add: e map_of_eq_None_iff)
  with Cons show ?case by (auto simp: e update_conv' split: option.split)
qed simp

lemma setRouteVars_lookup:
  "gomap_ok vars \<Longrightarrow> map_of (rq_vars (setRouteVars r route vars)) k =
   (case Option.bind (map_of vars k) (map_of (ch_TagValues route)) of
      Some v \<Rightarrow> Some (VString v)
    | None \<Rightarrow> if k = ServiceVarKey then Some (VString (ch_ServiceName route)) else map_of (rq_vars r) k)"
  by (simp add: setRouteVars_def vars_fold update_conv' split: option.split)

subsection \<open>The counter\<close>

definition route_counts :: "metrics \<Rightarrow> string list \<Rightarrow> int" where
  "route_counts m values =
     (case Option.bind m mc_routeRequests of None \<Rightarrow> 0 | Some rr \<Rightarrow> get_or 0 (rr_counts rr) values)"

definition serves_counter :: "metrics \<Rightarrow> string list \<Rightarrow> bool" where
  "serves_counter m labels \<longleftrightarrow> map_option rr_labels (Option.bind m mc_routeRequests) = Some labels"

lemma count_request_counts:
  assumes "serves_counter m labels"
  shows "route_counts (count_request labels values m) vs = route_counts m vs + (if vs = values then 1 else 0)"
    and "serves_counter (count_request labels values m) labels"
proof -
  from assms obtain mc rr where "m = Some mc" "mc_routeRequests mc = Some rr" "rr_labels rr = labels"
    by (auto simp: serves_counter_def split: bind_splits)
  then show "route_counts (count_request labels values m) vs = route_counts m vs + (if vs = values then 1 else 0)"
    "serves_counter (count_request labels values m) labels"
    by (auto simp: count_request_def IncRouteRequests_def route_counts_def serves_counter_def get_or_def update_conv')
qed

lemma RouteRequestsCounter_serves:
  "RouteRequestsCounter reg m names = (Inr counter, m') \<Longrightarrow> m \<noteq> None \<Longrightarrow>
   counter = Some (route_labels names) \<and> serves_counter m' (route_labels names)"
  by (auto simp: RouteRequestsCounter_def serves_counter_def Let_def split: option.splits if_splits)

subsection \<open>A concrete handler\<close>

definition sample_info :: ConsulRouteInfoHandler where
  "sample_info = zero_info\<lparr>ri_Vars := [(''tenant'', ''X-Tenant'')], ri_Metrics := True, ri_MetricLabels := [(''tenant'', ''X-Tenant'')],
     ri_HostLabel := ''host''\<rparr>"

definition sample_app :: "string + caddy_app" where
  "sample_app = Inr (ConsulApp ((new_router zero_config)\<lparr>cr_routeTable := Some NewRouteTable, cr_metrics := Some newMetricsCollector\<rparr>))"

definition sample_provisioned :: "ConsulRouteInfoHandler \<times> metrics" where
  "sample_provisioned = projr (Info_Provision (\<lambda>_. None) sample_app sample_info)"

definition tagged_route :: CompiledHTTPRoute where
  "tagged_route = stripping_route\<lparr>ch_TagValues := [(''X-Tenant'', ''acme'')]\<rparr>"

lemma sample_info_facts:
  "Info_Provision (\<lambda>_. None) sample_app sample_info = Inr (fst sample_provisioned, snd sample_provisioned)"
  "ri_counter sample_info = None" "ri_counter (fst sample_provisioned) = Some [''service'', ''host'', ''tenant'', ''class'', ''error'']"
  "gomap_ok (ri_MetricLabels sample_info)" "serves_counter (snd sample_provisioned) [''service'', ''host'', ''tenant'', ''class'', ''error'']"
  by code_simp+

subsection \<open>Properties\<close>



text \<open>The layout of the labels succeeds iff every configured label has a tag key, the host label is not one of them, and
  every name is a legal one that the counter does not use itself. The names are then sorted, whatever the order of the maps, each with its
  tag key (the host label with the empty one).\<close>

theorem metricLabelLayout_correct:
  assumes "gomap_ok (ri_MetricLabels h)"
  shows "metricLabelLayout h = Inr (names, tagKeys) \<longleftrightarrow>
    [] \<notin> snd ` set (ri_MetricLabels h) \<and> (ri_HostLabel h \<noteq> [] \<longrightarrow> ri_HostLabel h \<notin> keys (ri_MetricLabels h)) \<and>
    (\<forall>n \<in> keys (all_labels h). label_name_ok n) \<and>
    names = sorted_list_of_set (keys (all_labels h)) \<and> tagKeys = map (get_or [] (all_labels h)) names"
  by (rule metricLabelLayout_result [OF assms])

theorem metricLabelLayout_correct_witness:
  "metricLabelLayout sample_info = Inr ([''host'', ''tenant''], [[], ''X-Tenant'']) \<and> label_name_ok ''tenant''"
proof -
  have "metricLabelLayout sample_info = Inr ([''host'', ''tenant''], [[], ''X-Tenant''])" by code_simp
  with metricLabelLayout_correct [OF sample_info_facts(4)] show ?thesis by (auto simp: all_labels_def sample_info_def)
qed

text \<open>C40: A provisioned handler with a counter always has as many label values as the counter has label names, which are
  distinct, so that \<open>WithLabelValues\<close> cannot panic; and the collector serves this counter.\<close>

theorem Info_Provision_counter:
  assumes "Info_Provision reg app h = Inr (h', m)" "ri_counter h = None" "ri_counter h' = Some labels" "gomap_ok (ri_MetricLabels h)"
  shows "length (labelValues h' route status err) = length labels \<and> distinct labels \<and> serves_counter m labels"
proof -
  from assms(1-3) obtain mc names tagKeys where l: "metricLabelLayout h = Inr (names, tagKeys)"
    and c: "RouteRequestsCounter reg (Some mc) names = (Inr (ri_counter h'), m)" and k: "ri_labelTagKeys h' = tagKeys"
    by (auto simp: Info_Provision_def split: sum.splits if_splits prod.splits)
  from RouteRequestsCounter_serves [OF c] assms(3) have "labels = route_labels names" "serves_counter m labels" by auto
  with layout_facts [OF l assms(4)] k show ?thesis by (simp add: labelValues_def route_labels_def)
qed

theorem Info_Provision_counter_witness:
  "length (labelValues (fst sample_provisioned) tagged_route 0 None) = 5 \<and>
   serves_counter (snd sample_provisioned) [''service'', ''host'', ''tenant'', ''class'', ''error'']"
  using Info_Provision_counter [OF sample_info_facts(1-4)] by simp

text \<open>The handler gives the request exactly the configured variables whose tag the route has and the name of the service, and
  leaves every other one alone. In particular it never makes a peer trusted: what \<open>consul_proxy\<close> does with forwarded headers
  is still up to the server.\<close>

theorem setRouteVars_correct:
  assumes "gomap_ok vars"
  shows "map_of (rq_vars (setRouteVars r route vars)) k =
     (case Option.bind (map_of vars k) (map_of (ch_TagValues route)) of
        Some v \<Rightarrow> Some (VString v)
      | None \<Rightarrow> if k = ServiceVarKey then Some (VString (ch_ServiceName route)) else map_of (rq_vars r) k) \<and>
    (trusted_peer (setRouteVars r route vars) \<longrightarrow> trusted_peer r)"
  using setRouteVars_lookup [OF assms]
  by (auto simp: trusted_peer_def ServiceVarKey_def split: option.splits)

theorem setRouteVars_correct_witness:
  "map_of (rq_vars (setRouteVars sample_request tagged_route [(''tenant'', ''X-Tenant'')])) ''tenant'' = Some (VString ''acme'') \<and>
   map_of (rq_vars (setRouteVars sample_request tagged_route [(''tenant'', ''X-Tenant'')])) ''consul.service'' = Some (VString ''web'')"
  using setRouteVars_correct [of "[(''tenant'', ''X-Tenant'')]" sample_request tagged_route]
  by (simp add: tagged_route_def stripping_route_def ServiceVarKey_def)

end
