(* ===== verification/Endpoints.thy ===== *)
theory Endpoints
  imports Router Go_HTTP
begin

text \<open>
  \<open>admin.go\<close>, \<open>metrics_handler.go\<close> and \<open>http.go\<close>: what the program shows of itself. The admin endpoints print the tables that
  \<open>Provision\<close> stored in two global variables, the metrics endpoints the global collector; \<open>http.go\<close> turns a compiled route
  into a fragment of Caddy configuration. A JSON text is the value it denotes (an object is its members in the order of their
  names, as \<open>encoding/json\<close> writes a Go map); the exposition of a collector by Prometheus is the collector itself.
\<close>

subsection \<open>Admin endpoints\<close>

text \<open>The global variables; both point into the router that was provisioned last with discovery enabled.\<close>

record admin_globals =
  ag_routeTable :: "RouteTable option"
  ag_tcpTable :: "TCPTable option"

definition store_globals :: "ConsulRouter \<Rightarrow> admin_globals \<Rightarrow> admin_globals" where
  "store_globals cr g =
     (if serviceProxyEnabled cr \<or> connectProxyEnabled cr
      then \<lparr>ag_routeTable = cr_routeTable cr, ag_tcpTable = cr_tcpTable cr\<rparr> else g)"

datatype admin_error = MethodNotAllowed | MetricsNotEnabled

definition serveRoutes :: "admin_globals \<Rightarrow> string \<Rightarrow> admin_error + CompiledHTTPRoute list" where
  "serveRoutes g method =
     (if method \<noteq> ''GET'' then Inl MethodNotAllowed
      else Inr (case ag_routeTable g of None \<Rightarrow> [] | Some rt \<Rightarrow> Routes rt))"

definition serveTCP :: "admin_globals \<Rightarrow> string \<Rightarrow> admin_error + CompiledTCPRoute list" where
  "serveTCP g method =
     (if method \<noteq> ''GET'' then Inl MethodNotAllowed
      else Inr (case ag_tcpTable g of None \<Rightarrow> [] | Some tt \<Rightarrow> TCPTable_Snapshot tt))"

definition serveState :: "string \<Rightarrow> admin_error + (string \<times> string) list" where
  "serveState method = (if method \<noteq> ''GET'' then Inl MethodNotAllowed else Inr [(''status'', ''ok'')])"

definition serveMetrics :: "metrics \<Rightarrow> string \<Rightarrow> admin_error + MetricsCollector" where
  "serveMetrics globalMetrics method =
     (if method \<noteq> ''GET'' then Inl MethodNotAllowed
      else case globalMetrics of None \<Rightarrow> Inl MetricsNotEnabled | Some m \<Rightarrow> Inr m)"

text \<open>The routes of the admin module and what each handler sends: a collector as the families of a scrape, the tables as they are.\<close>

datatype admin_handler = MetricsHandler | StateHandler | RoutesHandler | TCPHandler

definition Admin_Routes :: "(string \<times> admin_handler) list" where
  "Admin_Routes =
     [(''/consul/metrics'', MetricsHandler), (''/consul/state'', StateHandler), (''/consul/routes'', RoutesHandler),
      (''/consul/tcp'', TCPHandler)]"

datatype admin_body =
    Families "family list"
  | StatusBody "(string \<times> string) list"
  | HTTPRoutesBody "CompiledHTTPRoute list"
  | TCPRoutesBody "CompiledTCPRoute list"

definition admin_serve :: "admin_globals \<Rightarrow> metrics \<Rightarrow> admin_handler \<Rightarrow> string \<Rightarrow> admin_error + admin_body" where
  "admin_serve g globalMetrics h method =
     (case h of
        MetricsHandler \<Rightarrow> map_sum id (Families \<circ> gatherer) (serveMetrics globalMetrics method)
      | StateHandler \<Rightarrow> map_sum id StatusBody (serveState method)
      | RoutesHandler \<Rightarrow> map_sum id HTTPRoutesBody (serveRoutes g method)
      | TCPHandler \<Rightarrow> map_sum id TCPRoutesBody (serveTCP g method))"

text \<open>No endpoint answers anything but \<open>GET\<close>, and the tables are shown whether metrics are on or not.\<close>

lemma admin_serve_get_only: "(\<exists>body. admin_serve g m h method = Inr body) \<longleftrightarrow> method = ''GET'' \<and> (h = MetricsHandler \<longrightarrow> m \<noteq> None)"
  by (cases h) (auto simp: admin_serve_def serveMetrics_def serveState_def serveRoutes_def serveTCP_def split: option.split)

text \<open>The \<open>consul_metrics\<close> handler: 405 is an error for Caddy, 404 a response.\<close>

datatype metrics_answer = HandlerFailed int | Answered int "MetricsCollector option"

definition Metrics_ServeHTTP :: "metrics \<Rightarrow> string \<Rightarrow> metrics_answer" where
  "Metrics_ServeHTTP globalMetrics method =
     (if method \<noteq> ''GET'' then HandlerFailed 405
      else case globalMetrics of None \<Rightarrow> Answered 404 None | Some m \<Rightarrow> Answered 200 (Some m))"

text \<open>The directive: the tokens after its name, and whether a block follows.\<close>

definition Metrics_UnmarshalCaddyfile :: "string list \<Rightarrow> bool \<Rightarrow> config_error option" where
  "Metrics_UnmarshalCaddyfile args block =
     (if args \<noteq> [] then Some (ArgErr ''consul_metrics'') else if block then Some (Unrecognized ''consul_metrics'') else None)"

definition parseConsulMetricsDirective :: "string list \<Rightarrow> bool \<Rightarrow> config_error + unit" where
  "parseConsulMetricsDirective args block = (case Metrics_UnmarshalCaddyfile args block of None \<Rightarrow> Inr () | Some err \<Rightarrow> Inl err)"

subsection \<open>Configuration fragments\<close>

datatype json = JString string | JArray "json list" | JObject "(string \<times> json) list"

definition strings :: "string list \<Rightarrow> json" where
  "strings ss = JArray (map JString ss)"

definition route_match :: "CompiledHTTPRoute \<Rightarrow> (string \<times> json) list" where
  "route_match route =
     (if ch_Host route \<noteq> [] then [(''host'', strings [ch_Host route])] else []) @
     (if ch_Path route \<noteq> [] \<and> ch_Path route \<noteq> ''/'' then [(''path'', strings [ch_Path route @ ''*''])] else [])"

definition redirect_handler :: "CompiledHTTPRoute \<Rightarrow> json" where
  "redirect_handler route =
     JObject
       [(''handler'', JString ''static_response''),
        (''headers'', JObject
          ((if ch_RedirectNoCache route
            then [(''Cache-Control'', strings [''no-cache, no-store, must-revalidate'']), (''Expires'', strings [''0''])] else []) @
           [(''Location'', strings [ch_RedirectURL route])] @
           (if ch_RedirectNoCache route then [(''Pragma'', strings [''no-cache''])] else []))),
        (''status_code'', JString (Itoa (ch_RedirectCode route)))]"

definition proxy_handlers :: "CompiledHTTPRoute \<Rightarrow> json list" where
  "proxy_handlers route =
     (if ch_StripPrefix route \<and> ch_Path route \<noteq> [] \<and> ch_Path route \<noteq> ''/''
      then [JObject [(''handler'', JString ''rewrite''), (''strip_path_prefix'', JString (ch_Path route))]] else []) @
     [JObject
       [(''handler'', JString ''reverse_proxy''),
        (''health_checks'', JObject [(''passive'', JObject [(''fail_duration'', JString ''30s'')])]),
        (''upstreams'', JArray (map (\<lambda>u. JObject [(''dial'', JString (up_Address u))]) (ch_Upstreams route)))]]"

definition BuildHTTPRouteJSON :: "CompiledHTTPRoute \<Rightarrow> json" where
  "BuildHTTPRouteJSON route =
     JObject
       ((''handle'', JArray (if ch_RedirectCode route > 0 \<and> ch_RedirectURL route \<noteq> [] then [redirect_handler route] else proxy_handlers route)) #
        (if route_match route \<noteq> [] then [(''match'', JArray [JObject (route_match route)])] else []))"

definition BuildHTTPRoutesJSON :: "CompiledHTTPRoute list \<Rightarrow> json list" where
  "BuildHTTPRoutesJSON routes = map BuildHTTPRouteJSON routes"

lemmas [go_eval] = store_globals_def serveRoutes_def serveTCP_def serveState_def serveMetrics_def Metrics_ServeHTTP_def
  Metrics_UnmarshalCaddyfile_def strings_def route_match_def redirect_handler_def proxy_handlers_def BuildHTTPRouteJSON_def
  BuildHTTPRoutesJSON_def

subsection \<open>Facts on fragments\<close>

definition shown_path :: "CompiledHTTPRoute \<Rightarrow> string" where
  "shown_path route = (if ch_Path route = ''/'' then [] else ch_Path route)"

lemma strings_inj [simp]: "strings a = strings b \<longleftrightarrow> a = b"
  using inj_map_eq_map [of JString a b] by (simp add: strings_def inj_def)

lemma route_match_eq: "route_match a = route_match b \<longleftrightarrow> ch_Host a = ch_Host b \<and> shown_path a = shown_path b"
  by (auto simp: route_match_def shown_path_def split: if_splits)

lemma dial_inj: "map (\<lambda>u. JObject [(''dial'', JString (up_Address u))]) us = map (\<lambda>u. JObject [(''dial'', JString (up_Address u))]) vs \<longleftrightarrow>
   map up_Address us = map up_Address vs"
  by (induction us arbitrary: vs) (auto simp: Cons_eq_map_conv)

subsection \<open>Properties\<close>

text \<open>A fragment says everything that decides how a request is served: two routes have the same fragment iff they match the same hosts
  and paths and either are the same redirect, or proxy to the same addresses in the same order, with the same prefix stripped.\<close>

theorem BuildHTTPRouteJSON_injective:
  fixes a b :: CompiledHTTPRoute
  defines "redirect \<equiv> \<lambda>r. ch_RedirectCode r > 0 \<and> ch_RedirectURL r \<noteq> []"
  shows "BuildHTTPRouteJSON a = BuildHTTPRouteJSON b \<longleftrightarrow>
    ch_Host a = ch_Host b \<and> shown_path a = shown_path b \<and> redirect a = redirect b \<and>
    (if redirect a
     then ch_RedirectCode a = ch_RedirectCode b \<and> ch_RedirectURL a = ch_RedirectURL b \<and> ch_RedirectNoCache a = ch_RedirectNoCache b
     else map up_Address (ch_Upstreams a) = map up_Address (ch_Upstreams b) \<and>
          (ch_StripPrefix a \<and> shown_path a \<noteq> [] \<longleftrightarrow> ch_StripPrefix b \<and> shown_path b \<noteq> []))"
proof -
  have m: "(if route_match a \<noteq> [] then [(''match'', JArray [JObject (route_match a)])] else []) =
      (if route_match b \<noteq> [] then [(''match'', JArray [JObject (route_match b)])] else []) \<longleftrightarrow>
      ch_Host a = ch_Host b \<and> shown_path a = shown_path b" using route_match_eq [of a b] by auto
  have r: "redirect_handler a = redirect_handler b \<longleftrightarrow>
      ch_RedirectCode a = ch_RedirectCode b \<and> ch_RedirectURL a = ch_RedirectURL b \<and> ch_RedirectNoCache a = ch_RedirectNoCache b"
    by (auto simp: redirect_handler_def split: if_splits)
  have p: "proxy_handlers a = proxy_handlers b \<longleftrightarrow> map up_Address (ch_Upstreams a) = map up_Address (ch_Upstreams b) \<and>
      (ch_StripPrefix a \<and> shown_path a \<noteq> [] \<longleftrightarrow> ch_StripPrefix b \<and> shown_path b \<noteq> [])" if "shown_path a = shown_path b"
    using that by (auto simp: proxy_handlers_def dial_inj shown_path_def split: if_splits)
  have d: "[redirect_handler x] \<noteq> proxy_handlers y" "proxy_handlers y \<noteq> [redirect_handler x]" for x y
    by (auto simp: redirect_handler_def proxy_handlers_def)
  have "BuildHTTPRouteJSON a = BuildHTTPRouteJSON b \<longleftrightarrow>
      (if redirect a then [redirect_handler a] else proxy_handlers a) = (if redirect b then [redirect_handler b] else proxy_handlers b) \<and>
      ch_Host a = ch_Host b \<and> shown_path a = shown_path b"
    unfolding BuildHTTPRouteJSON_def redirect_def m [symmetric] by (simp only: json.inject list.inject prod.inject simp_thms)
  with r p d show ?thesis by (cases "redirect a"; cases "redirect b") auto
qed

end
