(* ===== verification/Spec2Isabelle.thy ===== *)
theory Spec2Isabelle
  imports System Service_Store Handler Route_Info Endpoints
begin

text \<open>
  \<^bold>\<open>Verification of caddy-consul\<close>

  caddy-consul is a plugin of the Caddy web server that routes HTTP and TCP traffic to the services registered in Consul. A
  \<^emph>\<open>watcher\<close> follows the Consul catalog and health checks and calls back when services change. The \<^emph>\<open>router app\<close> parses the
  metadata and tags of the services into route definitions, points them at the instances or at the local Connect sidecar, compiles them into
  conflict-free HTTP and TCP routes, publishes these in two in-memory tables, opens and closes TCP listeners and saves everything for
  the next instance of the app. The \<^emph>\<open>HTTP handlers\<close> and the \<^emph>\<open>TCP proxy\<close> read the tables for every request and connection. A
  \<^emph>\<open>registrar\<close> keeps the program itself registered in Consul.

  \<^bold>\<open>Theories and sources\<close>

  \<^item> \<open>Go_Prelude\<close>, \<open>Go_HTTP\<close>: what the program uses of Go's standard library: strings, numbers, maps as association lists, panics as
    the left of a sum; header maps, escaped URL paths, response writers and the reverse proxy.
  \<^item> \<open>Status_Match\<close> (\<open>status_match.go\<close>), \<open>Route_Types\<close> (\<open>types.go\<close>): status lists, the records the components exchange.
  \<^item> \<open>Metadata\<close> (\<open>metadata.go\<close>): service metadata and urlprefix tags to route definitions, one function per Go function.
  \<^item> \<open>Compiler\<close> (\<open>compiler.go\<close>): priority sort, conflict resolution, compilation, the filter by node.
  \<^item> \<open>Route_Table\<close> (\<open>route_table.go\<close>), \<open>TCP_Table\<close> (\<open>tcp_table.go\<close>): the published tables and their matching.
  \<^item> \<open>Connect\<close> (\<open>connect.go\<close>), \<open>Upstream_Manager\<close> (\<open>upstream_manager.go\<close>): upstreams through the sidecar, their ports and their
    registration with the agent.
  \<^item> \<open>TCP_SNI\<close> (\<open>tcp_sni.go\<close>), \<open>TCP_Proxy\<close> (\<open>tcp_proxy.go\<close>), \<open>TCP_Listener\<close> (\<open>tcp_listener.go\<close>): the TCP data plane: server name of a
    ClientHello, choice of upstream, copying in both directions, listeners and their draining.
  \<^item> \<open>Watcher\<close> (\<open>watcher.go\<close>): service cache, catalog and health rounds, debounced callback. \<open>Service_Store\<close>: \<open>clone\<close> of \<open>types.go\<close> and the
    in-place writes of the health watcher, on a store with addresses.
  \<^item> \<open>State_Manager\<close> (\<open>state.go\<close>), \<open>Metrics\<close> (\<open>metrics.go\<close>), \<open>Config\<close> (\<open>config.go\<close>), \<open>Registrar\<close> (\<open>register.go\<close>).
  \<^item> \<open>Router\<close> and \<open>Router_Proofs\<close> (\<open>consul.go\<close>): the app that owns all of these: \<open>Provision\<close>, \<open>Start\<close>, \<open>Stop\<close> and the callback
    \<open>onServicesChanged\<close>, and its correctness. \<open>System\<close>: the watcher's goroutines and the app's callbacks together, as one step relation
    at the grain of the locks.
  \<^item> \<open>Handler\<close> (\<open>handler.go\<close>), \<open>Route_Info\<close> (\<open>route_info.go\<close>), \<open>Endpoints\<close> (\<open>admin.go\<close>, \<open>metrics_handler.go\<close>, \<open>http.go\<close>): what requests see.

  Definitions keep the Go names where HOL allows it. A struct is a record whose fields have the Go names behind a prefix; a nil pointer
  is None; a method takes and returns the record it changes; a lock is the atomicity of a step. Fallible code returns a sum with the
  error on the left, code that can panic the type \<open>go\<close>.

  \<^bold>\<open>What is shown\<close>

  \<^item> Parsing and compiling: the routes of a service are exactly those of its eligible instances (\<open>ParseServiceRoutes_correct\<close>); the
    compiled routes are the winners of every claim, for any sort allowed by \<open>sort.Slice\<close> (\<open>Compile_correct\<close>), with distinct keys and
    usable upstreams (\<open>Compile_routes_usable\<close>), and without ties they do not depend on map orders (\<open>Compile_deterministic\<close>).
  \<^item> Matching: \<open>Match_correct\<close> and \<open>tcp_route_correct\<close> characterise the route a request or connection gets.
  \<^item> The watcher: no queued change is lost or delivered twice in any interleaving with timers, flushes and \<open>Stop\<close>
    (\<open>watcher_no_change_lost\<close>), and the cache agrees with what Consul answered. A snapshot made of clones is not touched by later writes
    (\<open>clone_isolated\<close>), which justifies treating service states as values.
  \<^item> Watcher and app together: in every interleaving in which flushes do not overlap, an instance at rest has published the tables
    of its current cache (\<open>system_converges\<close>), and it does come to rest under every schedule (\<open>system_settles\<close>). The code does not keep
    flushes apart: \<open>overlapping_flushes_publish_stale\<close> is a run that ends with the routes of removed services.
  \<^item> The app: every callback publishes what it compiled, though an unchanged hash skips the update (\<open>callback_publishes\<close>), returns
    (\<open>callback_returns\<close>), survives a reload through the state file (\<open>reload_restores_tables\<close>) that leaves no port unattended (\<open>reload_keeps_listening\<close>), and with the service proxy off leaves only mesh
    upstreams (\<open>mesh_only\<close>). These are invariants of the states reachable by provisioning, reloads with two live instances, starts,
    stops and callbacks (\<open>reachable\<close>).
  \<^item> Serving: every branch of the HTTP handler (\<open>ServeHTTP_correct\<close>), the headers and the path an upstream gets, which a client that is not
    a trusted proxy cannot forge (\<open>forwarding_headers_unforgeable\<close>), the panics (\<open>ServeHTTP_panics_iff\<close>), the request counter.
  \<^item> The TCP plane: server name extraction is total and inverts encoding, the peeked bytes are replayed, an upstream is
    drawn in proportion to its weight, both directions are copied to the end, a reconcile opens exactly the wanted ports, counters and
    gauges agree with the connections in every interleaving.
  \<^item> Connect: ports are allocated without clashes and the search ends (\<open>allocatePort_correct\<close>), the registration sent names exactly
    the wanted services, and what is registered is what is then resolved.
  \<^item> This theory joins them: after a callback a request or connection reaches only eligible instances of the services Consul reported, or
    their sidecar listener (\<open>request_follows_services\<close>, \<open>connection_follows_services\<close>), at rest those of the current cache
    (\<open>traffic_follows_cache\<close>), and the admin endpoints show these routes.

  The contracts between components are locales, interpreted where the provider is modelled: the comparison sort that the compiler
  uses (\<open>slice_sort\<close>), the lookup in a published table that the handlers use (\<open>route_lookup\<close>), the byte reader of \<open>cryptobyte\<close>
  (\<open>cryptobyte_reader\<close>), the connections that peeking and copying read from (\<open>byte_source\<close>), and step relations that come to rest
  (\<open>settling\<close>: the copy loop of a connection and the goroutines of an instance).

  \<^bold>\<open>Parameters, bounds and fuel\<close>

  Code outside the repository is an argument with its documented contract: the Consul agent, \<open>sort.Slice\<close>, \<open>rand.Intn\<close> (\<open>intn\<close>), SHA-256
  (\<open>route_hash\<close>: no collision among the lists that occur, derived for the code's hash in \<open>hashRoutes_route_hash\<close>), the Caddy listener pool, map iteration orders, \<open>time.ParseDuration\<close>,
  \<open>cryptobyte\<close>, dialling and the HTTP transport. No function runs on fuel. The search for a free port, the one loop that may not end, is a
  \<open>partial_function\<close> whose None is divergence, and it is shown to return for a non-empty range; everything else is total.
  Numbers keep their width where it matters: Consul indices and the FNV hash are words, Go's \<open>int\<close> wraps at 64 bits in
  weight sums. Strings are byte strings: case folding and white space are those of ASCII.

  \<^bold>\<open>Not modelled\<close>

  Logging; module registration with Caddy; goroutine scheduling other than the interleavings of the watcher, of the watcher with
  whole callbacks, and of a listener; wall-clock time (timers fire at any moment, deadlines are left out); TLS files of the Consul client; the text of JSON
  and of the Prometheus exposition; query strings, trailers and request bodies in the reverse proxy. They are input and output of
  libraries whose code is not in the repository, or have no effect on the state of the program.
\<close>

section \<open>From Consul to the request\<close>

subsection \<open>Tables with the same JSON text match alike\<close>

definition same_route :: "CompiledHTTPRoute \<Rightarrow> CompiledHTTPRoute \<Rightarrow> bool" where
  "same_route r s \<longleftrightarrow> ch_Host r = ch_Host s \<and> ch_Path r = ch_Path s \<and> ch_Upstreams r = ch_Upstreams s \<and>
     ch_StripPrefix r = ch_StripPrefix s \<and> ch_ServiceName r = ch_ServiceName s \<and> ch_Via r = ch_Via s \<and>
     ch_RedirectCode r = ch_RedirectCode s \<and> ch_RedirectURL r = ch_RedirectURL s"

lemma same_json_routes: "same_json a b \<Longrightarrow> list_all2 same_route a b"
proof -
  have "same_route r s" if "(json_route r)\<lparr>ch_TagValues := []\<rparr> = (json_route s)\<lparr>ch_TagValues := []\<rparr>" for r s :: CompiledHTTPRoute
    using that by (cases r; cases s) (simp add: same_route_def json_route_def)
  then show "same_json a b \<Longrightarrow> list_all2 same_route a b" unfolding same_json_def by (elim list_all2_mono) blast
qed

lemma same_route_matching: "same_route r s \<Longrightarrow> request_matches host path r = request_matches host path s \<and> route_rank r = route_rank s"
  by (simp add: same_route_def request_matches_def route_rank_def path_matches_def path_weight_def)

lemma keep_best_same:
  "list_all2 same_route a b \<Longrightarrow> rel_option same_route x y \<Longrightarrow>
   rel_option same_route (foldl (keep_best (request_matches host path) route_rank) x a)
     (foldl (keep_best (request_matches host path) route_rank) y b)"
proof (induction arbitrary: x y rule: list_all2_induct)
  case (Cons r a s b)
  have "rel_option same_route (keep_best (request_matches host path) route_rank x r) (keep_best (request_matches host path) route_rank y s)"
    using Cons.hyps(1) Cons.prems same_route_matching [OF Cons.hyps(1)]
    by (cases x; cases y) (auto simp: keep_best_def dest: same_route_matching)
  then show ?case by (simp add: Cons.IH)
qed simp

lemma Match_same: "list_all2 same_route (rt_routes a) (rt_routes b) \<Longrightarrow> rel_option same_route (Match a host path) (Match b host path)"
  unfolding Match_foldl by (rule keep_best_same) simp_all

lemma tcp_match_loop_in_set: "tcp_match_loop sni w d rs = Some t \<Longrightarrow> t \<in> set rs \<or> w = Some t \<or> d = Some t"
  by (induction sni w d rs rule: tcp_match_loop.induct) (auto split: if_splits)

lemma tcp_match_in_set: "tcp_match pr sni = Some t \<Longrightarrow> t \<in> set (pr_routes pr)"
  by (auto simp: tcp_match_def split: if_splits list.splits dest: tcp_match_loop_in_set)

subsection \<open>Where a compiled route sends its traffic\<close>

text \<open>The upstream is an eligible instance of a service of that name in Consul.\<close>

definition instance_of :: "ConsulRouter \<Rightarrow> (string, ServiceState) gomap \<Rightarrow> string \<Rightarrow> Upstream \<Rightarrow> bool" where
  "instance_of cr svcs name u \<longleftrightarrow>
     (\<exists>n s inst. (n, s) \<in> set svcs \<and> ss_Name s = name \<and> inst \<in> set (ss_Instances s) \<and>
        instance_eligible (co_ServiceTag (cr_config cr)) (co_ConnectTag (cr_config cr)) inst \<and> u = instance_upstream inst)"

lemma parsed_upstreams:
  assumes "parse_services cr svcs = Inr parsed" "r \<in> set (concat parsed)" "u \<in> set (rd_Upstreams r)"
  shows "instance_of cr svcs (rd_ServiceName r) u"
proof -
  let ?p = "\<lambda>s. ParseServiceRoutes (Some s) (co_ServiceTag (cr_config cr)) (co_ConnectTag (cr_config cr))"
  from assms(2) obtain rs where "rs \<in> set parsed" "r \<in> set rs" by auto
  then obtain i where i: "i < length parsed" "r \<in> set (parsed ! i)" by (metis in_set_conv_nth)
  have l: "list_all2 (\<lambda>(_, s) rs. ?p s = Inr rs) svcs parsed"
    using assms(1) unfolding parse_services_def go_mapM_Inr by (simp add: case_prod_unfold)
  obtain n s where ns: "svcs ! i = (n, s)" by fastforce
  from list_all2_nthD2 [OF l i(1)] ns list_all2_lengthD [OF l] i(1) have s: "(n, s) \<in> set svcs" "?p s = Inr (parsed ! i)"
    by (auto simp: in_set_conv_nth)
  note aux = ParseServiceRoutes_correct_aux [OF s(2)]
  from aux(3) [OF i(2)] assms(3) obtain inst where j: "inst \<in> set (ss_Instances s)" "u = instance_upstream inst"
    "contributes (ss_Name s) (co_ServiceTag (cr_config cr)) (co_ConnectTag (cr_config cr)) inst r" by blast
  have "instance_eligible (co_ServiceTag (cr_config cr)) (co_ConnectTag (cr_config cr)) inst"
    using j(3) unfolding contributes_def by (elim exE conjE) (drule (1) instance_routes_entries, simp)
  with s(1) j(1,2) aux(2) [OF i(2)] show ?thesis by (auto simp: instance_of_def)
qed

lemma compiled_definitions:
  assumes "compiled_for wd cr svcs = Some c" "slice_sort (wd_sort wd)"
  obtains parsed m where "parse_services cr svcs = Inr parsed"
    "\<And>h. h \<in> set (cc_HTTPRoutes c) \<Longrightarrow> \<exists>i r. r \<in> set (concat parsed) \<and> compile_http_route (assign_route (wd_resolve wd i) cr m r) = Some h"
    "\<And>t. t \<in> set (cc_TCPRoutes c) \<Longrightarrow> \<exists>i r. r \<in> set (concat parsed) \<and> compile_tcp_route (assign_route (wd_resolve wd i) cr m r) = Some t"
proof -
  from assms(1) obtain parsed where p: "parse_services cr svcs = Inr parsed"
    and c: "c = Compile (wd_sort wd) (converge_routes wd cr svcs parsed)" by (auto simp: compiled_for_def split: sum.splits)
  let ?rs = "converge_routes wd cr svcs parsed" and ?m = "local_connect_services cr parsed (connect_services cr svcs parsed)"
  have "\<exists>i r. r \<in> set (concat parsed) \<and> x = assign_route (wd_resolve wd i) cr ?m r" if "x \<in> set ?rs" for x
  proof -
    from that have "x \<in> set (assign_routes wd cr ?m (concat parsed))"
      by (auto simp: converge_routes_def local_routes_def FilterTCPRoutesByNode_def split: if_splits)
    then obtain i r where "x = assign_route (wd_resolve wd i) cr ?m r" "(i, r) \<in> set (List.enumerate 0 (concat parsed))"
      by (auto simp: assign_routes_def simp del: set_concat)
    then show ?thesis using in_set_enumerate_eq [of "(i, r)" 0 "concat parsed"] nth_mem by (metis add.right_neutral diff_zero snd_conv fst_conv)
  qed
  moreover have "set (winners key {} (filter P (wd_sort wd ?rs))) \<subseteq> set ?rs" for key P
    using winners_subset [of key "{}" "filter P (wd_sort wd ?rs)"] slice_sort.sort_set [OF assms(2), of ?rs] by auto
  ultimately show thesis using p that [of parsed ?m] unfolding c Compile_simps set_map_filter by fastforce
qed

lemma assigned_upstreams:
  assumes "parse_services cr svcs = Inr parsed" "r \<in> set (concat parsed)" "u \<in> set (rd_Upstreams (assign_route agent cr m r))"
  shows "instance_of cr svcs (rd_ServiceName r) u \<and> (IsRedirect r \<or> serviceProxyEnabled cr) \<or>
    through_sidecar agent cr (rd_ServiceName r) (rd_Upstreams (assign_route agent cr m r))"
proof (cases "IsRedirect r")
  case True
  then have "assign_route agent cr m r = r" by (simp add: assign_route_def)
  with True parsed_upstreams [OF assms(1,2)] assms(3) show ?thesis by simp
next
  case False
  with assign_route_cases(4) [where agent = agent and cr = cr and m = m and r = r] parsed_upstreams [OF assms(1,2)] assms(3)
  show ?thesis by auto
qed

lemma compiled_http_upstreams:
  assumes "compiled_for wd cr svcs = Some c" "slice_sort (wd_sort wd)" "h \<in> set (cc_HTTPRoutes c)" "u \<in> set (ch_Upstreams h)"
  shows "serviceProxyEnabled cr \<and> instance_of cr svcs (ch_ServiceName h) u \<or>
    (\<exists>i. through_sidecar (wd_resolve wd i) cr (ch_ServiceName h) [u])"
proof -
  from compiled_definitions [OF assms(1,2)] assms(3) obtain parsed m i r where p: "parse_services cr svcs = Inr parsed"
    "r \<in> set (concat parsed)" and c: "compile_http_route (assign_route (wd_resolve wd i) cr m r) = Some h" by metis
  let ?r = "assign_route (wd_resolve wd i) cr m r"
  note f = compile_http_route_fields [OF c] and a = assign_route_cases(1,2) [where agent = "wd_resolve wd i" and cr = cr and m = m and r = r]
  from f(4) assms(4) have u: "u \<in> set (rd_Upstreams ?r)" "\<not> IsRedirect r" using a(2) by auto
  have "rd_Upstreams ?r = [u]" if "through_sidecar (wd_resolve wd i) cr (rd_ServiceName r) (rd_Upstreams ?r)"
    using that u(1) by (auto simp: through_sidecar_def)
  with assigned_upstreams [OF p u(1)] u(2) f(3) a(1) show ?thesis by metis
qed

lemma compiled_tcp_upstreams:
  assumes "compiled_for wd cr svcs = Some c" "slice_sort (wd_sort wd)" "t \<in> set (cc_TCPRoutes c)" "u \<in> set (ct_Upstreams t)"
  shows "instance_of cr svcs (ct_ServiceName t) u \<or> (\<exists>i. through_sidecar (wd_resolve wd i) cr (ct_ServiceName t) [u])"
proof -
  from compiled_definitions [OF assms(1,2)] assms(3) obtain parsed m i r where p: "parse_services cr svcs = Inr parsed"
    "r \<in> set (concat parsed)" and c: "compile_tcp_route (assign_route (wd_resolve wd i) cr m r) = Some t" by metis
  let ?r = "assign_route (wd_resolve wd i) cr m r"
  note f = compile_tcp_route_fields [OF c] and a = assign_route_cases(1) [where agent = "wd_resolve wd i" and cr = cr and m = m and r = r]
  from f(4) assms(4) have u: "u \<in> set (rd_Upstreams ?r)" by auto
  have "rd_Upstreams ?r = [u]" if "through_sidecar (wd_resolve wd i) cr (rd_ServiceName r) (rd_Upstreams ?r)"
    using that u by (auto simp: through_sidecar_def)
  with assigned_upstreams [OF p u] f(3) a show ?thesis by metis
qed

text \<open>A table with the JSON text of compiled routes matches as they do, and sends traffic where they do.\<close>

lemma published_request:
  assumes "compiled_for wd cr svcs = Some c" "slice_sort (wd_sort wd)" "same_json (rt_routes rt) (cc_HTTPRoutes c)"
  shows "case Match rt host path of
      None \<Rightarrow> \<forall>r \<in> set (cc_HTTPRoutes c). \<not> request_matches host path r
    | Some route \<Rightarrow>
        (\<exists>r. first_best (request_matches host path) route_rank (cc_HTTPRoutes c) (Some r) \<and> same_route route r) \<and>
        (\<forall>u \<in> set (ch_Upstreams route).
           serviceProxyEnabled cr \<and> instance_of cr svcs (ch_ServiceName route) u \<or>
           (\<exists>i. through_sidecar (wd_resolve wd i) cr (ch_ServiceName route) [u]))"
proof -
  let ?C = "\<lparr>rt_routes = cc_HTTPRoutes c\<rparr>"
  have "list_all2 same_route (rt_routes rt) (rt_routes ?C)" using same_json_routes [OF assms(3)] by simp
  from Match_same [OF this, of host path] have m: "rel_option same_route (Match rt host path) (Match ?C host path)" .
  have b: "first_best (request_matches host path) route_rank (cc_HTTPRoutes c) (Match ?C host path)"
    using Match_first_best [of host path ?C] by simp
  show ?thesis
  proof (cases "Match rt host path")
    case None
    with m b show ?thesis by (auto simp: first_best_def)
  next
    case (Some route)
    with m obtain r where r: "Match ?C host path = Some r" "same_route route r" by (cases "Match ?C host path") auto
    with b first_best_in_set have "r \<in> set (cc_HTTPRoutes c)" by fastforce
    from compiled_http_upstreams [OF assms(1,2) this] b r Some show ?thesis by (auto simp: same_route_def)
  qed
qed

subsection \<open>A callback of the sample instance\<close>

lemma sample_callback:
  obtains oc rt tt where "onServicesChanged sample_world (sample_services ''4xx'') (sample_router NoFile, NoFile) = Some (Inr oc)"
    "app_RouteTable (oc_router oc) = Some rt" "cr_tcpTable (oc_router oc) = Some tt" "serviceProxyEnabled (oc_router oc)"
proof -
  obtain oc where oc: "onServicesChanged sample_world (sample_services ''4xx'') (sample_router NoFile, NoFile) = Some (Inr oc)"
    using sample_runs by blast
  from onServicesChanged_Inr [OF sample_router_facts(1) sample_iter oc] obtain c um reg m where
    p: "publish sample_world c (sample_services ''4xx'') reg ((sample_router NoFile)\<lparr>cr_upstreamMgr := um, cr_metrics := m\<rparr>, NoFile) = Inr oc" by blast
  have "wired ((sample_router NoFile)\<lparr>cr_upstreamMgr := um, cr_metrics := m\<rparr>)" using sample_router_facts(1) by simp
  from publish_wired [OF this sample_iter, of c "sample_services ''4xx''" reg NoFile] p have
    w: "wired (oc_router oc)" "cr_config (oc_router oc) = cr_config (sample_router NoFile)" by auto
  have "serviceProxyEnabled (sample_router NoFile)" by code_simp
  with w(2) have "serviceProxyEnabled (oc_router oc)" by (simp add: serviceProxyEnabled_def)
  with w(1) oc that show thesis by (auto simp: wired_def app_RouteTable_def)
qed

lemma sample_assumptions:
  "slice_sort (wd_sort sample_world)" "cc_HTTPRoutes sample_compiled \<in> {[], [sample_http_route], [json_route sample_http_route]}"
  "ch_Host sample_http_route \<noteq> []"
  using stable.slice_sort_axioms by (simp_all add: sample_world_def sample_compiled_def sample_http_route_def)

subsection \<open>Properties\<close>

text \<open>C1: HTTP requests follow Consul. After a callback, in every reachable instance, the handler finds for a request the same route as the
  first best of the routes just compiled, and none iff none of them matches; and every upstream of it that a request can be sent to is a
  healthy, addressed and marked instance of the route's service among the services of that callback (with the service proxy on), or
  the local sidecar listener for that service.\<close>

theorem request_follows_services:
  assumes "reachable hash S cr d" "route_hash hash S" "routes_closed S" "iter_ok wd" "wd_hash wd = hash"
    and "compiled_for wd cr svcs = Some c" "cc_HTTPRoutes c \<in> S" "onServicesChanged wd svcs (cr, d) = Some (Inr oc)"
    and "slice_sort (wd_sort wd)" "app_RouteTable (oc_router oc) = Some rt"
  shows "case Match rt host path of
      None \<Rightarrow> \<forall>r \<in> set (cc_HTTPRoutes c). \<not> request_matches host path r
    | Some route \<Rightarrow>
        (\<exists>r. first_best (request_matches host path) route_rank (cc_HTTPRoutes c) (Some r) \<and> same_route route r) \<and>
        (\<forall>u \<in> set (ch_Upstreams route).
           serviceProxyEnabled cr \<and> instance_of cr svcs (ch_ServiceName route) u \<or>
           (\<exists>i. through_sidecar (wd_resolve wd i) cr (ch_ServiceName route) [u]))"
proof -
  have "rt_routes rt = http_table (oc_router oc)" using assms(10) by (simp add: app_RouteTable_def http_table_def Routes_def)
  with callback_facts [OF assms(1-8)] have "same_json (rt_routes rt) (cc_HTTPRoutes c)" by simp
  then show ?thesis by (rule published_request [OF assms(6,9)])
qed

theorem request_follows_services_witness:
  "\<exists>oc rt route. onServicesChanged sample_world (sample_services ''4xx'') (sample_router NoFile, NoFile) = Some (Inr oc) \<and>
     app_RouteTable (oc_router oc) = Some rt \<and> Match rt ''a.example'' ''/'' = Some route \<and> same_route route sample_http_route"
proof -
  obtain oc rt tt where o: "onServicesChanged sample_world (sample_services ''4xx'') (sample_router NoFile, NoFile) = Some (Inr oc)"
    "app_RouteTable (oc_router oc) = Some rt" using sample_callback by metis
  have c: "cc_HTTPRoutes sample_compiled = [sample_http_route]" by (simp add: sample_compiled_def)
  have m: "request_matches ''a.example'' ''/'' sample_http_route" by code_simp
  note f = request_follows_services [OF sample_reachable sample_hash [OF sample_assumptions(3)] sample_iter refl sample_compiles
      sample_assumptions(2) o(1) sample_assumptions(1) o(2), of "''a.example''" "''/''", unfolded c]
  show ?thesis
  proof (cases "Match rt ''a.example'' ''/''")
    case None
    with f m show ?thesis by simp
  next
    case (Some route)
    from f [unfolded Some option.case] obtain r where
      r: "first_best (request_matches ''a.example'' ''/'') route_rank [sample_http_route] (Some r)" "same_route route r" by blast
    from first_best_in_set [OF r(1)] have "r = sample_http_route" by simp
    with o Some r(2) show ?thesis by blast
  qed
qed

text \<open>C9: Routing is eventually consistent with Consul, when flushes do not overlap: whatever has happened since the start of an instance,
  once a callback has run and nothing is under way, every upstream that a request can be sent to is an eligible instance of the route's
  service in the watcher's cache at that moment (with the service proxy on), or the local sidecar listener for that service.\<close>

theorem traffic_follows_cache:
  assumes "worlds_ok hash W" "route_hash hash S" "routes_closed S" "reachable hash S cr d" "w_pendingChanges w = []"
    and "(system_step True W S)\<^sup>*\<^sup>* (system_start cr d w) s" "quiet s" "sy_failed s = None" "\<not> w_stopped (sy_watcher s)"
    and "sy_served s \<noteq> None" "\<forall>wd \<in> W. slice_sort (wd_sort wd)"
    and "app_RouteTable (sy_router s) = Some rt" "Match rt host path = Some route" "u \<in> set (ch_Upstreams route)"
  shows "serviceProxyEnabled (sy_router s) \<and> instance_of (sy_router s) (snapshot (sy_watcher s)) (ch_ServiceName route) u \<or>
    (\<exists>wd \<in> W. \<exists>i. through_sidecar (wd_resolve wd i) (sy_router s) (ch_ServiceName route) [u])"
proof -
  from quiet_published [OF assms(1-9)] assms(10) obtain wd c where wd: "wd \<in> W"
    and c: "compiled_for wd (sy_router s) (snapshot (sy_watcher s)) = Some c" "same_json (http_table (sy_router s)) (cc_HTTPRoutes c)"
    by (auto simp: published_for_def)
  have "rt_routes rt = http_table (sy_router s)" using assms(12) by (simp add: app_RouteTable_def http_table_def Routes_def)
  with c(2) have j: "same_json (rt_routes rt) (cc_HTTPRoutes c)" by simp
  have "slice_sort (wd_sort wd)" using assms(11) wd by blast
  from published_request [OF c(1) this j, of host path] assms(13,14) wd show ?thesis by auto
qed

theorem traffic_follows_cache_witness:
  "\<exists>s rt route u. (system_step True {sample_world} sample_lists)\<^sup>*\<^sup>* sample_start s \<and> quiet s \<and> app_RouteTable (sy_router s) = Some rt \<and>
     Match rt ''a.example'' ''/'' = Some route \<and> u \<in> set (ch_Upstreams route) \<and>
     (serviceProxyEnabled (sy_router s) \<and> instance_of (sy_router s) (snapshot (sy_watcher s)) (ch_ServiceName route) u \<or>
      (\<exists>i. through_sidecar (wd_resolve sample_world i) (sy_router s) (ch_ServiceName route) [u]))"
proof -
  obtain s where run: "(system_step True {sample_world} sample_lists)\<^sup>*\<^sup>* sample_start s" and s: "sample_done other_watcher s"
    using sample_served by blast
  note q = sample_done_facts [OF s] and c = s [unfolded sample_done_def]
  note h = sample_worlds(1) sample_lists_ok sample_reachable q(6) run [unfolded sample_start_def] q(1-3)
  obtain rt where rt: "app_RouteTable (sy_router s) = Some rt" using c by (auto simp: runnable_def wired_def app_RouteTable_def)
  then have "http_table (sy_router s) = rt_routes rt" by (simp add: app_RouteTable_def http_table_def Routes_def)
  with quiet_published [OF h] q(4,5) c have j: "same_json (rt_routes rt) [sample_http_route]"
    by (auto simp: published_for_def sample_compiled_def)
  then have "same_json (rt_routes rt) (cc_HTTPRoutes sample_compiled)" by (simp add: sample_compiled_def)
  note p = published_request [OF _ sample_assumptions(1) this, of "sy_router s" "sample_services ''4xx''" "''a.example''" "''/''"]
  have m: "request_matches ''a.example'' ''/'' sample_http_route" by code_simp
  obtain route where route: "Match rt ''a.example'' ''/'' = Some route" "same_route route sample_http_route"
    using p c m by (cases "Match rt ''a.example'' ''/''") (auto simp: sample_compiled_def dest: first_best_in_set)
  then obtain u where u: "u \<in> set (ch_Upstreams route)" by (auto simp: same_route_def sample_http_route_def)
  have "\<forall>wd \<in> {sample_world}. slice_sort (wd_sort wd)" using sample_assumptions(1) by simp
  from traffic_follows_cache [OF h q(4) this rt route(1) u] run q(1) rt route(1) u show ?thesis
    by (intro exI [of _ s] exI [of _ rt] exI [of _ route] exI [of _ u]) auto
qed

text \<open>C12: TCP connections follow Consul too: after a callback, the route that a connection to a port gets, whatever server name it
  announces, is one of the routes just compiled for that port, and every upstream of it is an eligible instance of the route's service or its
  local sidecar listener.\<close>

theorem connection_follows_services:
  assumes "reachable hash S cr d" "route_hash hash S" "routes_closed S" "iter_ok wd" "wd_hash wd = hash"
    and "compiled_for wd cr svcs = Some c" "cc_HTTPRoutes c \<in> S" "onServicesChanged wd svcs (cr, d) = Some (Inr oc)"
    and "slice_sort (wd_sort wd)" "cr_tcpTable (oc_router oc) = Some tt" "TCPTable_Lookup tt port = Some pr" "tcp_match pr sni = Some t"
  shows "t \<in> set (cc_TCPRoutes c) \<and> ct_Port t = port \<and>
    (\<forall>u \<in> set (ct_Upstreams t). instance_of cr svcs (ct_ServiceName t) u \<or> (\<exists>i. through_sidecar (wd_resolve wd i) cr (ct_ServiceName t) [u]))"
proof -
  have tt: "tt = TCPTable_Update NewTCPTable (cc_TCPRoutes c)" using callback_facts [OF assms(1-8)] assms(10) by simp
  have "t \<in> set (pr_routes pr)" using assms(12) by (rule tcp_match_in_set)
  moreover have "pr_routes pr = filter (\<lambda>r. ct_Port r = port) (cc_TCPRoutes c)"
    using assms(11) unfolding tt Lookup_Update port_group_def Let_def by (auto split: if_splits)
  ultimately show ?thesis using compiled_tcp_upstreams [OF assms(6,9)] by simp
qed

theorem connection_follows_services_witness:
  "\<exists>oc tt pr. onServicesChanged sample_world (sample_services ''4xx'') (sample_router NoFile, NoFile) = Some (Inr oc) \<and>
     cr_tcpTable (oc_router oc) = Some tt \<and> TCPTable_Lookup tt 90 = Some pr \<and> tcp_match pr [] = Some sample_tcp_route \<and>
     (\<forall>u \<in> set (ct_Upstreams sample_tcp_route). instance_of (sample_router NoFile) (sample_services ''4xx'') (ct_ServiceName sample_tcp_route) u \<or>
        (\<exists>i. through_sidecar (wd_resolve sample_world i) (sample_router NoFile) (ct_ServiceName sample_tcp_route) [u]))"
proof -
  obtain oc rt tt where o: "onServicesChanged sample_world (sample_services ''4xx'') (sample_router NoFile, NoFile) = Some (Inr oc)"
    "cr_tcpTable (oc_router oc) = Some tt" using sample_callback by metis
  note h = sample_reachable sample_hash [OF sample_assumptions(3)] sample_iter refl sample_compiles sample_assumptions(2) o(1)
  have tt: "tt = TCPTable_Update NewTCPTable [sample_tcp_route]" using callback_facts [OF h] o(2) by (simp add: sample_compiled_def)
  define pr where "pr = the (TCPTable_Lookup (TCPTable_Update NewTCPTable [sample_tcp_route]) 90)"
  have l: "TCPTable_Lookup tt 90 = Some pr" "tcp_match pr [] = Some sample_tcp_route" unfolding tt pr_def by code_simp+
  from connection_follows_services [OF h sample_assumptions(1) o(2) l] o l show ?thesis by blast
qed

text \<open>The admin endpoints tell the truth: after a callback, \<open>/consul/tcp\<close> lists exactly the TCP routes just compiled, grouped by
  port, and \<open>/consul/routes\<close> the HTTP routes, as far as their JSON text goes; other methods than GET are refused.\<close>

theorem admin_shows_published:
  assumes "reachable hash S cr d" "route_hash hash S" "routes_closed S" "iter_ok wd" "wd_hash wd = hash"
    and "compiled_for wd cr svcs = Some c" "cc_HTTPRoutes c \<in> S" "onServicesChanged wd svcs (cr, d) = Some (Inr oc)"
    and "serviceProxyEnabled (oc_router oc) \<or> connectProxyEnabled (oc_router oc)"
  shows "(\<exists>rs. serveRoutes (store_globals (oc_router oc) g) ''GET'' = Inr rs \<and> same_json rs (cc_HTTPRoutes c)) \<and>
    (\<exists>ts. serveTCP (store_globals (oc_router oc) g) ''GET'' = Inr ts \<and> mset ts = mset (cc_TCPRoutes c)) \<and>
    (method \<noteq> ''GET'' \<longrightarrow> serveRoutes (store_globals (oc_router oc) g) method = Inl MethodNotAllowed)"
proof -
  note f = callback_facts [OF assms(1-8)]
  have "(case cr_routeTable (oc_router oc) of None \<Rightarrow> [] | Some rt \<Rightarrow> Routes rt) = http_table (oc_router oc)" by (simp add: http_table_def)
  moreover have "mset (TCPTable_Snapshot (TCPTable_Update NewTCPTable (cc_TCPRoutes c))) = mset (cc_TCPRoutes c)"
    by (simp add: TCPTable_Snapshot_def TCPTable_Update_def grouped_mset)
  ultimately show ?thesis using f assms(9) by (simp add: serveRoutes_def serveTCP_def store_globals_def)
qed

theorem admin_shows_published_witness:
  "\<exists>oc ts. onServicesChanged sample_world (sample_services ''4xx'') (sample_router NoFile, NoFile) = Some (Inr oc) \<and>
     serveTCP (store_globals (oc_router oc) \<lparr>ag_routeTable = None, ag_tcpTable = None\<rparr>) ''GET'' = Inr ts \<and> mset ts = {#sample_tcp_route#}"
proof -
  obtain oc where o: "onServicesChanged sample_world (sample_services ''4xx'') (sample_router NoFile, NoFile) = Some (Inr oc)"
    "serviceProxyEnabled (oc_router oc)" using sample_callback by metis
  then have e: "serviceProxyEnabled (oc_router oc) \<or> connectProxyEnabled (oc_router oc)" by simp
  from admin_shows_published [OF sample_reachable sample_hash [OF sample_assumptions(3)] sample_iter refl sample_compiles
      sample_assumptions(2) o(1) e, of "\<lparr>ag_routeTable = None, ag_tcpTable = None\<rparr>" "''GET''"] o(1)
  show ?thesis by (auto simp: sample_compiled_def)
qed

end
